(* ===== verification/Uptrakit_Prelude.thy ===== *)
theory Uptrakit_Prelude
  imports Main "HOL-Library.Char_ord" "HOL-Library.List_Lexorder"
begin

text \<open>
  Shared vocabulary of the development: the identifiers and clocks of the model, Rust's
  \<open>Result\<close> and its \<open>?\<close> operator, the string operations of Rust's standard library that the
  sources use, iteration over ordered sets, and two interfaces that several components
  provide: a printer with its parser (\<open>codec\<close>) and a state machine with an invariant
  (\<open>state_machine\<close>).
\<close>

section \<open>Collections of rewrite rules\<close>

named_theorems string_simps \<open>characterisations of the string operations\<close>
named_theorems result_simps \<open>inversion of the result combinators\<close>

section \<open>Identifiers, time, results\<close>

text \<open>A \<open>Uuid\<close> is a 128-bit value; the code only compares UUIDs, so a natural number with its
  order stands for it. An \<open>OffsetDateTime\<close> or \<open>Instant\<close> is a number of seconds.\<close>

type_synonym uuid = nat
type_synonym instant = int

abbreviation Ok :: "'a \<Rightarrow> 'e + 'a" where "Ok \<equiv> Inr"
abbreviation Err :: "'e \<Rightarrow> 'e + 'a" where "Err \<equiv> Inl"

text \<open>The \<open>?\<close> operator: an error leaves the function, a value goes on.\<close>

definition and_then :: "'e + 'a \<Rightarrow> ('a \<Rightarrow> 'e + 'b) \<Rightarrow> 'e + 'b" where
  "and_then r f = (case r of Inl e \<Rightarrow> Inl e | Inr a \<Rightarrow> f a)"

definition map_err :: "('e \<Rightarrow> 'f) \<Rightarrow> 'e + 'a \<Rightarrow> 'f + 'a" where
  "map_err g r = (case r of Inl e \<Rightarrow> Inl (g e) | Inr a \<Rightarrow> Inr a)"

definition ok_or :: "'e \<Rightarrow> 'a option \<Rightarrow> 'e + 'a" where
  "ok_or e x = (case x of None \<Rightarrow> Inl e | Some a \<Rightarrow> Inr a)"

definition is_ok :: "'e + 'a \<Rightarrow> bool" where
  "is_ok r = (case r of Inl _ \<Rightarrow> False | Inr _ \<Rightarrow> True)"

lemma and_then_simps [simp]:
  "and_then (Ok a) f = f a" "and_then (Err e) f = Err e"
  by (simp_all add: and_then_def)

lemma map_err_simps [simp]:
  "map_err g (Ok a) = Ok a" "map_err g (Err e) = Err (g e)"
  by (simp_all add: map_err_def)

lemma ok_or_simps [simp]:
  "ok_or e (Some a) = Ok a" "ok_or e None = Err e"
  by (simp_all add: ok_or_def)

lemma is_ok_simps [simp]: "is_ok (Ok a)" "\<not> is_ok (Err e)"
  by (simp_all add: is_ok_def)

lemma and_then_Ok_iff [result_simps]:
  "and_then r f = Ok b \<longleftrightarrow> (\<exists>a. r = Ok a \<and> f a = Ok b)"
  by (cases r) simp_all

lemma map_err_Ok_iff [result_simps]: "map_err g r = Ok a \<longleftrightarrow> r = Ok a"
  by (cases r) simp_all

lemma ok_or_Ok_iff [result_simps]: "ok_or e x = Ok a \<longleftrightarrow> x = Some a"
  by (cases x) simp_all

lemma is_ok_iff: "is_ok r \<longleftrightarrow> (\<exists>a. r = Ok a)"
  by (cases r) simp_all

section \<open>Strings\<close>

text \<open>A Rust \<open>&str\<close> is its UTF-8 bytes; \<open>len\<close> counts bytes, \<open>chars().count()\<close> the bytes that
  are not continuation bytes.\<close>

definition starts_with :: "string \<Rightarrow> string \<Rightarrow> bool" where
  "starts_with s p \<longleftrightarrow> take (length p) s = p"

definition strip_prefix :: "string \<Rightarrow> string \<Rightarrow> string option" where
  "strip_prefix s p = (if take (length p) s = p then Some (drop (length p) s) else None)"

definition strip_suffix :: "string \<Rightarrow> string \<Rightarrow> string option" where
  "strip_suffix s p =
     (if length p \<le> length s \<and> drop (length s - length p) s = p
      then Some (take (length s - length p) s) else None)"

definition split_once :: "string \<Rightarrow> char \<Rightarrow> (string \<times> string) option" where
  "split_once s c =
     (case dropWhile (\<lambda>x. x \<noteq> c) s of
        [] \<Rightarrow> None
      | _ # rest \<Rightarrow> Some (takeWhile (\<lambda>x. x \<noteq> c) s, rest))"

fun split_on :: "char \<Rightarrow> string \<Rightarrow> string list" where
  "split_on c [] = [[]]"
| "split_on c (x # xs) =
     (if x = c then [] # split_on c xs
      else (case split_on c xs of
              [] \<Rightarrow> [[x]]
            | seg # segs \<Rightarrow> (x # seg) # segs))"

definition char_count :: "string \<Rightarrow> nat" where
  "char_count s = length (filter (\<lambda>c. (of_char c :: nat) div 64 \<noteq> 2) s)"

lemma starts_with_iff [string_simps]: "starts_with s p \<longleftrightarrow> (\<exists>r. s = p @ r)"
  unfolding starts_with_def by (metis append_eq_conv_conj append_take_drop_id)

lemma strip_prefix_Some_iff [string_simps]: "strip_prefix s p = Some r \<longleftrightarrow> s = p @ r"
proof
  assume "strip_prefix s p = Some r"
  then show "s = p @ r"
    unfolding strip_prefix_def by (metis append_take_drop_id option.distinct(1) option.inject)
next
  assume "s = p @ r"
  then show "strip_prefix s p = Some r" by (simp add: strip_prefix_def)
qed

lemma strip_prefix_None_iff: "strip_prefix s p = None \<longleftrightarrow> \<not> starts_with s p"
  by (simp add: strip_prefix_def starts_with_def)

lemma strip_suffix_Some_iff [string_simps]: "strip_suffix s p = Some r \<longleftrightarrow> s = r @ p"
proof
  assume "strip_suffix s p = Some r"
  then show "s = r @ p"
    unfolding strip_suffix_def by (metis append_take_drop_id option.distinct(1) option.inject)
next
  assume "s = r @ p"
  then show "strip_suffix s p = Some r" by (simp add: strip_suffix_def)
qed

lemma split_once_Some_iff [string_simps]:
  "split_once s c = Some (a, b) \<longleftrightarrow> s = a @ c # b \<and> c \<notin> set a"
proof
  assume h: "split_once s c = Some (a, b)"
  then obtain y where d: "dropWhile (\<lambda>x. x \<noteq> c) s = y # b" and a: "a = takeWhile (\<lambda>x. x \<noteq> c) s"
    by (auto simp: split_once_def split: list.splits)
  have "y = c" using d by (metis (mono_tags, lifting) dropWhile_eq_Cons_conv)
  moreover have "s = a @ y # b" using d a by (metis takeWhile_dropWhile_id)
  moreover have "c \<notin> set a" using a by (auto dest: set_takeWhileD)
  ultimately show "s = a @ c # b \<and> c \<notin> set a" by simp
next
  assume h: "s = a @ c # b \<and> c \<notin> set a"
  then have "dropWhile (\<lambda>x. x \<noteq> c) s = c # b" "takeWhile (\<lambda>x. x \<noteq> c) s = a"
    by (auto simp: dropWhile_append3 takeWhile_append)
  then show "split_once s c = Some (a, b)" by (simp add: split_once_def)
qed

lemma split_on_nonempty [simp]: "split_on c s \<noteq> []"
  by (cases s) (auto split: list.splits)

lemma split_on_no_sep: "c \<notin> set s \<Longrightarrow> split_on c s = [s]"
  by (induction s) auto

lemma split_on_append_sep: "split_on c (a @ c # b) = split_on c a @ split_on c b"
proof (induction a)
  case Nil
  show ?case by simp
next
  case (Cons x xs)
  then show ?case by (cases "split_on c xs") (auto split: list.splits)
qed

lemma split_on_parts_no_sep: "w \<in> set (split_on c s) \<Longrightarrow> c \<notin> set w"
  by (induction s arbitrary: w) (auto split: list.splits if_splits)

section \<open>Ordered iteration\<close>

text \<open>A loop over a \<open>BTreeSet\<close> or over the keys of a \<open>BTreeMap\<close> visits the elements in
  ascending order.\<close>

abbreviation btree_iter :: "'a::linorder set \<Rightarrow> 'a list" where
  "btree_iter S \<equiv> sorted_list_of_set S"

section \<open>A printer and its parser\<close>

text \<open>The contract of a type with \<open>Display\<close> and \<open>FromStr\<close>: the parser reads back what the
  printer writes for a well-formed value, and accepts nothing but printed well-formed values.\<close>

locale codec =
  fixes print :: "'a \<Rightarrow> string"
    and parse :: "string \<Rightarrow> 'e + 'a"
    and wf :: "'a \<Rightarrow> bool"
  assumes parse_print: "wf a \<Longrightarrow> parse (print a) = Ok a"
    and print_parse: "parse s = Ok a \<Longrightarrow> print a = s \<and> wf a"
begin

lemma parse_Ok_iff: "parse s = Ok a \<longleftrightarrow> wf a \<and> print a = s"
  using parse_print print_parse by blast

lemma print_inj: "wf a \<Longrightarrow> wf b \<Longrightarrow> print a = print b \<Longrightarrow> a = b"
  using parse_print by (metis sum.inject(2))

lemma parse_canonical: "parse s = Ok a \<Longrightarrow> parse t = Ok a \<Longrightarrow> s = t"
  using print_parse by metis

end

section \<open>A state machine with an invariant\<close>

locale state_machine =
  fixes init :: "'s \<Rightarrow> bool"
    and step :: "'s \<Rightarrow> 's \<Rightarrow> bool"
    and inv :: "'s \<Rightarrow> bool"
  assumes inv_init: "init s \<Longrightarrow> inv s"
    and inv_step: "inv s \<Longrightarrow> step s t \<Longrightarrow> inv t"
begin

lemma inv_steps: "step\<^sup>*\<^sup>* s t \<Longrightarrow> inv s \<Longrightarrow> inv t"
  by (induction rule: rtranclp_induct) (auto intro: inv_step)

lemma inv_reachable: "init s \<Longrightarrow> step\<^sup>*\<^sup>* s t \<Longrightarrow> inv t"
  using inv_steps inv_init by blast

end

end
