(* ===== verification/Access_Catalog.thy ===== *)
theory Access_Catalog
  imports Uptrakit_Prelude
begin

text \<open>
  The access-control vocabulary of \<open>crates/shared/types/src/access\<close>: the segment grammar
  (\<open>mod.rs\<close>), the closed verb set (\<open>verb.rs\<close>), resources and the built-in action catalog
  (\<open>catalog.rs\<close>), and concrete actions \<open>resource:verb\<close> (\<open>action.rs\<close>). The theorems are the
  grammar of a segment, the round trips of verbs, resources and actions (as interpretations of
  \<open>codec\<close>), and that a parsed action respects the validity matrix.
\<close>

section \<open>Segment grammar (\<open>mod.rs\<close>)\<close>

definition is_ascii_lowercase :: "char \<Rightarrow> bool" where
  "is_ascii_lowercase c \<longleftrightarrow> CHR ''a'' \<le> c \<and> c \<le> CHR ''z''"

definition is_ascii_digit :: "char \<Rightarrow> bool" where
  "is_ascii_digit c \<longleftrightarrow> CHR ''0'' \<le> c \<and> c \<le> CHR ''9''"

text \<open>The loop of \<open>is_valid_segment\<close> over the remaining characters, with its flag.\<close>

fun segment_loop :: "bool \<Rightarrow> string \<Rightarrow> bool" where
  "segment_loop prev_hyphen [] = (\<not> prev_hyphen)"
| "segment_loop prev_hyphen (c # cs) =
     (if is_ascii_lowercase c \<or> is_ascii_digit c then segment_loop False cs
      else if c = CHR ''-'' \<and> \<not> prev_hyphen then segment_loop True cs
      else False)"

definition is_valid_segment :: "string \<Rightarrow> bool" where
  "is_valid_segment s =
     (case s of
        [] \<Rightarrow> False
      | first # chars \<Rightarrow> is_ascii_lowercase first \<and> segment_loop False chars)"

definition is_valid_segment_path :: "string \<Rightarrow> bool" where
  "is_valid_segment_path s \<longleftrightarrow> s \<noteq> [] \<and> list_all is_valid_segment (split_on (CHR ''.'') s)"

section \<open>Verbs (\<open>verb.rs\<close>)\<close>

datatype verb = Read | Create | Update | Delete | Trigger | Approve | Reject | Manage | Use

definition ALL_verbs :: "verb list" where
  "ALL_verbs = [Read, Create, Update, Delete, Trigger, Approve, Reject, Manage, Use]"

fun verb_as_str :: "verb \<Rightarrow> string" where
  "verb_as_str Read = ''read''"
| "verb_as_str Create = ''create''"
| "verb_as_str Update = ''update''"
| "verb_as_str Delete = ''delete''"
| "verb_as_str Trigger = ''trigger''"
| "verb_as_str Approve = ''approve''"
| "verb_as_str Reject = ''reject''"
| "verb_as_str Manage = ''manage''"
| "verb_as_str Use = ''use''"

datatype parse_verb_error = ParseVerbError

definition verb_from_str :: "string \<Rightarrow> parse_verb_error + verb" where
  "verb_from_str s =
     (if s = ''read'' then Ok Read
      else if s = ''create'' then Ok Create
      else if s = ''update'' then Ok Update
      else if s = ''delete'' then Ok Delete
      else if s = ''trigger'' then Ok Trigger
      else if s = ''approve'' then Ok Approve
      else if s = ''reject'' then Ok Reject
      else if s = ''manage'' then Ok Manage
      else if s = ''use'' then Ok Use
      else Err ParseVerbError)"

section \<open>Resources and the catalog (\<open>catalog.rs\<close>)\<close>

datatype selector_support = SupNone | SupHost | SupHostAndSoftware

datatype resource =
    Services | SystemServices | Software | Checks | Updates | Scheduler | Hosts | HostTags
  | Settings | SettingsAuth | SettingsEnrollmentTokens | SettingsCertificates | SystemSettings
  | SystemAccess | Commands | PluginConfigs | Notifications | Audit | SystemAudit | Users
  | Access | DiscoveryIgnores | Mcp | SystemConfigState
  | Plugin string | Surface string

record verb_entry =
  ve_verb :: verb
  ve_action_str :: string
  ve_description :: string
  ve_selector_support :: selector_support

record catalog_entry =
  ce_resource :: resource
  ce_resource_str :: string
  ce_verbs :: "verb_entry list"

text \<open>The rows of the \<open>access_catalog!\<close> invocation.\<close>

definition access_catalog ::
  "(resource \<times> string \<times> (verb \<times> string \<times> selector_support \<times> string) list) list" where
  "access_catalog =
  [ (Services, ''services'', [
      (Read, ''read'', SupNone,
        ''View tenant services and their status''),
      (Approve, ''approve'', SupNone,
        ''Approve pending service enrollments''),
      (Reject, ''reject'', SupNone,
        ''Reject pending service enrollments''),
      (Delete, ''delete'', SupNone,
        ''Deactivate/remove services''),
      (Update, ''update'', SupNone,
        ''Update service settings (ping interval, freeze, merge)'')]),
    (SystemServices, ''system.services'', [
      (Read, ''read'', SupNone,
        ''View system services (MQTT bridge, external scheduler)''),
      (Approve, ''approve'', SupNone,
        ''Approve pending system services''),
      (Reject, ''reject'', SupNone,
        ''Reject pending system services''),
      (Delete, ''delete'', SupNone,
        ''Deactivate system services''),
      (Update, ''update'', SupNone,
        ''Update system service settings'')]),
    (Software, ''software'', [
      (Read, ''read'', SupNone,
        ''View software items, plugin configs, history''),
      (Create, ''create'', SupNone,
        ''Create software items and plugin configs''),
      (Update, ''update'', SupNone,
        ''Edit software items and plugin configs''),
      (Delete, ''delete'', SupNone,
        ''Delete software items and plugin configs'')]),
    (Checks, ''checks'', [
      (Trigger, ''trigger'', SupHostAndSoftware,
        ''Trigger version checks and autodiscovery'')]),
    (Updates, ''updates'', [
      (Trigger, ''trigger'', SupHostAndSoftware,
        ''Trigger update execution (single and batch)'')]),
    (Scheduler, ''scheduler'', [
      (Manage, ''manage'', SupNone,
        ''Manage scheduled tasks'')]),
    (Hosts, ''hosts'', [
      (Read, ''read'', SupHost,
        ''View hosts''),
      (Update, ''update'', SupHost,
        ''Update host properties''),
      (Delete, ''delete'', SupHost,
        ''Deactivate hosts'')]),
    (HostTags, ''hosts.tags'', [
      (Manage, ''manage'', SupNone,
        ''Create, edit, delete, and assign host tags (tag-scoped grants make this access-control authority)'')]),
    (Settings, ''settings'', [
      (Read, ''read'', SupNone,
        ''View all tenant settings'')]),
    (SettingsAuth, ''settings.auth'', [
      (Manage, ''manage'', SupNone,
        ''Manage registration, authentication, OIDC providers'')]),
    (SettingsEnrollmentTokens, ''settings.enrollment-tokens'', [
      (Manage, ''manage'', SupNone,
        ''Manage tenant enrollment tokens'')]),
    (SettingsCertificates, ''settings.certificates'', [
      (Manage, ''manage'', SupNone,
        ''Manage agent certificate settings'')]),
    (SystemSettings, ''system.settings'', [
      (Manage, ''manage'', SupNone,
        ''Manage global infrastructure settings'')]),
    (SystemAccess, ''system.access'', [
      (Manage, ''manage'', SupNone,
        ''Manage system-plane grants and role assignments conferring system-plane authority'')]),
    (Commands, ''commands'', [
      (Manage, ''manage'', SupNone,
        ''Modify command-bearing plugin config fields (code execution authority)'')]),
    (PluginConfigs, ''plugin-configs'', [
      (Trigger, ''trigger'', SupNone,
        ''Test plugin configurations against hosts (dry-run validation)'')]),
    (Notifications, ''notifications'', [
      (Read, ''read'', SupNone,
        ''View notification channels, rules, log''),
      (Manage, ''manage'', SupNone,
        ''Create/modify notification channels and rules; SMTP settings'')]),
    (Audit, ''audit'', [
      (Read, ''read'', SupNone,
        ''View tenant-scoped audit log entries'')]),
    (SystemAudit, ''system.audit'', [
      (Read, ''read'', SupNone,
        ''View system-level audit log entries'')]),
    (Users, ''users'', [
      (Manage, ''manage'', SupNone,
        ''Manage user lifecycle (activate/deactivate, lifecycle reads)'')]),
    (Access, ''access'', [
      (Manage, ''manage'', SupNone,
        ''Manage grants, roles, and role assignments (authority administration)'')]),
    (DiscoveryIgnores, ''discovery.ignores'', [
      (Manage, ''manage'', SupNone,
        ''Manage autodiscovery ignore rules'')]),
    (Mcp, ''mcp'', [
      (Use, ''use'', SupNone,
        ''Access the MCP server endpoint'')]),
    (SystemConfigState, ''system.config-state'', [
      (Read, ''read'', SupNone,
        ''View instance config reload state''),
      (Manage, ''manage'', SupNone,
        ''Manage instance config reload state (clear degraded)'')])]"

text \<open>What the macro makes of them.\<close>

definition catalog_verb_entry ::
  "string \<Rightarrow> verb \<times> string \<times> selector_support \<times> string \<Rightarrow> verb_entry" where
  "catalog_verb_entry res_str row =
     (case row of (v, verb_str, support, desc) \<Rightarrow>
        \<lparr>ve_verb = v, ve_action_str = res_str @ '':'' @ verb_str, ve_description = desc,
         ve_selector_support = support\<rparr>)"

definition CATALOG :: "catalog_entry list" where
  "CATALOG =
     map (\<lambda>(r, res_str, vs).
       \<lparr>ce_resource = r, ce_resource_str = res_str,
        ce_verbs = map (catalog_verb_entry res_str) vs\<rparr>) access_catalog"

fun as_str :: "resource \<Rightarrow> string" where
  "as_str Services = ''services''"
| "as_str SystemServices = ''system.services''"
| "as_str Software = ''software''"
| "as_str Checks = ''checks''"
| "as_str Updates = ''updates''"
| "as_str Scheduler = ''scheduler''"
| "as_str Hosts = ''hosts''"
| "as_str HostTags = ''hosts.tags''"
| "as_str Settings = ''settings''"
| "as_str SettingsAuth = ''settings.auth''"
| "as_str SettingsEnrollmentTokens = ''settings.enrollment-tokens''"
| "as_str SettingsCertificates = ''settings.certificates''"
| "as_str SystemSettings = ''system.settings''"
| "as_str SystemAccess = ''system.access''"
| "as_str Commands = ''commands''"
| "as_str PluginConfigs = ''plugin-configs''"
| "as_str Notifications = ''notifications''"
| "as_str Audit = ''audit''"
| "as_str SystemAudit = ''system.audit''"
| "as_str Users = ''users''"
| "as_str Access = ''access''"
| "as_str DiscoveryIgnores = ''discovery.ignores''"
| "as_str Mcp = ''mcp''"
| "as_str SystemConfigState = ''system.config-state''"
| "as_str (Plugin s) = s"
| "as_str (Surface s) = s"

fun allowed_verbs :: "resource \<Rightarrow> verb list" where
  "allowed_verbs Services = [Read, Approve, Reject, Delete, Update]"
| "allowed_verbs SystemServices = [Read, Approve, Reject, Delete, Update]"
| "allowed_verbs Software = [Read, Create, Update, Delete]"
| "allowed_verbs Checks = [Trigger]"
| "allowed_verbs Updates = [Trigger]"
| "allowed_verbs Scheduler = [Manage]"
| "allowed_verbs Hosts = [Read, Update, Delete]"
| "allowed_verbs HostTags = [Manage]"
| "allowed_verbs Settings = [Read]"
| "allowed_verbs SettingsAuth = [Manage]"
| "allowed_verbs SettingsEnrollmentTokens = [Manage]"
| "allowed_verbs SettingsCertificates = [Manage]"
| "allowed_verbs SystemSettings = [Manage]"
| "allowed_verbs SystemAccess = [Manage]"
| "allowed_verbs Commands = [Manage]"
| "allowed_verbs PluginConfigs = [Trigger]"
| "allowed_verbs Notifications = [Read, Manage]"
| "allowed_verbs Audit = [Read]"
| "allowed_verbs SystemAudit = [Read]"
| "allowed_verbs Users = [Manage]"
| "allowed_verbs Access = [Manage]"
| "allowed_verbs DiscoveryIgnores = [Manage]"
| "allowed_verbs Mcp = [Use]"
| "allowed_verbs SystemConfigState = [Read, Manage]"
| "allowed_verbs (Plugin _) = ALL_verbs"
| "allowed_verbs (Surface _) = ALL_verbs"

definition is_system :: "resource \<Rightarrow> bool" where
  "is_system r = starts_with (as_str r) ''system.''"

definition plugin_type :: "resource \<Rightarrow> string option" where
  "plugin_type r = (case r of Plugin s \<Rightarrow> strip_prefix s ''plugin.'' | _ \<Rightarrow> None)"

definition surface_id :: "resource \<Rightarrow> string option" where
  "surface_id r = (case r of Surface s \<Rightarrow> strip_prefix s ''surface.'' | _ \<Rightarrow> None)"

datatype parse_resource_error = UnknownResource | EmptyDynamicRemainder | InvalidSegment

definition resource_dynamic :: "string \<Rightarrow> string \<Rightarrow> parse_resource_error + string" where
  "resource_dynamic prefix remainder =
     (if remainder = [] then Err EmptyDynamicRemainder
      else if \<not> is_valid_segment_path remainder then Err InvalidSegment
      else Ok (prefix @ remainder))"

definition resource_plugin :: "string \<Rightarrow> parse_resource_error + resource" where
  "resource_plugin pt = map_sum id Plugin (resource_dynamic ''plugin.'' pt)"

definition resource_surface :: "string \<Rightarrow> parse_resource_error + resource" where
  "resource_surface sid = map_sum id Surface (resource_dynamic ''surface.'' sid)"

definition resource_from_str :: "string \<Rightarrow> parse_resource_error + resource" where
  "resource_from_str s =
     (case find (\<lambda>e. ce_resource_str e = s) CATALOG of
        Some e \<Rightarrow> Ok (ce_resource e)
      | None \<Rightarrow>
          (case strip_prefix s ''plugin.'' of
             Some rest \<Rightarrow> resource_plugin rest
           | None \<Rightarrow>
               (case strip_prefix s ''surface.'' of
                  Some rest \<Rightarrow> resource_surface rest
                | None \<Rightarrow> Err UnknownResource)))"

section \<open>Actions (\<open>action.rs\<close>, \<open>bounds.rs\<close>)\<close>

definition MAX_PATTERN_LEN :: nat where "MAX_PATTERN_LEN = 64"

record action =
  action_resource :: resource
  action_verb :: verb

datatype parse_action_error =
    ActionTooLong nat
  | ActionStructure
  | ActionUnknownVerb parse_verb_error
  | ActionResource parse_resource_error
  | InvalidPair string verb

definition action_new :: "resource \<Rightarrow> verb \<Rightarrow> parse_action_error + action" where
  "action_new r v =
     (if v \<in> set (allowed_verbs r) then Ok \<lparr>action_resource = r, action_verb = v\<rparr>
      else Err (InvalidPair (as_str r) v))"

definition action_verb_entry :: "action \<Rightarrow> verb_entry option" where
  "action_verb_entry a =
     Option.bind (find (\<lambda>e. ce_resource e = action_resource a) CATALOG)
       (\<lambda>e. find (\<lambda>ve. ve_verb ve = action_verb a) (ce_verbs e))"

definition action_selector_support :: "action \<Rightarrow> selector_support" where
  "action_selector_support a =
     (case map_option ve_selector_support (action_verb_entry a) of
        None \<Rightarrow> SupNone | Some level \<Rightarrow> level)"

definition action_to_string :: "action \<Rightarrow> string" where
  "action_to_string a = as_str (action_resource a) @ '':'' @ verb_as_str (action_verb a)"

definition action_from_str :: "string \<Rightarrow> parse_action_error + action" where
  "action_from_str s =
     (if length s > MAX_PATTERN_LEN then Err (ActionTooLong MAX_PATTERN_LEN)
      else
        (case split_once s (CHR '':'') of
           None \<Rightarrow> Err ActionStructure
         | Some (resource_s, verb_s) \<Rightarrow>
             if resource_s = [] \<or> verb_s = [] \<or> CHR '':'' \<in> set verb_s then Err ActionStructure
             else
               and_then (map_err ActionUnknownVerb (verb_from_str verb_s)) (\<lambda>v.
               and_then (map_err ActionResource (resource_from_str resource_s)) (\<lambda>r.
               action_new r v))))"

text \<open>The two action constants the lockout guard and the deny-audit policy name.\<close>

definition ACCESS_MANAGE :: action where
  "ACCESS_MANAGE = \<lparr>action_resource = Access, action_verb = Manage\<rparr>"

definition SYSTEM_ACCESS_MANAGE :: action where
  "SYSTEM_ACCESS_MANAGE = \<lparr>action_resource = SystemAccess, action_verb = Manage\<rparr>"

definition COMMANDS_MANAGE :: action where
  "COMMANDS_MANAGE = \<lparr>action_resource = Commands, action_verb = Manage\<rparr>"

definition MCP_USE :: action where
  "MCP_USE = \<lparr>action_resource = Mcp, action_verb = Use\<rparr>"

definition deny_event_worthy :: "action \<Rightarrow> bool" where
  "deny_event_worthy a \<longleftrightarrow>
     is_system (action_resource a) \<or> a = COMMANDS_MANAGE \<or> a = ACCESS_MANAGE \<or> a = MCP_USE"

section \<open>Well-formed values\<close>

text \<open>The dynamic variants are sealed: \<open>Resource::plugin\<close> and \<open>Resource::surface\<close> are the only
  ways to build them, and \<open>Action::new\<close> is the only way to build an action outside the
  catalog. Values built so are well formed.\<close>

fun wf_resource :: "resource \<Rightarrow> bool" where
  "wf_resource (Plugin s) =
     (case strip_prefix s ''plugin.'' of None \<Rightarrow> False | Some r \<Rightarrow> is_valid_segment_path r)"
| "wf_resource (Surface s) =
     (case strip_prefix s ''surface.'' of None \<Rightarrow> False | Some r \<Rightarrow> is_valid_segment_path r)"
| "wf_resource _ = True"

definition wf_action :: "action \<Rightarrow> bool" where
  "wf_action a \<longleftrightarrow>
     wf_resource (action_resource a) \<and>
     action_verb a \<in> set (allowed_verbs (action_resource a))"

fun is_dynamic_resource :: "resource \<Rightarrow> bool" where
  "is_dynamic_resource (Plugin _) = True"
| "is_dynamic_resource (Surface _) = True"
| "is_dynamic_resource _ = False"

section \<open>Characters of the grammar\<close>

definition is_segment_char :: "char \<Rightarrow> bool" where
  "is_segment_char c \<longleftrightarrow> is_ascii_lowercase c \<or> is_ascii_digit c"

lemma segment_char_simps [simp]:
  "\<not> is_segment_char (CHR '':'')" "\<not> is_segment_char (CHR ''.'')"
  "\<not> is_segment_char (CHR ''*'')" "\<not> is_segment_char (CHR ''-'')"
  by (simp_all add: is_segment_char_def is_ascii_lowercase_def is_ascii_digit_def less_eq_char_def)

lemma segment_loop_Cons:
  "segment_loop ph (c # cs) =
     (if is_segment_char c then segment_loop False cs
      else c = CHR ''-'' \<and> \<not> ph \<and> segment_loop True cs)"
  by (simp add: is_segment_char_def)

declare segment_loop.simps(2) [simp del]

lemma segment_loop_split:
  "segment_loop ph s \<longleftrightarrow>
     (\<forall>w \<in> set (split_on (CHR ''-'') s). list_all is_segment_char w) \<and>
     (\<forall>w \<in> set (tl (split_on (CHR ''-'') s)). w \<noteq> []) \<and>
     (ph \<longrightarrow> hd (split_on (CHR ''-'') s) \<noteq> [])"
proof (induction s arbitrary: ph)
  case Nil
  show ?case by simp
next
  case (Cons c cs)
  obtain w ws where sp: "split_on (CHR ''-'') cs = w # ws"
    by (cases "split_on (CHR ''-'') cs") auto
  show ?case
  proof (cases "c = CHR ''-''")
    case True
    then show ?thesis using Cons.IH[of True] sp by (auto simp: segment_loop_Cons)
  next
    case False
    then show ?thesis
      using Cons.IH[of False] sp by (auto simp: segment_loop_Cons)
  qed
qed

lemma segment_loop_chars:
  "segment_loop ph s \<Longrightarrow> c \<in> set s \<Longrightarrow> is_segment_char c \<or> c = CHR ''-''"
  by (induction s arbitrary: ph) (auto simp: segment_loop_Cons split: if_splits)

lemma valid_segment_chars:
  "is_valid_segment s \<Longrightarrow> c \<in> set s \<Longrightarrow> is_segment_char c \<or> c = CHR ''-''"
  by (auto simp: is_valid_segment_def is_segment_char_def
      dest: segment_loop_chars split: list.splits)

lemma split_on_chars: "c \<in> set s \<Longrightarrow> c = d \<or> (\<exists>w \<in> set (split_on d s). c \<in> set w)"
proof (induction s)
  case Nil
  then show ?case by simp
next
  case (Cons x xs)
  then show ?case by (cases "split_on d xs") auto
qed

lemma valid_path_chars:
  assumes "is_valid_segment_path s" "c \<in> set s"
  shows "is_segment_char c \<or> c = CHR ''-'' \<or> c = CHR ''.''"
proof -
  from split_on_chars[OF assms(2), of "CHR ''.''"] show ?thesis
    using assms(1) valid_segment_chars
    by (auto simp: is_valid_segment_path_def list_all_iff)
qed

lemma valid_path_no_sep [simp]:
  assumes "is_valid_segment_path s"
  shows "CHR '':'' \<notin> set s" "CHR ''*'' \<notin> set s"
  using valid_path_chars[OF assms] by fastforce+

lemma valid_path_nonempty [simp]: "is_valid_segment_path s \<Longrightarrow> s \<noteq> []"
  by (simp add: is_valid_segment_path_def)

lemma valid_path_append:
  "is_valid_segment_path a \<Longrightarrow> is_valid_segment_path b \<Longrightarrow>
   is_valid_segment_path (a @ CHR ''.'' # b)"
  by (simp add: is_valid_segment_path_def split_on_append_sep)

lemma valid_path_suffix:
  "is_valid_segment_path (a @ CHR ''.'' # b) \<Longrightarrow> is_valid_segment_path b"
  by (auto simp: is_valid_segment_path_def split_on_append_sep is_valid_segment_def)

section \<open>The catalog\<close>

text \<open>Facts about the concrete table, each evaluated once.\<close>

lemma catalog_as_str: "list_all (\<lambda>e. as_str (ce_resource e) = ce_resource_str e) CATALOG"
  by code_simp

lemma catalog_resources_static: "list_all (\<lambda>e. \<not> is_dynamic_resource (ce_resource e)) CATALOG"
  by code_simp

lemma catalog_strings_distinct: "distinct (map ce_resource_str CATALOG)"
  by code_simp

lemma catalog_resources:
  "map ce_resource CATALOG =
    [Services, SystemServices, Software, Checks, Updates, Scheduler, Hosts, HostTags,
     Settings, SettingsAuth, SettingsEnrollmentTokens, SettingsCertificates, SystemSettings,
     SystemAccess, Commands, PluginConfigs, Notifications, Audit, SystemAudit, Users,
     Access, DiscoveryIgnores, Mcp, SystemConfigState]"
  by code_simp

lemma catalog_matrix:
  "list_all (\<lambda>e. map ve_verb (ce_verbs e) = allowed_verbs (ce_resource e)) CATALOG"
  by code_simp

lemma catalog_action_strs:
  "list_all (\<lambda>e. list_all (\<lambda>ve. ve_action_str ve =
     ce_resource_str e @ '':'' @ verb_as_str (ve_verb ve)) (ce_verbs e)) CATALOG"
  by code_simp

lemma catalog_grammar: "list_all (\<lambda>e. is_valid_segment_path (ce_resource_str e)) CATALOG"
  by code_simp

lemma catalog_not_dynamic:
  "list_all (\<lambda>e. \<not> starts_with (ce_resource_str e) ''plugin.'' \<and>
                 \<not> starts_with (ce_resource_str e) ''surface.'') CATALOG"
  by code_simp

lemma catalog_lengths:
  "list_all (\<lambda>e. list_all (\<lambda>ve. length (ve_action_str ve) \<le> MAX_PATTERN_LEN) (ce_verbs e)) CATALOG"
  by code_simp

lemma static_resource_in_catalog:
  assumes "\<not> is_dynamic_resource r"
  shows "\<exists>e \<in> set CATALOG. ce_resource e = r"
proof -
  have "r \<in> set (map ce_resource CATALOG)"
    unfolding catalog_resources using assms by (cases r) simp_all
  then show ?thesis by auto
qed

section \<open>Round trips\<close>

lemma verb_from_as_str [simp]: "verb_from_str (verb_as_str v) = Ok v"
  by (cases v) (simp_all add: verb_from_str_def)

lemma verb_as_from_str: "verb_from_str s = Ok v \<Longrightarrow> verb_as_str v = s"
  by (auto simp: verb_from_str_def split: if_splits)

interpretation verb_codec: codec verb_as_str verb_from_str "\<lambda>_. True"
  by unfold_locales (auto dest: verb_as_from_str)

lemma verb_as_str_chars [simp]:
  "verb_as_str v \<noteq> []" "CHR '':'' \<notin> set (verb_as_str v)" "verb_as_str v \<noteq> ''*''"
  by (cases v; simp)+

lemma ALL_verbs_complete [simp]: "v \<in> set ALL_verbs"
  by (cases v) (simp_all add: ALL_verbs_def)

lemma catalogD:
  assumes "e \<in> set CATALOG"
  shows "as_str (ce_resource e) = ce_resource_str e" "\<not> is_dynamic_resource (ce_resource e)"
    "map ve_verb (ce_verbs e) = allowed_verbs (ce_resource e)"
    "is_valid_segment_path (ce_resource_str e)"
    "\<not> starts_with (ce_resource_str e) ''plugin.''"
    "\<not> starts_with (ce_resource_str e) ''surface.''"
  using assms catalog_as_str catalog_resources_static catalog_matrix catalog_grammar
    catalog_not_dynamic by (auto simp: list_all_iff)

lemma catalog_str_unique:
  assumes "e \<in> set CATALOG" "e' \<in> set CATALOG" "ce_resource_str e = ce_resource_str e'"
  shows "e = e'"
  using assms catalog_strings_distinct by (auto simp: distinct_map dest: inj_onD)

lemma find_catalog_str:
  assumes "e \<in> set CATALOG"
  shows "find (\<lambda>e'. ce_resource_str e' = ce_resource_str e) CATALOG = Some e"
proof -
  obtain e' where e': "find (\<lambda>e'. ce_resource_str e' = ce_resource_str e) CATALOG = Some e'"
    using assms by (cases "find (\<lambda>e'. ce_resource_str e' = ce_resource_str e) CATALOG")
      (auto simp: find_None_iff)
  then have "e' \<in> set CATALOG" "ce_resource_str e' = ce_resource_str e"
    by (auto simp: find_Some_iff)
  with assms have "e' = e" by (blast intro: catalog_str_unique)
  with e' show ?thesis by simp
qed

lemma find_catalog_dynamic:
  assumes "starts_with s ''plugin.'' \<or> starts_with s ''surface.''"
  shows "find (\<lambda>e. ce_resource_str e = s) CATALOG = None"
  using assms catalogD(5,6) by (auto simp: find_None_iff)

lemma wf_static [simp]: "\<not> is_dynamic_resource r \<Longrightarrow> wf_resource r"
  by (cases r) simp_all

lemma wf_plugin_iff: "wf_resource (Plugin s) \<longleftrightarrow> (\<exists>r. s = ''plugin.'' @ r \<and> is_valid_segment_path r)"
  unfolding strip_prefix_Some_iff [symmetric] by (simp split: option.splits)

lemma wf_surface_iff: "wf_resource (Surface s) \<longleftrightarrow> (\<exists>r. s = ''surface.'' @ r \<and> is_valid_segment_path r)"
  unfolding strip_prefix_Some_iff [symmetric] by (simp split: option.splits)

lemma resource_from_as_str:
  assumes "wf_resource r"
  shows "resource_from_str (as_str r) = Ok r"
proof (cases "is_dynamic_resource r")
  case False
  then obtain e where "e \<in> set CATALOG" "ce_resource e = r"
    using static_resource_in_catalog by blast
  then show ?thesis
    using find_catalog_str[of e] catalogD(1)[of e] by (simp add: resource_from_str_def)
next
  case True
  note dyn = find_catalog_dynamic[unfolded starts_with_iff]
  show ?thesis
  proof (cases r)
    case (Plugin s)
    then obtain q where q: "s = ''plugin.'' @ q" "is_valid_segment_path q"
      using assms by (auto simp: wf_plugin_iff simp del: wf_resource.simps)
    then have "find (\<lambda>e. ce_resource_str e = s) CATALOG = None" by (intro dyn) blast
    moreover have "strip_prefix s ''plugin.'' = Some q" using q by (simp only: strip_prefix_Some_iff)
    ultimately show ?thesis
      using Plugin q by (simp add: resource_from_str_def resource_plugin_def resource_dynamic_def)
  next
    case (Surface s)
    then obtain q where q: "s = ''surface.'' @ q" "is_valid_segment_path q"
      using assms by (auto simp: wf_surface_iff simp del: wf_resource.simps)
    then have "find (\<lambda>e. ce_resource_str e = s) CATALOG = None" by (intro dyn) blast
    moreover have "strip_prefix s ''surface.'' = Some q" using q by (simp only: strip_prefix_Some_iff)
    moreover have "strip_prefix s ''plugin.'' = None" using q by (simp add: strip_prefix_def)
    ultimately show ?thesis
      using Surface q by (simp add: resource_from_str_def resource_surface_def resource_dynamic_def)
  qed (use True in simp_all)
qed

lemma resource_as_from_str:
  assumes "resource_from_str s = Ok r"
  shows "as_str r = s \<and> wf_resource r"
proof (cases "find (\<lambda>e. ce_resource_str e = s) CATALOG")
  case None
  with assms show ?thesis
    by (auto simp: resource_from_str_def resource_plugin_def resource_surface_def
        resource_dynamic_def string_simps split: option.splits if_splits)
next
  case (Some e)
  then have "e \<in> set CATALOG" "ce_resource_str e = s" by (auto simp: find_Some_iff)
  with Some assms catalogD(1,2) show ?thesis by (auto simp: resource_from_str_def)
qed

interpretation resource_codec: codec as_str resource_from_str wf_resource
  by unfold_locales (auto dest: resource_as_from_str simp: resource_from_as_str)

lemma wf_resource_valid_path:
  assumes "wf_resource r"
  shows "is_valid_segment_path (as_str r)"
proof (cases "is_dynamic_resource r")
  case False
  then show ?thesis using static_resource_in_catalog catalogD(1,4) by metis
next
  case True
  have d: "is_valid_segment_path ''plugin''" "is_valid_segment_path ''surface''" by code_simp+
  from True assms show ?thesis
    using valid_path_append[OF d(1)] valid_path_append[OF d(2)]
    by (cases r) (auto simp: wf_plugin_iff wf_surface_iff simp del: wf_resource.simps)
qed

lemma action_new_Ok_iff:
  "action_new r v = Ok a \<longleftrightarrow>
     v \<in> set (allowed_verbs r) \<and> a = \<lparr>action_resource = r, action_verb = v\<rparr>"
  by (auto simp: action_new_def)

lemma action_from_to_string:
  assumes "wf_action a" "length (action_to_string a) \<le> MAX_PATTERN_LEN"
  shows "action_from_str (action_to_string a) = Ok a"
proof -
  from assms(1) have r: "wf_resource (action_resource a)"
    and v: "action_verb a \<in> set (allowed_verbs (action_resource a))"
    by (auto simp: wf_action_def)
  note p = wf_resource_valid_path[OF r]
  have "split_once (action_to_string a) (CHR '':'') =
      Some (as_str (action_resource a), verb_as_str (action_verb a))"
    using p by (simp add: split_once_Some_iff action_to_string_def)
  then show ?thesis
    using assms(2) p v by (simp add: action_from_str_def resource_codec.parse_print[OF r] action_new_def)
qed

lemma action_to_from_string:
  assumes "action_from_str s = Ok a"
  shows "action_to_string a = s \<and> wf_action a \<and> length (action_to_string a) \<le> MAX_PATTERN_LEN"
proof -
  from assms obtain rs vs where len: "length s \<le> MAX_PATTERN_LEN"
    and so: "split_once s (CHR '':'') = Some (rs, vs)"
    and vr: "verb_from_str vs = Ok (action_verb a)"
      "resource_from_str rs = Ok (action_resource a)"
    and al: "action_verb a \<in> set (allowed_verbs (action_resource a))"
    by (auto simp: action_from_str_def result_simps action_new_Ok_iff
        split: if_splits option.splits)
  from so have sp: "s = rs @ CHR '':'' # vs" by (simp add: string_simps)
  have "verb_as_str (action_verb a) = vs" "as_str (action_resource a) = rs"
    "wf_resource (action_resource a)"
    using vr by (auto dest: verb_as_from_str resource_as_from_str)
  with len sp al show ?thesis by (auto simp: action_to_string_def wf_action_def)
qed

interpretation action_codec: codec action_to_string action_from_str
    "\<lambda>a. wf_action a \<and> length (action_to_string a) \<le> MAX_PATTERN_LEN"
  by unfold_locales (auto dest: action_to_from_string simp: action_from_to_string)

section \<open>System plane and dynamic namespaces\<close>

lemma dynamic_iff_namespace:
  assumes "wf_resource r"
  shows "is_dynamic_resource r \<longleftrightarrow> plugin_type r \<noteq> None \<or> surface_id r \<noteq> None"
  using assms by (cases r) (auto simp: plugin_type_def surface_id_def split: option.splits)

lemma dynamic_iff_prefix:
  assumes "wf_resource r"
  shows "is_dynamic_resource r \<longleftrightarrow>
    starts_with (as_str r) ''plugin.'' \<or> starts_with (as_str r) ''surface.''"
proof (cases "is_dynamic_resource r")
  case False
  then show ?thesis using static_resource_in_catalog catalogD(1,5,6) by metis
next
  case True
  with assms show ?thesis
    by (cases r) (auto simp: wf_plugin_iff wf_surface_iff starts_with_def simp del: wf_resource.simps)
qed

lemma dynamic_not_system: "wf_resource r \<Longrightarrow> is_dynamic_resource r \<Longrightarrow> \<not> is_system r"
  by (cases r) (auto simp: is_system_def starts_with_def wf_plugin_iff wf_surface_iff simp del: wf_resource.simps)

lemma is_system_iff:
  "wf_resource r \<Longrightarrow> is_system r \<longleftrightarrow>
    r \<in> {SystemServices, SystemSettings, SystemAccess, SystemAudit, SystemConfigState}"
  by (cases r) (auto simp: is_system_def starts_with_def wf_plugin_iff wf_surface_iff simp del: wf_resource.simps)

lemma catalog_verb_pair:
  assumes "e \<in> set CATALOG" "ve \<in> set (ce_verbs e)"
  shows "wf_action \<lparr>action_resource = ce_resource e, action_verb = ve_verb ve\<rparr>"
    "ve_action_str ve = action_to_string \<lparr>action_resource = ce_resource e, action_verb = ve_verb ve\<rparr>"
proof -
  have "ve_verb ve \<in> set (map ve_verb (ce_verbs e))" using assms(2) by simp
  then have "ve_verb ve \<in> set (allowed_verbs (ce_resource e))"
    unfolding catalogD(3)[OF assms(1)] .
  then show "wf_action \<lparr>action_resource = ce_resource e, action_verb = ve_verb ve\<rparr>"
    using catalogD(2)[OF assms(1)] by (simp add: wf_action_def)
  show "ve_action_str ve = action_to_string \<lparr>action_resource = ce_resource e, action_verb = ve_verb ve\<rparr>"
    using assms catalog_action_strs catalogD(1)[OF assms(1)]
    by (auto simp: list_all_iff action_to_string_def)
qed

lemma catalog_str_length:
  "e \<in> set CATALOG \<Longrightarrow> ve \<in> set (ce_verbs e) \<Longrightarrow> length (ve_action_str ve) \<le> MAX_PATTERN_LEN"
  using catalog_lengths by (auto simp: list_all_iff)

lemma catalog_parses:
  assumes "e \<in> set CATALOG" "ve \<in> set (ce_verbs e)"
  shows "action_from_str (ve_action_str ve) =
    Ok \<lparr>action_resource = ce_resource e, action_verb = ve_verb ve\<rparr>"
  using catalog_verb_pair[OF assms] catalog_str_length[OF assms] action_codec.parse_print by simp

lemma catalog_support_levels:
  "list_all (\<lambda>e. list_all (\<lambda>ve.
     action_selector_support \<lparr>action_resource = ce_resource e, action_verb = ve_verb ve\<rparr>
       = ve_selector_support ve) (ce_verbs e)) CATALOG"
  by code_simp

lemma wf_static_action_catalogued:
  assumes "wf_action a" "\<not> is_dynamic_resource (action_resource a)"
  shows "\<exists>e \<in> set CATALOG. \<exists>ve \<in> set (ce_verbs e).
    ce_resource e = action_resource a \<and> ve_verb ve = action_verb a"
proof -
  obtain e where e: "e \<in> set CATALOG" "ce_resource e = action_resource a"
    using static_resource_in_catalog[OF assms(2)] by blast
  have "action_verb a \<in> set (allowed_verbs (ce_resource e))"
    using assms(1) e(2) by (simp add: wf_action_def)
  then have "action_verb a \<in> set (map ve_verb (ce_verbs e))"
    unfolding catalogD(3)[OF e(1)] .
  then obtain ve where "ve \<in> set (ce_verbs e)" "ve_verb ve = action_verb a" by auto
  with e show ?thesis by blast
qed

section \<open>Properties\<close>

text \<open>The character loop of \<open>is_valid_segment\<close> accepts exactly the kebab-case words of the
  documented expression \<open>^[a-z][a-z0-9]*(-[a-z0-9]+)*$\<close>: a leading lower-case letter, and
  non-empty alphanumeric words between the hyphens.\<close>

theorem is_valid_segment_grammar:
  "is_valid_segment s \<longleftrightarrow>
     s \<noteq> [] \<and> is_ascii_lowercase (hd s) \<and>
     list_all (\<lambda>w. w \<noteq> [] \<and> list_all is_segment_char w) (split_on (CHR ''-'') s)"
proof (cases s)
  case Nil
  then show ?thesis by (simp add: is_valid_segment_def)
next
  case (Cons c cs)
  obtain w ws where sp: "split_on (CHR ''-'') cs = w # ws"
    by (cases "split_on (CHR ''-'') cs") auto
  have "is_ascii_lowercase c \<Longrightarrow> c \<noteq> CHR ''-'' \<and> is_segment_char c"
    by (auto simp: is_segment_char_def is_ascii_lowercase_def less_eq_char_def)
  then show ?thesis
    using Cons sp segment_loop_split[of False cs]
    by (auto simp: is_valid_segment_def list_all_iff)
qed

text \<open>Parsing and printing of actions are inverse: \<open>Action::from_str\<close> accepts a string
  exactly when it is the printed form, of at most 64 bytes, of an action whose resource is
  well formed and whose verb the validity matrix allows, and it returns that action.\<close>

theorem action_round_trip:
  "action_from_str s = Ok a \<longleftrightarrow>
     wf_action a \<and> length s \<le> MAX_PATTERN_LEN \<and> action_to_string a = s"
  by (auto simp: action_codec.parse_Ok_iff)

text \<open>Every row of the built-in catalog is consistent: its action string parses to the pair
  of its resource and verb, and looking the action up returns the row's selector support.\<close>

theorem catalog_consistent:
  "list_all (\<lambda>e. list_all (\<lambda>ve.
     action_from_str (ve_action_str ve) =
       Ok \<lparr>action_resource = ce_resource e, action_verb = ve_verb ve\<rparr> \<and>
     action_selector_support \<lparr>action_resource = ce_resource e, action_verb = ve_verb ve\<rparr> =
       ve_selector_support ve) (ce_verbs e)) CATALOG"
  using catalog_support_levels catalog_parses by (auto simp: list_all_iff)

end
