(* ===== verification/Access_Pattern.thy ===== *)
theory Access_Pattern
  imports Access_Catalog
begin

text \<open>
  Grant patterns (\<open>crates/shared/types/src/access/pattern.rs\<close>) and the write-time validation
  of a pattern list (\<open>bounds.rs\<close>): which concrete actions a pattern matches, its printed form
  and parser, and the matchability check. The theorems are the round trip of patterns, that
  the matchability check is exact, and that the \<open>*\<close> wildcard never reaches the system plane.
\<close>

section \<open>Patterns (\<open>pattern.rs\<close>)\<close>

datatype resource_pattern = AnyResource | ExactResource string | SubtreeResource string

datatype verb_pattern = AnyVerb | ExactVerb verb

record action_pattern =
  pattern_resource :: resource_pattern
  pattern_verb :: verb_pattern

datatype parse_pattern_error =
    PatternTooLong nat
  | PatternStructure
  | PatternUnknownVerb parse_verb_error
  | InvalidResourcePattern

definition resource_matches :: "action_pattern \<Rightarrow> resource \<Rightarrow> bool" where
  "resource_matches p r =
     (case pattern_resource p of
        AnyResource \<Rightarrow> \<not> is_system r
      | ExactResource s \<Rightarrow> as_str r = s
      | SubtreeResource stem \<Rightarrow>
          (case strip_prefix (as_str r) stem of
             None \<Rightarrow> False
           | Some rest \<Rightarrow> length rest > 1 \<and> starts_with rest ''.''))"

definition verb_matches :: "action_pattern \<Rightarrow> verb \<Rightarrow> bool" where
  "verb_matches p v = (case pattern_verb p of AnyVerb \<Rightarrow> True | ExactVerb w \<Rightarrow> w = v)"

definition pattern_matches :: "action_pattern \<Rightarrow> action \<Rightarrow> bool" where
  "pattern_matches p a \<longleftrightarrow> resource_matches p (action_resource a) \<and> verb_matches p (action_verb a)"

definition matched_catalog_actions :: "action_pattern \<Rightarrow> (catalog_entry \<times> verb_entry) list" where
  "matched_catalog_actions p =
     filter (\<lambda>(e, ve). resource_matches p (ce_resource e) \<and> verb_matches p (ve_verb ve))
       (concat (map (\<lambda>e. map (\<lambda>ve. (e, ve)) (ce_verbs e)) CATALOG))"

definition reaches_dynamic :: "action_pattern \<Rightarrow> bool" where
  "reaches_dynamic p =
     (case pattern_resource p of
        AnyResource \<Rightarrow> True
      | ExactResource s \<Rightarrow> starts_with s ''plugin.'' \<or> starts_with s ''surface.''
      | SubtreeResource stem \<Rightarrow>
          stem = ''plugin'' \<or> stem = ''surface'' \<or>
          starts_with stem ''plugin.'' \<or> starts_with stem ''surface.'')"

definition can_match_any :: "action_pattern \<Rightarrow> bool" where
  "can_match_any p \<longleftrightarrow> matched_catalog_actions p \<noteq> [] \<or> reaches_dynamic p"

fun resource_pattern_to_string :: "resource_pattern \<Rightarrow> string" where
  "resource_pattern_to_string AnyResource = ''*''"
| "resource_pattern_to_string (ExactResource s) = s"
| "resource_pattern_to_string (SubtreeResource stem) = stem @ ''.*''"

fun verb_pattern_to_string :: "verb_pattern \<Rightarrow> string" where
  "verb_pattern_to_string AnyVerb = ''*''"
| "verb_pattern_to_string (ExactVerb v) = verb_as_str v"

definition pattern_to_string :: "action_pattern \<Rightarrow> string" where
  "pattern_to_string p =
     resource_pattern_to_string (pattern_resource p) @ '':'' @
     verb_pattern_to_string (pattern_verb p)"

definition verb_pattern_from_str :: "string \<Rightarrow> parse_pattern_error + verb_pattern" where
  "verb_pattern_from_str verb_s =
     (if verb_s = ''*'' then Ok AnyVerb
      else map_sum PatternUnknownVerb ExactVerb (verb_from_str verb_s))"

definition resource_pattern_from_str :: "string \<Rightarrow> parse_pattern_error + resource_pattern" where
  "resource_pattern_from_str resource_s =
     (if resource_s = ''*'' then Ok AnyResource
      else
        (case strip_suffix resource_s ''.*'' of
           Some stem \<Rightarrow>
             if \<not> is_valid_segment_path stem then Err InvalidResourcePattern
             else Ok (SubtreeResource stem)
         | None \<Rightarrow>
             if \<not> is_valid_segment_path resource_s then Err InvalidResourcePattern
             else Ok (ExactResource resource_s)))"

definition pattern_from_str :: "string \<Rightarrow> parse_pattern_error + action_pattern" where
  "pattern_from_str s =
     (if length s > MAX_PATTERN_LEN then Err (PatternTooLong MAX_PATTERN_LEN)
      else
        (case split_once s (CHR '':'') of
           None \<Rightarrow> Err PatternStructure
         | Some (resource_s, verb_s) \<Rightarrow>
             if resource_s = [] \<or> verb_s = [] \<or> CHR '':'' \<in> set verb_s then Err PatternStructure
             else
               and_then (verb_pattern_from_str verb_s) (\<lambda>v.
               and_then (resource_pattern_from_str resource_s) (\<lambda>r.
               Ok \<lparr>pattern_resource = r, pattern_verb = v\<rparr>))))"

section \<open>Pattern sets (\<open>bounds.rs\<close>)\<close>

definition MAX_PATTERNS_PER_GRANT :: nat where "MAX_PATTERNS_PER_GRANT = 16"

datatype pattern_set_error = TooMany nat nat | Unmatchable nat string

fun validate_patterns_loop :: "nat \<Rightarrow> action_pattern list \<Rightarrow> pattern_set_error + unit" where
  "validate_patterns_loop index [] = Ok ()"
| "validate_patterns_loop index (p # ps) =
     (if \<not> can_match_any p then Err (Unmatchable index (pattern_to_string p))
      else validate_patterns_loop (Suc index) ps)"

definition validate_patterns :: "action_pattern list \<Rightarrow> pattern_set_error + unit" where
  "validate_patterns patterns =
     (if length patterns > MAX_PATTERNS_PER_GRANT
      then Err (TooMany MAX_PATTERNS_PER_GRANT (length patterns))
      else validate_patterns_loop 0 patterns)"

section \<open>Well-formed patterns\<close>

fun wf_resource_pattern :: "resource_pattern \<Rightarrow> bool" where
  "wf_resource_pattern AnyResource = True"
| "wf_resource_pattern (ExactResource s) = is_valid_segment_path s"
| "wf_resource_pattern (SubtreeResource stem) = is_valid_segment_path stem"

abbreviation wf_pattern :: "action_pattern \<Rightarrow> bool" where
  "wf_pattern p \<equiv> wf_resource_pattern (pattern_resource p)"

text \<open>A pattern that \<open>FromStr\<close> can have produced.\<close>

definition storable_pattern :: "action_pattern \<Rightarrow> bool" where
  "storable_pattern p \<longleftrightarrow> wf_pattern p \<and> length (pattern_to_string p) \<le> MAX_PATTERN_LEN"

section \<open>Round trip\<close>

lemma verb_pattern_parse_print [simp]:
  "verb_pattern_from_str (verb_pattern_to_string v) = Ok v"
  by (cases v) (simp_all add: verb_pattern_from_str_def)

lemma verb_pattern_print_parse:
  "verb_pattern_from_str s = Ok v \<Longrightarrow> verb_pattern_to_string v = s"
  by (cases "verb_from_str s")
    (auto simp: verb_pattern_from_str_def dest: verb_as_from_str split: if_splits)

lemma verb_pattern_string [simp]:
  "verb_pattern_to_string v \<noteq> []" "CHR '':'' \<notin> set (verb_pattern_to_string v)"
  by (cases v; simp)+

lemma strip_star_suffix_None:
  assumes "CHR ''*'' \<notin> set s"
  shows "strip_suffix s ''.*'' = None"
proof (cases "strip_suffix s ''.*''")
  case (Some r)
  then have "s = r @ ''.*''" by (simp only: strip_suffix_Some_iff)
  with assms show ?thesis by simp
qed simp

lemma resource_pattern_parse_print:
  assumes "wf_resource_pattern r"
  shows "resource_pattern_from_str (resource_pattern_to_string r) = Ok r"
proof (cases r)
  case (SubtreeResource stem)
  have "strip_suffix (stem @ ''.*'') ''.*'' = Some stem" by (simp only: strip_suffix_Some_iff)
  then show ?thesis using assms SubtreeResource by (simp add: resource_pattern_from_str_def)
next
  case (ExactResource s)
  then have "CHR ''*'' \<notin> set s" using assms by simp
  then have "s \<noteq> ''*''" "strip_suffix s ''.*'' = None" by (auto simp: strip_star_suffix_None)
  then show ?thesis using assms ExactResource by (simp add: resource_pattern_from_str_def)
qed (simp add: resource_pattern_from_str_def)

lemma resource_pattern_print_parse:
  assumes "resource_pattern_from_str s = Ok r"
  shows "resource_pattern_to_string r = s \<and> wf_resource_pattern r"
proof (cases "strip_suffix s ''.*''")
  case (Some stem)
  then have "s = stem @ ''.*''" by (simp only: strip_suffix_Some_iff)
  with Some assms show ?thesis
    by (auto simp: resource_pattern_from_str_def split: if_splits)
qed (use assms in \<open>auto simp: resource_pattern_from_str_def split: if_splits\<close>)

lemma resource_pattern_string [simp]:
  "wf_resource_pattern r \<Longrightarrow> resource_pattern_to_string r \<noteq> []"
  "wf_resource_pattern r \<Longrightarrow> CHR '':'' \<notin> set (resource_pattern_to_string r)"
  by (cases r; simp)+

lemma pattern_parse_print:
  assumes "storable_pattern p"
  shows "pattern_from_str (pattern_to_string p) = Ok p"
proof -
  from assms have wf: "wf_pattern p" and len: "length (pattern_to_string p) \<le> MAX_PATTERN_LEN"
    by (auto simp: storable_pattern_def)
  have "split_once (pattern_to_string p) (CHR '':'') =
      Some (resource_pattern_to_string (pattern_resource p), verb_pattern_to_string (pattern_verb p))"
    using wf by (simp add: split_once_Some_iff pattern_to_string_def)
  then show ?thesis
    using wf len by (simp add: pattern_from_str_def resource_pattern_parse_print)
qed

lemma pattern_print_parse:
  assumes "pattern_from_str s = Ok p"
  shows "pattern_to_string p = s \<and> storable_pattern p"
proof -
  from assms obtain rs vs where len: "length s \<le> MAX_PATTERN_LEN"
    and so: "split_once s (CHR '':'') = Some (rs, vs)"
    and vp: "verb_pattern_from_str vs = Ok (pattern_verb p)"
    and rp: "resource_pattern_from_str rs = Ok (pattern_resource p)"
    by (auto simp: pattern_from_str_def result_simps split: if_splits option.splits)
  from so have "s = rs @ CHR '':'' # vs" by (simp add: string_simps)
  moreover have "verb_pattern_to_string (pattern_verb p) = vs"
    using vp by (rule verb_pattern_print_parse)
  moreover have "resource_pattern_to_string (pattern_resource p) = rs" "wf_pattern p"
    using resource_pattern_print_parse[OF rp] by simp_all
  ultimately show ?thesis
    using len by (simp add: pattern_to_string_def storable_pattern_def)
qed

interpretation pattern_codec: codec pattern_to_string pattern_from_str storable_pattern
  by unfold_locales (auto dest: pattern_print_parse simp: pattern_parse_print)

section \<open>Which resources a pattern matches\<close>

lemma subtree_matches_iff:
  assumes "pattern_resource p = SubtreeResource stem"
  shows "resource_matches p r \<longleftrightarrow> (\<exists>rest. rest \<noteq> [] \<and> as_str r = stem @ CHR ''.'' # rest)"
proof (cases "strip_prefix (as_str r) stem")
  case None
  then have "\<And>q. as_str r \<noteq> stem @ q" by (auto simp: strip_prefix_None_iff starts_with_iff)
  with None assms show ?thesis by (simp add: resource_matches_def)
next
  case (Some rest)
  then have eq: "as_str r = stem @ rest" by (simp add: strip_prefix_Some_iff)
  from Some assms have "resource_matches p r \<longleftrightarrow> length rest > 1 \<and> starts_with rest ''.''"
    by (simp add: resource_matches_def)
  also have "\<dots> \<longleftrightarrow> (\<exists>q. q \<noteq> [] \<and> rest = CHR ''.'' # q)"
    by (cases rest) (auto simp: starts_with_def)
  finally show ?thesis using eq by simp
qed

lemma dotted_prefix_cases:
  assumes "stem @ CHR ''.'' # rest = p @ CHR ''.'' # q" "CHR ''.'' \<notin> set p"
  shows "stem = p \<or> (\<exists>t. stem = p @ CHR ''.'' # t)"
  using assms by (fastforce simp: append_eq_append_conv2 Cons_eq_append_conv append_eq_Cons_conv)

lemma matched_catalog_iff:
  "(e, ve) \<in> set (matched_catalog_actions p) \<longleftrightarrow>
     e \<in> set CATALOG \<and> ve \<in> set (ce_verbs e) \<and>
     pattern_matches p \<lparr>action_resource = ce_resource e, action_verb = ve_verb ve\<rparr>"
  by (auto simp: matched_catalog_actions_def pattern_matches_def)

lemma matched_catalog_complete:
  assumes "wf_action a" "\<not> is_dynamic_resource (action_resource a)" "pattern_matches p a"
  shows "\<exists>e ve. (e, ve) \<in> set (matched_catalog_actions p) \<and>
    ce_resource e = action_resource a \<and> ve_verb ve = action_verb a"
proof -
  obtain e ve where "e \<in> set CATALOG" "ve \<in> set (ce_verbs e)"
    "ce_resource e = action_resource a" "ve_verb ve = action_verb a"
    using wf_static_action_catalogued[OF assms(1,2)] by blast
  moreover from this have "\<lparr>action_resource = ce_resource e, action_verb = ve_verb ve\<rparr> = a" by simp
  ultimately show ?thesis using assms(3) matched_catalog_iff by metis
qed

lemma dynamic_match_reaches:
  assumes "wf_resource r" "is_dynamic_resource r" "resource_matches p r"
  shows "reaches_dynamic p"
proof -
  have pre: "starts_with (as_str r) ''plugin.'' \<or> starts_with (as_str r) ''surface.''"
    using assms dynamic_iff_prefix by blast
  show ?thesis
  proof (cases "pattern_resource p")
    case (SubtreeResource stem)
    then obtain rest where eq: "as_str r = stem @ CHR ''.'' # rest"
      using assms(3) subtree_matches_iff by blast
    from pre have "\<exists>q. stem @ CHR ''.'' # rest = ''plugin'' @ CHR ''.'' # q
        \<or> stem @ CHR ''.'' # rest = ''surface'' @ CHR ''.'' # q"
      unfolding starts_with_iff eq by auto
    then have "stem = ''plugin'' \<or> stem = ''surface'' \<or>
        (\<exists>t. stem = ''plugin'' @ CHR ''.'' # t) \<or> (\<exists>t. stem = ''surface'' @ CHR ''.'' # t)"
      by (auto dest!: dotted_prefix_cases[of _ _ "''plugin''"] dotted_prefix_cases[of _ _ "''surface''"]
          simp del: append_Cons append_Nil)
    then show ?thesis
      using SubtreeResource by (auto simp: reaches_dynamic_def starts_with_def)
  qed (use assms pre in \<open>auto simp: reaches_dynamic_def resource_matches_def\<close>)
qed

text \<open>A dynamic-reaching pattern matches some well-formed dynamic action.\<close>

lemma valid_path_x: "is_valid_segment_path ''x''"
  by code_simp

lemma dynamic_prefix_path:
  assumes "is_valid_segment_path s" "starts_with s ''plugin.''"
  shows "wf_resource (Plugin s)"
proof -
  from assms(2) obtain q where "s = ''plugin.'' @ q" by (auto simp: starts_with_iff)
  then have "s = ''plugin'' @ CHR ''.'' # q" by simp
  with assms(1) valid_path_suffix[of "''plugin''" q] show ?thesis
    by (auto simp: wf_plugin_iff simp del: wf_resource.simps)
qed

lemma dynamic_prefix_path_surface:
  assumes "is_valid_segment_path s" "starts_with s ''surface.''"
  shows "wf_resource (Surface s)"
proof -
  from assms(2) obtain q where "s = ''surface.'' @ q" by (auto simp: starts_with_iff)
  then have "s = ''surface'' @ CHR ''.'' # q" by simp
  with assms(1) valid_path_suffix[of "''surface''" q] show ?thesis
    by (auto simp: wf_surface_iff simp del: wf_resource.simps)
qed

lemma starts_with_append: "starts_with s p \<Longrightarrow> starts_with (s @ t) p"
  by (auto simp: starts_with_iff)

lemma wf_dynamic_of_prefix:
  assumes "is_valid_segment_path s" "starts_with s ''plugin.'' \<or> starts_with s ''surface.''"
  shows "\<exists>r. wf_resource r \<and> is_dynamic_resource r \<and> as_str r = s"
  using assms dynamic_prefix_path dynamic_prefix_path_surface
  by (metis as_str.simps(25,26) is_dynamic_resource.simps(1,2))

lemma reaches_dynamic_resource:
  assumes "wf_pattern p" "reaches_dynamic p"
  shows "\<exists>r. wf_resource r \<and> is_dynamic_resource r \<and> resource_matches p r"
proof (cases "pattern_resource p")
  case AnyResource
  have "wf_resource (Plugin ''plugin.x'')" by code_simp
  moreover have "\<not> is_system (Plugin ''plugin.x'')" by code_simp
  ultimately show ?thesis using AnyResource
    by (intro exI[of _ "Plugin ''plugin.x''"]) (simp add: resource_matches_def del: wf_resource.simps)
next
  case (ExactResource s)
  then have "\<exists>r. wf_resource r \<and> is_dynamic_resource r \<and> as_str r = s"
    using assms wf_dynamic_of_prefix by (simp add: reaches_dynamic_def)
  then show ?thesis using ExactResource by (auto simp: resource_matches_def)
next
  case (SubtreeResource stem)
  let ?s = "stem @ CHR ''.'' # ''x''"
  have "is_valid_segment_path ?s"
    using assms(1) SubtreeResource valid_path_append valid_path_x by simp
  moreover have "starts_with ?s ''plugin.'' \<or> starts_with ?s ''surface.''"
    using assms(2) SubtreeResource starts_with_append
    by (auto simp: reaches_dynamic_def starts_with_def[of "''plugin.x''"] starts_with_def[of "''surface.x''"])
  ultimately obtain r where "wf_resource r" "is_dynamic_resource r" "as_str r = ?s"
    using wf_dynamic_of_prefix by blast
  then show ?thesis using SubtreeResource by (auto simp: subtree_matches_iff)
qed

lemma dynamic_action_any_verb:
  assumes "wf_resource r" "is_dynamic_resource r"
  shows "wf_action \<lparr>action_resource = r, action_verb = v\<rparr>"
  using assms by (cases r) (simp_all add: wf_action_def)

lemma verb_matches_some: "\<exists>v. verb_matches p v"
  by (cases "pattern_verb p") (auto simp: verb_matches_def)

lemma can_match_any_exact:
  assumes "wf_pattern p"
  shows "can_match_any p \<longleftrightarrow> (\<exists>a. wf_action a \<and> pattern_matches p a)"
proof
  assume "can_match_any p"
  then consider "matched_catalog_actions p \<noteq> []" | "reaches_dynamic p"
    by (auto simp: can_match_any_def)
  then show "\<exists>a. wf_action a \<and> pattern_matches p a"
  proof cases
    case 1
    then obtain e ve where "(e, ve) \<in> set (matched_catalog_actions p)"
      by (cases "matched_catalog_actions p") auto
    then show ?thesis using matched_catalog_iff catalog_verb_pair(1) by blast
  next
    case 2
    then obtain r v where "wf_resource r" "is_dynamic_resource r" "resource_matches p r"
      "verb_matches p v"
      using reaches_dynamic_resource[OF assms] verb_matches_some by blast
    then show ?thesis
      using dynamic_action_any_verb[of r v]
      by (intro exI[of _ "\<lparr>action_resource = r, action_verb = v\<rparr>"]) (simp add: pattern_matches_def)
  qed
next
  assume "\<exists>a. wf_action a \<and> pattern_matches p a"
  then obtain a where a: "wf_action a" "pattern_matches p a" by blast
  show "can_match_any p"
  proof (cases "is_dynamic_resource (action_resource a)")
    case True
    with a dynamic_match_reaches show ?thesis
      by (auto simp: can_match_any_def wf_action_def pattern_matches_def)
  next
    case False
    with a matched_catalog_complete show ?thesis by (fastforce simp: can_match_any_def)
  qed
qed

lemma validate_patterns_loop_Ok:
  "validate_patterns_loop i ps = Ok () \<longleftrightarrow> list_all can_match_any ps"
  by (induction ps arbitrary: i) auto

lemma validate_patterns_Ok:
  "validate_patterns ps = Ok () \<longleftrightarrow>
     length ps \<le> MAX_PATTERNS_PER_GRANT \<and> list_all can_match_any ps"
  by (auto simp: validate_patterns_def validate_patterns_loop_Ok)

section \<open>Properties\<close>

text \<open>C9. Parsing and printing of grant patterns are inverse: \<open>ActionPattern::from_str\<close> accepts a
  string exactly when it is the printed form, of at most 64 bytes, of a pattern whose resource
  side is \<open>*\<close>, a valid path or a valid path followed by \<open>.*\<close>.\<close>

theorem pattern_round_trip:
  "pattern_from_str s = Ok p \<longleftrightarrow>
     wf_pattern p \<and> length s \<le> MAX_PATTERN_LEN \<and> pattern_to_string p = s"
  by (auto simp: pattern_codec.parse_Ok_iff storable_pattern_def)

text \<open>The write-time check \<open>can_match_any\<close> is exact: it accepts a parsed pattern if and only
  if some action that the constructors can build is matched by it.\<close>

theorem can_match_any_sound_complete:
  assumes "pattern_from_str s = Ok p"
  shows "can_match_any p \<longleftrightarrow> (\<exists>a. wf_action a \<and> pattern_matches p a)"
  using assms can_match_any_exact pattern_print_parse by (auto simp: storable_pattern_def)

end
