(* ===== verification/Access_Selector.thy ===== *)
theory Access_Selector
  imports Access_Pattern
begin

text \<open>
  Grant selectors (\<open>crates/shared/types/src/access/selector.rs\<close>) and the decision types
  (\<open>decision.rs\<close>): canonical form and bounds of a selector, the capability-level rule, which
  targets a selector covers, and the visibility verdict that unions selectors. The theorems are
  that canonicalisation changes no decision, that the capability-level rule covers every action
  a grant can reach, and that a visibility verdict shows exactly the covered targets.
\<close>

section \<open>Selectors (\<open>selector.rs\<close>)\<close>

datatype selector =
    SelAll
  | SelTags "uuid list"
  | SelHosts "uuid list"
  | SelSoftware "uuid list"
  | SelItems "uuid list"

fun admits :: "selector_support \<Rightarrow> selector \<Rightarrow> bool" where
  "admits level SelAll = True"
| "admits level (SelTags _) = (level = SupHost \<or> level = SupHostAndSoftware)"
| "admits level (SelHosts _) = (level = SupHost \<or> level = SupHostAndSoftware)"
| "admits level (SelSoftware _) = (level = SupHostAndSoftware)"
| "admits level (SelItems _) = (level = SupHostAndSoftware)"

datatype selector_axis = AxisTags | AxisHosts | AxisSoftware | AxisItems

fun axis_of :: "selector \<Rightarrow> selector_axis option" where
  "axis_of SelAll = None"
| "axis_of (SelTags _) = Some AxisTags"
| "axis_of (SelHosts _) = Some AxisHosts"
| "axis_of (SelSoftware _) = Some AxisSoftware"
| "axis_of (SelItems _) = Some AxisItems"

datatype selector_level_error =
    NotAdmitted string string selector_axis
  | DynamicPattern string

text \<open>The inner loop of \<open>validate_selector_level\<close> over the catalog actions of one pattern.\<close>

fun level_inner_loop ::
  "action_pattern \<Rightarrow> selector \<Rightarrow> selector_axis \<Rightarrow> (catalog_entry \<times> verb_entry) list \<Rightarrow>
   selector_level_error + unit" where
  "level_inner_loop p sel axis [] = Ok ()"
| "level_inner_loop p sel axis ((_, ve) # rest) =
     (if \<not> admits (ve_selector_support ve) sel
      then Err (NotAdmitted (pattern_to_string p) (ve_action_str ve) axis)
      else level_inner_loop p sel axis rest)"

fun level_outer_loop ::
  "selector \<Rightarrow> selector_axis \<Rightarrow> action_pattern list \<Rightarrow> selector_level_error + unit" where
  "level_outer_loop sel axis [] = Ok ()"
| "level_outer_loop sel axis (p # ps) =
     (if reaches_dynamic p then Err (DynamicPattern (pattern_to_string p))
      else and_then (level_inner_loop p sel axis (matched_catalog_actions p))
             (\<lambda>_. level_outer_loop sel axis ps))"

definition validate_selector_level ::
  "action_pattern list \<Rightarrow> selector \<Rightarrow> selector_level_error + unit" where
  "validate_selector_level patterns sel =
     (case axis_of sel of
        None \<Rightarrow> Ok ()
      | Some axis \<Rightarrow> level_outer_loop sel axis patterns)"

definition sort_dedup :: "uuid list \<Rightarrow> uuid list" where
  "sort_dedup ids = remdups_adj (sort ids)"

fun canonicalize :: "selector \<Rightarrow> selector" where
  "canonicalize SelAll = SelAll"
| "canonicalize (SelTags ids) = SelTags (sort_dedup ids)"
| "canonicalize (SelHosts ids) = SelHosts (sort_dedup ids)"
| "canonicalize (SelSoftware ids) = SelSoftware (sort_dedup ids)"
| "canonicalize (SelItems ids) = SelItems (sort_dedup ids)"

definition MAX_SELECTOR_TAG_IDS :: nat where "MAX_SELECTOR_TAG_IDS = 32"
definition MAX_SELECTOR_HOST_IDS :: nat where "MAX_SELECTOR_HOST_IDS = 100"
definition MAX_SELECTOR_SOFTWARE_IDS :: nat where "MAX_SELECTOR_SOFTWARE_IDS = 100"
definition MAX_SELECTOR_ITEM_IDS :: nat where "MAX_SELECTOR_ITEM_IDS = 100"

datatype selector_validation_error = TooManyIds string nat nat | EmptyIds string

definition validate_ids :: "nat \<Rightarrow> nat \<Rightarrow> string \<Rightarrow> selector_validation_error + unit" where
  "validate_ids n mx kind =
     (if n = 0 then Err (EmptyIds kind)
      else if n > mx then Err (TooManyIds kind mx n)
      else Ok ())"

fun selector_validate :: "selector \<Rightarrow> selector_validation_error + unit" where
  "selector_validate SelAll = Ok ()"
| "selector_validate (SelTags ids) = validate_ids (length ids) MAX_SELECTOR_TAG_IDS ''tag''"
| "selector_validate (SelHosts ids) = validate_ids (length ids) MAX_SELECTOR_HOST_IDS ''host''"
| "selector_validate (SelSoftware ids) =
     validate_ids (length ids) MAX_SELECTOR_SOFTWARE_IDS ''software item''"
| "selector_validate (SelItems ids) =
     validate_ids (length ids) MAX_SELECTOR_ITEM_IDS ''host software item''"

section \<open>Targets and verdicts (\<open>decision.rs\<close>)\<close>

datatype target_ref =
    Host uuid
  | HostSoftwareItem uuid uuid uuid \<comment> \<open>link row id, host id, software item id\<close>

fun target_host_id :: "target_ref \<Rightarrow> uuid" where
  "target_host_id (Host h) = h"
| "target_host_id (HostSoftwareItem _ h _) = h"

fun covers :: "selector \<Rightarrow> target_ref \<Rightarrow> uuid set \<Rightarrow> bool" where
  "covers SelAll target host_tags = True"
| "covers (SelTags ids) target host_tags = list_ex (\<lambda>i. i \<in> host_tags) ids"
| "covers (SelHosts ids) target host_tags = (target_host_id target \<in> set ids)"
| "covers (SelSoftware ids) target host_tags =
     (case target of Host _ \<Rightarrow> False | HostSoftwareItem _ _ sw \<Rightarrow> sw \<in> set ids)"
| "covers (SelItems ids) target host_tags =
     (case target of Host _ \<Rightarrow> False | HostSoftwareItem i _ _ \<Rightarrow> i \<in> set ids)"

datatype deny_reason = NoGrant | OutOfScope | OutsideSelector | UnknownAction

datatype decision = Allow | Deny deny_reason

datatype visibility =
    VisFull
  | VisFilter (vis_tags: "uuid set") (vis_hosts: "uuid set") (vis_software: "uuid set")
      (vis_items: "uuid set")
  | VisNone

text \<open>The loop of \<open>Visibility::from_selectors\<close>: its four sets and its flag \<open>any\<close>.\<close>

fun from_selectors_loop ::
  "uuid set \<Rightarrow> uuid set \<Rightarrow> uuid set \<Rightarrow> uuid set \<Rightarrow> bool \<Rightarrow> selector list \<Rightarrow> visibility" where
  "from_selectors_loop tags hosts sw items any [] =
     (if \<not> any then VisNone else VisFilter tags hosts sw items)"
| "from_selectors_loop tags hosts sw items any (sel # rest) =
     (case sel of
        SelAll \<Rightarrow> VisFull
      | SelTags ids \<Rightarrow> from_selectors_loop (tags \<union> set ids) hosts sw items True rest
      | SelHosts ids \<Rightarrow> from_selectors_loop tags (hosts \<union> set ids) sw items True rest
      | SelSoftware ids \<Rightarrow> from_selectors_loop tags hosts (sw \<union> set ids) items True rest
      | SelItems ids \<Rightarrow> from_selectors_loop tags hosts sw (items \<union> set ids) True rest)"

definition from_selectors :: "selector list \<Rightarrow> visibility" where
  "from_selectors sels = from_selectors_loop {} {} {} {} False sels"

section \<open>What a verdict shows\<close>

text \<open>The rows a verdict lets through, as the documentation of \<open>Visibility\<close> describes them:
  all, none, or those carrying an id of one of the four axes.\<close>

fun visible :: "visibility \<Rightarrow> target_ref \<Rightarrow> uuid set \<Rightarrow> bool" where
  "visible VisFull target host_tags = True"
| "visible VisNone target host_tags = False"
| "visible (VisFilter tags hosts sw items) target host_tags \<longleftrightarrow>
     tags \<inter> host_tags \<noteq> {} \<or> target_host_id target \<in> hosts \<or>
     (case target of
        Host _ \<Rightarrow> False
      | HostSoftwareItem i _ s \<Rightarrow> s \<in> sw \<or> i \<in> items)"

section \<open>Canonical form\<close>

lemma set_sort_dedup [simp]: "set (sort_dedup ids) = set ids"
  by (simp add: sort_dedup_def)

lemma sorted_sort_dedup [simp]: "sorted (sort_dedup ids)"
  by (simp add: sort_dedup_def sorted_remdups_adj)

lemma sorted_distinct_remdups_adj: "sorted xs \<Longrightarrow> distinct (remdups_adj xs)"
  by (induction xs rule: remdups_adj.induct) (auto simp: order_less_le)

lemma distinct_sort_dedup [simp]: "distinct (sort_dedup ids)"
  by (simp add: sort_dedup_def sorted_distinct_remdups_adj)

lemma sort_dedup_eq: "sort_dedup ids = sorted_list_of_set (set ids)"
  by (metis distinct_sort_dedup set_sort_dedup sorted_list_of_set.idem_if_sorted_distinct sorted_sort_dedup)

lemma sort_dedup_idem [simp]: "sort_dedup (sort_dedup ids) = sort_dedup ids"
  by (simp add: sort_dedup_eq)

lemma canonicalize_idem [simp]: "canonicalize (canonicalize sel) = canonicalize sel"
  by (cases sel) simp_all

lemma canonicalize_SelAll [simp]: "canonicalize sel = SelAll \<longleftrightarrow> sel = SelAll"
  by (cases sel) simp_all

lemma covers_canonicalize [simp]: "covers (canonicalize sel) target tags = covers sel target tags"
  by (cases sel; cases target) (auto simp: list_ex_iff)

lemma axis_canonicalize [simp]: "axis_of (canonicalize sel) = axis_of sel"
  by (cases sel) simp_all

lemma admits_canonicalize [simp]: "admits level (canonicalize sel) = admits level sel"
  by (cases sel) simp_all

section \<open>Capability levels\<close>

lemma level_inner_loop_Ok:
  "level_inner_loop p sel axis xs = Ok () \<longleftrightarrow> (\<forall>(e, ve) \<in> set xs. admits (ve_selector_support ve) sel)"
  by (induction p sel axis xs rule: level_inner_loop.induct) auto

lemma level_outer_loop_Ok:
  "level_outer_loop sel axis ps = Ok () \<longleftrightarrow>
     (\<forall>p \<in> set ps. \<not> reaches_dynamic p \<and>
        (\<forall>(e, ve) \<in> set (matched_catalog_actions p). admits (ve_selector_support ve) sel))"
  by (induction ps) (auto simp: result_simps level_inner_loop_Ok)

lemma axis_of_None [simp]: "axis_of sel = None \<longleftrightarrow> sel = SelAll"
  by (cases sel) simp_all

lemma catalog_support:
  assumes "e \<in> set CATALOG" "ve \<in> set (ce_verbs e)"
  shows "action_selector_support \<lparr>action_resource = ce_resource e, action_verb = ve_verb ve\<rparr> =
    ve_selector_support ve"
  using assms catalog_support_levels by (auto simp: list_all_iff)

lemma selector_level_covers_actions:
  assumes "validate_selector_level ps sel = Ok ()" "p \<in> set ps" "pattern_matches p a" "wf_action a"
  shows "admits (action_selector_support a) sel"
proof (cases "axis_of sel")
  case (Some axis)
  with assms(1) have ok: "level_outer_loop sel axis ps = Ok ()"
    by (simp add: validate_selector_level_def)
  with assms(2) have "\<not> reaches_dynamic p" by (simp add: level_outer_loop_Ok)
  then have "\<not> is_dynamic_resource (action_resource a)"
    using assms(3,4) dynamic_match_reaches by (auto simp: pattern_matches_def wf_action_def)
  then obtain e ve where m: "(e, ve) \<in> set (matched_catalog_actions p)"
    "ce_resource e = action_resource a" "ve_verb ve = action_verb a"
    using matched_catalog_complete assms(3,4) by blast
  then have "action_selector_support \<lparr>action_resource = ce_resource e, action_verb = ve_verb ve\<rparr> =
      ve_selector_support ve"
    by (intro catalog_support) (auto simp: matched_catalog_iff)
  then have "action_selector_support a = ve_selector_support ve" using m by (cases a) simp
  moreover have "admits (ve_selector_support ve) sel"
    using ok assms(2) m(1) by (auto simp: level_outer_loop_Ok)
  ultimately show ?thesis by simp
qed simp

lemma selector_level_complete:
  assumes "sel \<noteq> SelAll" "\<And>p a. p \<in> set ps \<Longrightarrow> wf_action a \<Longrightarrow> pattern_matches p a \<Longrightarrow>
    admits (action_selector_support a) sel"
    and "\<And>p. p \<in> set ps \<Longrightarrow> wf_pattern p"
  shows "validate_selector_level ps sel = Ok ()"
proof -
  have dyn: "\<not> reaches_dynamic p" if pin: "p \<in> set ps" for p
  proof
    assume "reaches_dynamic p"
    then obtain r v where r: "wf_resource r" "is_dynamic_resource r" "resource_matches p r"
      "verb_matches p v"
      using reaches_dynamic_resource assms(3)[OF pin] verb_matches_some by blast
    let ?a = "\<lparr>action_resource = r, action_verb = v\<rparr>"
    have "admits (action_selector_support ?a) sel"
      using r dynamic_action_any_verb[of r v] by (intro assms(2)[OF pin]) (simp_all add: pattern_matches_def)
    moreover have "find (\<lambda>e. ce_resource e = r) CATALOG = None"
      using r(2) catalogD(2) by (auto simp: find_None_iff)
    then have "action_selector_support ?a = SupNone"
      by (simp add: action_selector_support_def action_verb_entry_def)
    ultimately show False using assms(1) by (cases sel) simp_all
  qed
  have "admits (ve_selector_support ve) sel"
    if "p \<in> set ps" "(e, ve) \<in> set (matched_catalog_actions p)" for p e ve
    using that assms(2)[OF that(1)] catalog_verb_pair(1) catalog_support
    by (metis matched_catalog_iff)
  then show ?thesis
    using dyn by (auto simp: validate_selector_level_def level_outer_loop_Ok split: option.splits)
qed

section \<open>Visibility\<close>

lemma visible_loop:
  "visible (from_selectors_loop tags hosts sw items any sels) target ht \<longleftrightarrow>
     (any \<and> visible (VisFilter tags hosts sw items) target ht) \<or>
     (\<exists>sel \<in> set sels. covers sel target ht)"
  if "any \<or> (tags = {} \<and> hosts = {} \<and> sw = {} \<and> items = {})"
  using that
proof (induction tags hosts sw items any sels rule: from_selectors_loop.induct)
  case (2 tags hosts sw items any sel rest)
  show ?case
  proof (cases sel)
    case (SelTags ids)
    with "2.IH"(1)[OF SelTags] "2.prems" show ?thesis
      by (cases target; cases any) (auto simp: list_ex_iff)
  next
    case (SelHosts ids)
    with "2.IH"(2)[OF SelHosts] "2.prems" show ?thesis by (cases target; cases any) auto
  next
    case (SelSoftware ids)
    with "2.IH"(3)[OF SelSoftware] "2.prems" show ?thesis by (cases target; cases any) auto
  next
    case (SelItems ids)
    with "2.IH"(4)[OF SelItems] "2.prems" show ?thesis by (cases target; cases any) auto
  qed simp
qed (cases target; auto)

lemma visible_from_selectors:
  "visible (from_selectors sels) target ht \<longleftrightarrow> (\<exists>sel \<in> set sels. covers sel target ht)"
  by (simp add: from_selectors_def visible_loop)

section \<open>Properties\<close>

text \<open>\<open>Selector::canonicalize\<close> produces the sorted list of the distinct ids, changes no
  decision-time coverage, and applying it again changes nothing.\<close>

theorem canonicalize_correct:
  "canonicalize (canonicalize sel) = canonicalize sel \<and>
   covers (canonicalize sel) target tags = covers sel target tags \<and>
   canonicalize (SelTags ids) = SelTags (sorted_list_of_set (set ids))"
  by (simp add: sort_dedup_eq)

text \<open>The capability-level rule (rule 3 of the write path) is sound: when it accepts a
  grant's patterns and selector, every well-formed action any of the patterns matches, built-in
  or dynamic, admits the selector.\<close>

theorem validate_selector_level_sound:
  assumes "validate_selector_level ps sel = Ok ()"
    and "p \<in> set ps" "pattern_matches p a" "wf_action a"
  shows "admits (action_selector_support a) sel"
  using assms by (rule selector_level_covers_actions)

text \<open>A visibility verdict shows a target exactly when one of the selectors it was built from
  covers the target; in particular no selector gives no visibility, and one \<open>All\<close> gives
  full visibility.\<close>

theorem visibility_exact:
  "visible (from_selectors sels) target host_tags = list_ex (\<lambda>sel. covers sel target host_tags) sels"
  by (simp add: visible_from_selectors list_ex_iff)

end
