(* ===== verification/Access_Grants.thy ===== *)
theory Access_Grants
  imports Access_Selector
begin

text \<open>
  The grant store (\<open>crates/shared/db/src/access_grants.rs\<close>): the write-path validation chain,
  insert, update, delete, the single and batch loads and the management listing, over an
  explicit database state. The JSON columns are what \<open>serde_json\<close> makes of them: an array of
  strings, a selector, or anything else. The outcome of each SQL statement (\<open>sea_orm\<close>) is a
  parameter \<open>flt\<close>: \<open>Some e\<close> is a database error. The checks of a write and its statement may be
  separated by other commits, so a write takes the state it checked and the state it writes to. The
  theorems are that every write keeps the rules of the grant model, by how much the cap of a subject
  can be exceeded, that a written grant reads back, and that a corrupt row only removes authority.
\<close>

section \<open>Tables\<close>

type_synonym dberr = string

datatype stmt =
    FindRole | FindReferents | CountGrants | InsertRow | FindGrant | UpdateRow | DeleteRow
  | SelectGrants | SelectUserRoles | SelectHostTags | SelectUsers | LockSentinel
  | FindUser | UpdateUser | SelectRoles | DeleteRoleRow | DeleteUserRoles | InsertUserRole

type_synonym faults = "stmt \<Rightarrow> dberr option"

datatype grant_subject = SubjUser uuid | SubjRole uuid

datatype grant_subject_type = TypeUser | TypeRole

datatype patterns_column = JsonStrings "string list" | JsonOtherPatterns

datatype selector_column = JsonSelector selector | JsonOtherSelector

record grant_row =
  row_id :: uuid
  row_tenant_id :: "uuid option"
  row_subject_type :: grant_subject_type
  row_subject_id :: uuid
  row_patterns :: patterns_column
  row_selector :: selector_column
  row_description :: "string option"
  row_created_at :: instant
  row_updated_at :: instant
  row_created_by :: "uuid option"

text \<open>A host tag, host or software item: id, tenant, whether it is deactivated.\<close>

record tenant_row =
  tr_id :: uuid
  tr_tenant_id :: uuid
  tr_deactivated :: bool

record host_software_item_row =
  hsi_id :: uuid
  hsi_host_id :: uuid
  hsi_deactivated :: bool

record role_row =
  role_id :: uuid
  role_tenant_id :: "uuid option"
  role_is_built_in :: bool

record user_role_row =
  ur_tenant_id :: uuid
  ur_user_id :: uuid
  ur_role_id :: uuid

record user_row =
  user_id :: uuid
  user_is_active :: bool
  user_deactivated_at :: "instant option"

record host_tag_assignment_row =
  hta_host_id :: uuid
  hta_tag_id :: uuid

record database =
  access_grants :: "grant_row list"
  host_tags :: "tenant_row list"
  hosts :: "tenant_row list"
  software_items :: "tenant_row list"
  host_software_items :: "host_software_item_row list"
  roles :: "role_row list"
  user_roles :: "user_role_row list"
  users :: "user_row list"
  tenants :: "uuid list"
  host_tag_assignments :: "host_tag_assignment_row list"

section \<open>Inputs, outputs, errors\<close>

record new_grant =
  ng_subject :: grant_subject
  ng_tenant_id :: "uuid option"
  ng_patterns :: "action_pattern list"
  ng_selector :: selector
  ng_description :: "string option"
  ng_created_by :: "uuid option"

record grant_update =
  gu_patterns :: "action_pattern list"
  gu_selector :: selector
  gu_description :: "string option"

record resolved_grant =
  g_id :: uuid
  g_tenant_id :: "uuid option"
  g_subject :: grant_subject
  g_patterns :: "action_pattern list"
  g_selector :: selector
  g_description :: "string option"

record grant_load =
  load_grants :: "resolved_grant list"
  corrupt_skipped :: nat

datatype access_grant_error =
    Patterns pattern_set_error
  | PlaneMixing
  | TenantEncoding string
  | SelectorPhaseGate
  | SelectorInvalid selector_validation_error
  | SelectorNotSupported selector_level_error
  | SelectorReferentsMissing selector_axis "uuid list"
  | SelectorOnGlobalRole
  | DescriptionTooLong nat
  | TooManyGrants nat nat
  | UnclassifiablePattern
  | SelectorEncode string
  | GrantNotFound
  | SentinelMissing
  | Corrupt string
  | Db dberr

definition exec_stmt :: "faults \<Rightarrow> stmt \<Rightarrow> 'a \<Rightarrow> access_grant_error + 'a" where
  "exec_stmt flt st v = (case flt st of Some e \<Rightarrow> Err (Db e) | None \<Rightarrow> Ok v)"

section \<open>Planes\<close>

text \<open>The source's wildcard arms for future variants of \<open>ResourcePattern\<close> and \<open>Selector\<close> (both
  \<open>non_exhaustive\<close>) have no counterpart: the datatypes have exactly the variants of the code, so
  \<open>UnclassifiablePattern\<close> is never produced, and neither is \<open>SelectorEncode\<close>, whose encoder
  cannot fail on a derived enum of id lists.\<close>

datatype plane = SystemPlane | TenantPlane

definition pattern_plane :: "action_pattern \<Rightarrow> plane" where
  "pattern_plane p =
     (case pattern_resource p of
        AnyResource \<Rightarrow> TenantPlane
      | ExactResource s \<Rightarrow> if starts_with s ''system.'' then SystemPlane else TenantPlane
      | SubtreeResource stem \<Rightarrow>
          if stem = ''system'' \<or> starts_with stem ''system.'' then SystemPlane else TenantPlane)"

fun grant_plane_loop :: "plane option \<Rightarrow> action_pattern list \<Rightarrow> access_grant_error + plane" where
  "grant_plane_loop pl [] = Ok (case pl of None \<Rightarrow> TenantPlane | Some x \<Rightarrow> x)"
| "grant_plane_loop pl (p # ps) =
     (case pl of
        None \<Rightarrow> grant_plane_loop (Some (pattern_plane p)) ps
      | Some prev \<Rightarrow>
          if prev \<noteq> pattern_plane p then Err PlaneMixing else grant_plane_loop (Some prev) ps)"

definition grant_plane :: "action_pattern list \<Rightarrow> access_grant_error + plane" where
  "grant_plane ps = grant_plane_loop None ps"

definition patterns_reach_system_plane :: "action_pattern list \<Rightarrow> access_grant_error + bool" where
  "patterns_reach_system_plane ps = and_then (grant_plane ps) (\<lambda>pl. Ok (pl = SystemPlane))"

section \<open>Write-path validation\<close>

definition referent_tenant ::
  "faults \<Rightarrow> database \<Rightarrow> grant_subject \<Rightarrow> uuid option \<Rightarrow> access_grant_error + uuid" where
  "referent_tenant flt db subject tenant =
     (case subject of
        SubjUser _ \<Rightarrow>
          ok_or (TenantEncoding ''non-All selector on a tenant-less user grant'') tenant
      | SubjRole rid \<Rightarrow>
          and_then (exec_stmt flt FindRole (find (\<lambda>r. role_id r = rid) (roles db))) (\<lambda>found.
          and_then (ok_or (TenantEncoding ''role-subject grant references an unknown role'') found) (\<lambda>r.
          ok_or SelectorOnGlobalRole (role_tenant_id r))))"

definition live_ids :: "tenant_row list \<Rightarrow> uuid \<Rightarrow> uuid list \<Rightarrow> uuid list" where
  "live_ids rows tenant ids =
     map tr_id (filter (\<lambda>r. tr_tenant_id r = tenant \<and> tr_id r \<in> set ids \<and> \<not> tr_deactivated r) rows)"

definition found_referents :: "database \<Rightarrow> uuid \<Rightarrow> selector_axis \<Rightarrow> uuid list \<Rightarrow> uuid list" where
  "found_referents db tenant axis ids =
     (case axis of
        AxisTags \<Rightarrow> live_ids (host_tags db) tenant ids
      | AxisHosts \<Rightarrow> live_ids (hosts db) tenant ids
      | AxisSoftware \<Rightarrow> live_ids (software_items db) tenant ids
      | AxisItems \<Rightarrow>
          concat (map (\<lambda>i. map (\<lambda>_. hsi_id i)
              (filter (\<lambda>h. tr_id h = hsi_host_id i \<and> tr_tenant_id h = tenant \<and> \<not> tr_deactivated h)
                (hosts db)))
            (filter (\<lambda>i. hsi_id i \<in> set ids \<and> \<not> hsi_deactivated i) (host_software_items db))))"

definition check_referents ::
  "faults \<Rightarrow> database \<Rightarrow> uuid \<Rightarrow> selector_axis \<Rightarrow> uuid list \<Rightarrow> access_grant_error + unit" where
  "check_referents flt db tenant axis ids =
     and_then (exec_stmt flt FindReferents (found_referents db tenant axis ids)) (\<lambda>found.
       if length found \<noteq> length ids
       then Err (SelectorReferentsMissing axis (filter (\<lambda>i. i \<notin> set found) ids))
       else Ok ())"

fun validate_selector_referents ::
  "faults \<Rightarrow> database \<Rightarrow> uuid \<Rightarrow> selector \<Rightarrow> access_grant_error + unit" where
  "validate_selector_referents flt db tenant SelAll = Ok ()"
| "validate_selector_referents flt db tenant (SelTags ids) = check_referents flt db tenant AxisTags ids"
| "validate_selector_referents flt db tenant (SelHosts ids) = check_referents flt db tenant AxisHosts ids"
| "validate_selector_referents flt db tenant (SelSoftware ids) =
     check_referents flt db tenant AxisSoftware ids"
| "validate_selector_referents flt db tenant (SelItems ids) = check_referents flt db tenant AxisItems ids"

definition MAX_GRANT_DESCRIPTION_LEN :: nat where "MAX_GRANT_DESCRIPTION_LEN = 500"
definition MAX_GRANTS_PER_SUBJECT :: nat where "MAX_GRANTS_PER_SUBJECT = 200"

text \<open>Rule 2: one tenant encoding per subject type.\<close>

fun tenant_encoding ::
  "plane \<Rightarrow> grant_subject \<Rightarrow> uuid option \<Rightarrow> access_grant_error + unit" where
  "tenant_encoding SystemPlane _ (Some _) =
     Err (TenantEncoding ''system-plane grant requires tenant_id NULL'')"
| "tenant_encoding _ (SubjRole _) (Some _) =
     Err (TenantEncoding ''role-subject grant requires tenant_id NULL'')"
| "tenant_encoding TenantPlane (SubjUser _) None =
     Err (TenantEncoding ''user-subject tenant-plane grant requires a tenant_id'')"
| "tenant_encoding _ _ _ = Ok ()"

definition validate_write ::
  "faults \<Rightarrow> database \<Rightarrow> grant_subject \<Rightarrow> uuid option \<Rightarrow> action_pattern list \<Rightarrow> selector \<Rightarrow>
   string option \<Rightarrow> access_grant_error + unit" where
  "validate_write flt db subject tenant patterns sel description =
     and_then (map_err Patterns (validate_patterns patterns)) (\<lambda>_.
     and_then (grant_plane patterns) (\<lambda>pl.
     and_then (tenant_encoding pl subject tenant) (\<lambda>_.
     and_then (map_err SelectorInvalid (selector_validate sel)) (\<lambda>_.
     and_then (map_err SelectorNotSupported (validate_selector_level patterns sel)) (\<lambda>_.
     and_then
       (if sel \<noteq> SelAll
        then and_then (referent_tenant flt db subject tenant) (\<lambda>t.
               validate_selector_referents flt db t sel)
        else Ok ()) (\<lambda>_.
     if sel \<noteq> SelAll then Err SelectorPhaseGate
     else
       (case description of
          Some d \<Rightarrow>
            if char_count d > MAX_GRANT_DESCRIPTION_LEN
            then Err (DescriptionTooLong MAX_GRANT_DESCRIPTION_LEN) else Ok ()
        | None \<Rightarrow> Ok ())))))))"

section \<open>Rows\<close>

fun split_subject :: "grant_subject \<Rightarrow> grant_subject_type \<times> uuid" where
  "split_subject (SubjUser i) = (TypeUser, i)"
| "split_subject (SubjRole i) = (TypeRole, i)"

definition subject_from_row :: "grant_row \<Rightarrow> grant_subject" where
  "subject_from_row row =
     (case row_subject_type row of
        TypeUser \<Rightarrow> SubjUser (row_subject_id row)
      | TypeRole \<Rightarrow> SubjRole (row_subject_id row))"

definition patterns_json :: "action_pattern list \<Rightarrow> patterns_column" where
  "patterns_json ps = JsonStrings (map pattern_to_string ps)"

definition selector_json :: "selector \<Rightarrow> selector_column" where
  "selector_json sel = JsonSelector sel"

text \<open>\<open>serde_json::from_value::<Vec<ActionPattern>>\<close>: the first string that does not parse
  fails the whole column.\<close>

fun parse_all :: "string list \<Rightarrow> action_pattern list option" where
  "parse_all [] = Some []"
| "parse_all (s # ss) =
     (case pattern_from_str s of
        Inl _ \<Rightarrow> None
      | Inr p \<Rightarrow> map_option (\<lambda>ps. p # ps) (parse_all ss))"

fun patterns_from_column :: "patterns_column \<Rightarrow> action_pattern list option" where
  "patterns_from_column (JsonStrings ss) = parse_all ss"
| "patterns_from_column JsonOtherPatterns = None"

fun selector_from_column :: "selector_column \<Rightarrow> selector option" where
  "selector_from_column (JsonSelector sel) = Some sel"
| "selector_from_column JsonOtherSelector = None"

definition resolve_row :: "grant_row \<Rightarrow> string + resolved_grant" where
  "resolve_row row =
     (case patterns_from_column (row_patterns row) of
        None \<Rightarrow> Err ''unparseable patterns JSON''
      | Some ps \<Rightarrow>
          (case selector_from_column (row_selector row) of
             None \<Rightarrow> Err ''unparseable selector JSON''
           | Some sel \<Rightarrow>
               Ok \<lparr>g_id = row_id row, g_tenant_id = row_tenant_id row,
                   g_subject = subject_from_row row, g_patterns = ps, g_selector = sel,
                   g_description = row_description row\<rparr>))"

text \<open>The loud-skip loop shared by the batch reads.\<close>

fun resolve_rows_loop :: "resolved_grant list \<Rightarrow> nat \<Rightarrow> grant_row list \<Rightarrow> grant_load" where
  "resolve_rows_loop grants skipped [] = \<lparr>load_grants = grants, corrupt_skipped = skipped\<rparr>"
| "resolve_rows_loop grants skipped (row # rows) =
     (case resolve_row row of
        Inr g \<Rightarrow> resolve_rows_loop (grants @ [g]) skipped rows
      | Inl _ \<Rightarrow> resolve_rows_loop grants (Suc skipped) rows)"

definition resolve_rows :: "grant_row list \<Rightarrow> grant_load" where
  "resolve_rows rows = resolve_rows_loop [] 0 rows"

section \<open>Operations\<close>

definition subject_count :: "database \<Rightarrow> grant_subject \<Rightarrow> nat" where
  "subject_count db subject =
     length (filter (\<lambda>r. (row_subject_type r, row_subject_id r) = split_subject subject)
       (access_grants db))"

definition new_grant_row :: "uuid \<Rightarrow> instant \<Rightarrow> selector \<Rightarrow> new_grant \<Rightarrow> grant_row" where
  "new_grant_row new_id now sel grant =
     \<lparr>row_id = new_id, row_tenant_id = ng_tenant_id grant,
      row_subject_type = fst (split_subject (ng_subject grant)),
      row_subject_id = snd (split_subject (ng_subject grant)),
      row_patterns = patterns_json (ng_patterns grant), row_selector = selector_json sel,
      row_description = ng_description grant, row_created_at = now, row_updated_at = now,
      row_created_by = ng_created_by grant\<rparr>"

text \<open>\<open>new_id\<close> and \<open>now\<close> are the values \<open>Uuid::now_v7()\<close> and \<open>OffsetDateTime::now_utc()\<close> return. The
  checks and the count read the database \<open>seen\<close>; other writes may commit before the row goes into \<open>db\<close>.
  The primary key refuses a row whose id is taken.\<close>

definition insert_grant ::
  "faults \<Rightarrow> database \<Rightarrow> database \<Rightarrow> uuid \<Rightarrow> instant \<Rightarrow> new_grant \<Rightarrow> access_grant_error + (database \<times> uuid)" where
  "insert_grant flt seen db new_id now grant =
     (let sel = canonicalize (ng_selector grant) in
      and_then (validate_write flt seen (ng_subject grant) (ng_tenant_id grant) (ng_patterns grant) sel
                 (ng_description grant)) (\<lambda>_.
      and_then (exec_stmt flt CountGrants (subject_count seen (ng_subject grant))) (\<lambda>existing.
      if existing \<ge> MAX_GRANTS_PER_SUBJECT
      then Err (TooManyGrants MAX_GRANTS_PER_SUBJECT existing)
      else if new_id \<in> set (map row_id (access_grants db))
      then Err (Db ''primary key violation'')
      else exec_stmt flt InsertRow
             (db\<lparr>access_grants := access_grants db @ [new_grant_row new_id now sel grant]\<rparr>, new_id))))"

definition find_grant_row :: "faults \<Rightarrow> database \<Rightarrow> uuid \<Rightarrow> access_grant_error + grant_row" where
  "find_grant_row flt db i =
     and_then (exec_stmt flt FindGrant (find (\<lambda>r. row_id r = i) (access_grants db))) (\<lambda>found.
       ok_or GrantNotFound found)"

text \<open>The row is read and checked in \<open>seen\<close> and written in \<open>db\<close>, which may have lost it.\<close>

definition update_grant ::
  "faults \<Rightarrow> database \<Rightarrow> database \<Rightarrow> uuid \<Rightarrow> instant \<Rightarrow> grant_update \<Rightarrow> access_grant_error + database" where
  "update_grant flt seen db i now upd =
     (let sel = canonicalize (gu_selector upd) in
      and_then (find_grant_row flt seen i) (\<lambda>row.
      and_then (validate_write flt seen (subject_from_row row) (row_tenant_id row) (gu_patterns upd) sel
                 (gu_description upd)) (\<lambda>_.
      if i \<notin> set (map row_id (access_grants db))
      then Err (Db ''record not updated'')
      else exec_stmt flt UpdateRow
        (db\<lparr>access_grants :=
           map (\<lambda>r. if row_id r = i
                 then r\<lparr>row_patterns := patterns_json (gu_patterns upd),
                        row_selector := selector_json sel,
                        row_description := gu_description upd, row_updated_at := now\<rparr>
                 else r) (access_grants db)\<rparr>))))"

definition delete_grant :: "faults \<Rightarrow> database \<Rightarrow> uuid \<Rightarrow> access_grant_error + database" where
  "delete_grant flt db i =
     and_then (exec_stmt flt DeleteRow
       (length (filter (\<lambda>r. row_id r = i) (access_grants db)),
        db\<lparr>access_grants := filter (\<lambda>r. row_id r \<noteq> i) (access_grants db)\<rparr>)) (\<lambda>(affected, db').
     if affected = 0 then Err GrantNotFound else Ok db')"

definition load_grant :: "faults \<Rightarrow> database \<Rightarrow> uuid \<Rightarrow> access_grant_error + resolved_grant" where
  "load_grant flt db i = and_then (find_grant_row flt db i) (\<lambda>row. map_err Corrupt (resolve_row row))"

definition principal_row :: "uuid \<Rightarrow> uuid \<Rightarrow> uuid list \<Rightarrow> grant_row \<Rightarrow> bool" where
  "principal_row tenant uid role_ids r \<longleftrightarrow>
     (row_subject_type r = TypeUser \<and> row_subject_id r = uid \<and>
        (row_tenant_id r = Some tenant \<or> row_tenant_id r = None)) \<or>
     (row_subject_type r = TypeRole \<and> row_subject_id r \<in> set role_ids)"

definition load_grants_for_principal ::
  "faults \<Rightarrow> database \<Rightarrow> uuid \<Rightarrow> uuid \<Rightarrow> uuid list \<Rightarrow> access_grant_error + grant_load" where
  "load_grants_for_principal flt db tenant uid role_ids =
     and_then (exec_stmt flt SelectGrants
       (filter (principal_row tenant uid role_ids) (access_grants db))) (\<lambda>rows.
     Ok (resolve_rows rows))"

definition list_grants ::
  "faults \<Rightarrow> database \<Rightarrow> uuid \<Rightarrow> grant_subject option \<Rightarrow> access_grant_error + grant_load" where
  "list_grants flt db tenant subject =
     and_then (exec_stmt flt SelectGrants
       (sort_key row_created_at
         (filter (\<lambda>r. case subject of
              None \<Rightarrow> True
            | Some s \<Rightarrow> (row_subject_type r, row_subject_id r) = split_subject s)
           (filter (\<lambda>r. row_tenant_id r = Some tenant \<or> row_tenant_id r = None)
             (access_grants db))))) (\<lambda>rows.
     Ok (resolve_rows rows))"

definition delete_grants_for_role ::
  "faults \<Rightarrow> database \<Rightarrow> uuid \<Rightarrow> access_grant_error + (database \<times> nat)" where
  "delete_grants_for_role flt db rid =
     exec_stmt flt DeleteRow
       (db\<lparr>access_grants :=
          filter (\<lambda>r. \<not> (row_subject_type r = TypeRole \<and> row_subject_id r = rid)) (access_grants db)\<rparr>,
        length (filter (\<lambda>r. row_subject_type r = TypeRole \<and> row_subject_id r = rid) (access_grants db)))"

section \<open>Rules of the grant model\<close>

text \<open>What the module documentation demands of a stored grant, and of the whole table.\<close>

definition grant_ok :: "resolved_grant \<Rightarrow> bool" where
  "grant_ok g \<longleftrightarrow>
     length (g_patterns g) \<le> MAX_PATTERNS_PER_GRANT \<and> list_all can_match_any (g_patterns g) \<and>
     (case grant_plane (g_patterns g) of
        Inl _ \<Rightarrow> False
      | Inr pl \<Rightarrow> tenant_encoding pl (g_subject g) (g_tenant_id g) = Ok ()) \<and>
     g_selector g = SelAll \<and>
     (case g_description g of None \<Rightarrow> True | Some d \<Rightarrow> char_count d \<le> MAX_GRANT_DESCRIPTION_LEN)"

definition row_grant :: "grant_row \<Rightarrow> resolved_grant option" where
  "row_grant row = (case resolve_row row of Inl _ \<Rightarrow> None | Inr g \<Rightarrow> Some g)"

definition row_ok :: "grant_row \<Rightarrow> bool" where
  "row_ok row = (case row_grant row of None \<Rightarrow> True | Some g \<Rightarrow> grant_ok g)"

definition grants_inv :: "database \<Rightarrow> bool" where
  "grants_inv db \<longleftrightarrow> distinct (map row_id (access_grants db)) \<and> list_all row_ok (access_grants db)"

text \<open>One committed write of the store, on the list of its states with the latest first. An insert or an
  update may have read an older state than the one it writes to; at most \<open>n\<close> writes commit while an
  insert is between its count and its row. A new id was never used before. Patterns reach the store
  from the parser or from the catalog, so they are storable.\<close>

inductive grant_step :: "nat \<Rightarrow> database list \<Rightarrow> database list \<Rightarrow> bool" for n where
  step_insert: "list_all storable_pattern (ng_patterns grant) \<Longrightarrow> k < length h \<Longrightarrow> k \<le> n \<Longrightarrow>
    \<forall>db \<in> set h. i \<notin> set (map row_id (access_grants db)) \<Longrightarrow>
    insert_grant flt (h ! k) (hd h) i now grant = Ok (db', i') \<Longrightarrow> grant_step n h (db' # h)"
| step_update: "list_all storable_pattern (gu_patterns upd) \<Longrightarrow> k < length h \<Longrightarrow>
    update_grant flt (h ! k) (hd h) i now upd = Ok db' \<Longrightarrow> grant_step n h (db' # h)"
| step_delete: "delete_grant flt (hd h) i = Ok db' \<Longrightarrow> grant_step n h (db' # h)"
| step_delete_role: "delete_grants_for_role flt (hd h) rid = Ok (db', m) \<Longrightarrow> grant_step n h (db' # h)"

inductive_cases grant_stepE: "grant_step n h h'"

section \<open>Statements and rows\<close>

lemma exec_stmt_Ok_iff [result_simps]: "exec_stmt flt st v = Ok w \<longleftrightarrow> flt st = None \<and> v = w"
  by (auto simp: exec_stmt_def split: option.splits)

lemma subject_split [simp]:
  "(row_subject_type r, row_subject_id r) = split_subject s \<longleftrightarrow> subject_from_row r = s"
  by (cases s; cases "row_subject_type r") (auto simp: subject_from_row_def)

lemma subject_count_eq:
  "subject_count db s = length (filter (\<lambda>r. subject_from_row r = s) (access_grants db))"
  by (simp add: subject_count_def)

lemma parse_all_printed: "list_all storable_pattern ps \<Longrightarrow> parse_all (map pattern_to_string ps) = Some ps"
  by (induction ps) (simp_all add: pattern_parse_print)

lemma parse_all_storable: "parse_all ss = Some ps \<Longrightarrow> list_all storable_pattern ps"
  by (induction ss arbitrary: ps) (auto split: sum.splits dest: pattern_print_parse)

lemma row_grant_Some_iff:
  "row_grant row = Some g \<longleftrightarrow>
     patterns_from_column (row_patterns row) = Some (g_patterns g) \<and>
     selector_from_column (row_selector row) = Some (g_selector g) \<and>
     g_id g = row_id row \<and> g_tenant_id g = row_tenant_id row \<and>
     g_subject g = subject_from_row row \<and> g_description g = row_description row"
  by (cases g) (auto simp: row_grant_def resolve_row_def split: option.splits)

lemma resolve_rows_loop_eq:
  "resolve_rows_loop gs n rows =
     \<lparr>load_grants = gs @ List.map_filter row_grant rows,
      corrupt_skipped = n + length (filter (\<lambda>r. row_grant r = None) rows)\<rparr>"
  by (induction gs n rows rule: resolve_rows_loop.induct)
    (auto simp: row_grant_def List.map_filter_def split: sum.splits)

lemma load_resolve_rows [simp]:
  "load_grants (resolve_rows rows) = List.map_filter row_grant rows"
  "corrupt_skipped (resolve_rows rows) = length (filter (\<lambda>r. row_grant r = None) rows)"
  by (simp_all add: resolve_rows_def resolve_rows_loop_eq)

lemma set_map_filter_iff: "x \<in> set (List.map_filter f xs) \<longleftrightarrow> (\<exists>y \<in> set xs. f y = Some x)"
  by (force simp: List.map_filter_def)

lemma length_map_filter: "length (List.map_filter f xs) + length (filter (\<lambda>x. f x = None) xs) = length xs"
  by (induction xs) (auto simp: List.map_filter_def)

section \<open>Planes of patterns and grants\<close>

lemma pattern_plane_matches:
  assumes "pattern_matches p a"
  shows "pattern_plane p = SystemPlane \<longleftrightarrow> is_system (action_resource a)"
proof (cases "pattern_resource p")
  case (SubtreeResource stem)
  then obtain rest where r: "as_str (action_resource a) = stem @ CHR ''.'' # rest"
    using assms subtree_matches_iff by (auto simp: pattern_matches_def)
  have "starts_with (stem @ CHR ''.'' # rest) ''system.'' \<longleftrightarrow>
      stem = ''system'' \<or> starts_with stem ''system.''"
  proof
    assume "starts_with (stem @ CHR ''.'' # rest) ''system.''"
    then obtain q where "stem @ CHR ''.'' # rest = ''system'' @ CHR ''.'' # q"
      by (auto simp: starts_with_iff)
    then show "stem = ''system'' \<or> starts_with stem ''system.''"
      using dotted_prefix_cases[of stem rest "''system''" q] by (auto simp: starts_with_iff)
  qed (auto simp: starts_with_iff)
  with r SubtreeResource show ?thesis by (simp add: pattern_plane_def is_system_def)
qed (use assms in \<open>auto simp: pattern_matches_def resource_matches_def pattern_plane_def is_system_def\<close>)

lemma grant_plane_loop_Some:
  "grant_plane_loop (Some x) ps = (if list_all (\<lambda>p. pattern_plane p = x) ps then Ok x else Err PlaneMixing)"
  by (induction ps) auto

lemma grant_plane_Ok_iff:
  "grant_plane ps = Ok pl \<longleftrightarrow>
     list_all (\<lambda>p. pattern_plane p = pl) ps \<and> (ps = [] \<longrightarrow> pl = TenantPlane)"
  by (cases ps) (auto simp: grant_plane_def grant_plane_loop_Some)

lemma tenant_encoding_Ok_iff:
  "tenant_encoding pl s t = Ok () \<longleftrightarrow>
     (case s of
        SubjRole _ \<Rightarrow> t = None
      | SubjUser _ \<Rightarrow> (t = None \<longleftrightarrow> pl = SystemPlane))"
  by (cases "(pl, s, t)" rule: tenant_encoding.cases)
    (auto split: grant_subject.splits)

lemma validate_write_Ok_iff:
  "validate_write flt db s t ps sel d = Ok () \<longleftrightarrow>
     grant_ok \<lparr>g_id = i, g_tenant_id = t, g_subject = s, g_patterns = ps, g_selector = sel,
       g_description = d\<rparr>"
  by (cases "grant_plane ps"; cases "sel = SelAll"; cases d)
    (auto simp: validate_write_def grant_ok_def result_simps validate_patterns_Ok
      validate_selector_level_def split: if_splits)

section \<open>Effects of the operations\<close>

definition updated_row :: "instant \<Rightarrow> grant_update \<Rightarrow> grant_row \<Rightarrow> grant_row" where
  "updated_row now upd r =
     r\<lparr>row_patterns := patterns_json (gu_patterns upd),
       row_selector := selector_json (canonicalize (gu_selector upd)),
       row_description := gu_description upd, row_updated_at := now\<rparr>"

lemma subject_new_grant_row [simp]: "subject_from_row (new_grant_row i now sel grant) = ng_subject grant"
  by (cases "ng_subject grant") (simp_all add: subject_from_row_def new_grant_row_def)

lemma updated_row_simps [simp]:
  "row_id (updated_row now upd r) = row_id r"
  "row_tenant_id (updated_row now upd r) = row_tenant_id r"
  "subject_from_row (updated_row now upd r) = subject_from_row r"
  by (simp_all add: updated_row_def subject_from_row_def split: grant_subject_type.split)

lemma insert_grant_Ok:
  assumes "insert_grant flt seen db i now grant = Ok (db', i')"
  shows "i' = i" "i \<notin> set (map row_id (access_grants db))"
    "subject_count seen (ng_subject grant) < MAX_GRANTS_PER_SUBJECT"
    "db' = db\<lparr>access_grants := access_grants db @ [new_grant_row i now SelAll grant]\<rparr>"
    "ng_selector grant = SelAll"
    "grant_ok \<lparr>g_id = i, g_tenant_id = ng_tenant_id grant, g_subject = ng_subject grant,
       g_patterns = ng_patterns grant, g_selector = SelAll, g_description = ng_description grant\<rparr>"
proof -
  have ok: "grant_ok \<lparr>g_id = i, g_tenant_id = ng_tenant_id grant, g_subject = ng_subject grant,
      g_patterns = ng_patterns grant, g_selector = canonicalize (ng_selector grant),
      g_description = ng_description grant\<rparr>"
    using assms by (auto simp: insert_grant_def result_simps Let_def validate_write_Ok_iff[of _ _ _ _ _ _ _ i])
  then show sel: "ng_selector grant = SelAll" by (simp add: grant_ok_def)
  then show "grant_ok \<lparr>g_id = i, g_tenant_id = ng_tenant_id grant, g_subject = ng_subject grant,
       g_patterns = ng_patterns grant, g_selector = SelAll, g_description = ng_description grant\<rparr>"
    using ok by simp
  show "i' = i" "i \<notin> set (map row_id (access_grants db))"
    "subject_count seen (ng_subject grant) < MAX_GRANTS_PER_SUBJECT"
    "db' = db\<lparr>access_grants := access_grants db @ [new_grant_row i now SelAll grant]\<rparr>"
    using assms sel by (auto simp: insert_grant_def result_simps Let_def split: if_splits)
qed

lemma find_grant_row_Ok:
  assumes "find_grant_row flt db i = Ok row"
  shows "row \<in> set (access_grants db)" "row_id row = i"
  using assms by (auto simp: find_grant_row_def result_simps find_Some_iff)

lemma update_grant_Ok:
  assumes "update_grant flt seen db i now upd = Ok db'"
  obtains row where "row \<in> set (access_grants seen)" "row_id row = i" "i \<in> set (map row_id (access_grants db))"
    "db' = db\<lparr>access_grants := map (\<lambda>r. if row_id r = i then updated_row now upd r else r) (access_grants db)\<rparr>"
    "gu_selector upd = SelAll"
    "grant_ok \<lparr>g_id = i, g_tenant_id = row_tenant_id row, g_subject = subject_from_row row,
       g_patterns = gu_patterns upd, g_selector = SelAll, g_description = gu_description upd\<rparr>"
proof -
  obtain row where r: "find_grant_row flt seen i = Ok row"
    and v: "validate_write flt seen (subject_from_row row) (row_tenant_id row) (gu_patterns upd)
      (canonicalize (gu_selector upd)) (gu_description upd) = Ok ()"
    and i: "i \<in> set (map row_id (access_grants db))"
    and d: "db' = db\<lparr>access_grants := map (\<lambda>r. if row_id r = i then updated_row now upd r else r) (access_grants db)\<rparr>"
    using assms by (auto simp: update_grant_def result_simps Let_def updated_row_def[abs_def] split: if_splits)
  have ok: "grant_ok \<lparr>g_id = i, g_tenant_id = row_tenant_id row, g_subject = subject_from_row row,
      g_patterns = gu_patterns upd, g_selector = canonicalize (gu_selector upd),
      g_description = gu_description upd\<rparr>"
    using v by (simp add: validate_write_Ok_iff[of _ _ _ _ _ _ _ i])
  then have sel: "gu_selector upd = SelAll" by (simp add: grant_ok_def)
  show thesis using that[OF find_grant_row_Ok[OF r] i d sel] ok sel by simp
qed

lemma delete_grant_Ok:
  "delete_grant flt db i = Ok db' \<longleftrightarrow>
     flt DeleteRow = None \<and> i \<in> set (map row_id (access_grants db)) \<and>
     db' = db\<lparr>access_grants := filter (\<lambda>r. row_id r \<noteq> i) (access_grants db)\<rparr>"
  by (auto simp: delete_grant_def result_simps filter_empty_conv split: if_splits)

lemma row_grant_new:
  assumes "list_all storable_pattern (ng_patterns grant)"
  shows "row_grant (new_grant_row i now sel grant) =
    Some \<lparr>g_id = i, g_tenant_id = ng_tenant_id grant, g_subject = ng_subject grant,
      g_patterns = ng_patterns grant, g_selector = sel, g_description = ng_description grant\<rparr>"
  unfolding row_grant_Some_iff
  using assms by (simp add: parse_all_printed patterns_json_def selector_json_def) (simp add: new_grant_row_def
      parse_all_printed patterns_json_def selector_json_def)

lemma row_grant_updated:
  assumes "list_all storable_pattern (gu_patterns upd)"
  shows "row_grant (updated_row now upd r) =
    Some \<lparr>g_id = row_id r, g_tenant_id = row_tenant_id r, g_subject = subject_from_row r,
      g_patterns = gu_patterns upd, g_selector = canonicalize (gu_selector upd),
      g_description = gu_description upd\<rparr>"
  unfolding row_grant_Some_iff
  using assms by simp (simp add: updated_row_def parse_all_printed patterns_json_def selector_json_def)

section \<open>The invariant is kept\<close>

lemma grants_inv_iff:
  "grants_inv db \<longleftrightarrow>
     distinct (map row_id (access_grants db)) \<and> (\<forall>r \<in> set (access_grants db). row_ok r)"
  by (auto simp: grants_inv_def list_all_iff)

lemma grants_inv_same: "grants_inv db \<Longrightarrow> access_grants db' = access_grants db \<Longrightarrow> grants_inv db'"
  by (simp add: grants_inv_def)

lemma grants_inv_insert:
  assumes "grants_inv db" "list_all storable_pattern (ng_patterns grant)"
    "insert_grant flt seen db i now grant = Ok (db', i')"
  shows "grants_inv db'"
proof -
  note ok = insert_grant_Ok[OF assms(3)]
  have "row_ok (new_grant_row i now SelAll grant)"
    using ok(6) assms(2) by (simp add: row_ok_def row_grant_new)
  then show ?thesis
    using assms(1) ok(2,4)
    by (auto simp: grants_inv_iff new_grant_row_def[THEN arg_cong, of row_id])
qed

text \<open>The identity of a row: what no write changes.\<close>

definition row_identity :: "grant_row \<Rightarrow> grant_subject \<times> uuid option" where
  "row_identity r = (subject_from_row r, row_tenant_id r)"

lemma row_identity_updated [simp]: "row_identity (updated_row now upd r) = row_identity r"
  by (simp add: row_identity_def)

definition same_identities :: "database \<Rightarrow> database \<Rightarrow> bool" where
  "same_identities db db' \<longleftrightarrow> (\<forall>r \<in> set (access_grants db). \<forall>r' \<in> set (access_grants db').
     row_id r = row_id r' \<longrightarrow> row_identity r = row_identity r')"

lemma same_identities_refl: "grants_inv db \<Longrightarrow> same_identities db db"
  by (auto simp: same_identities_def grants_inv_iff distinct_map dest: inj_onD)

lemma grants_inv_update:
  assumes "grants_inv db" "same_identities seen db" "list_all storable_pattern (gu_patterns upd)"
    "update_grant flt seen db i now upd = Ok db'"
  shows "grants_inv db'"
proof -
  from assms(4) obtain row where r: "row \<in> set (access_grants seen)" "row_id row = i"
    and d: "access_grants db' = map (\<lambda>r. if row_id r = i then updated_row now upd r else r) (access_grants db)"
    and sel: "gu_selector upd = SelAll"
    and ok: "grant_ok \<lparr>g_id = i, g_tenant_id = row_tenant_id row, g_subject = subject_from_row row,
       g_patterns = gu_patterns upd, g_selector = SelAll, g_description = gu_description upd\<rparr>"
    by (rule update_grant_Ok) auto
  have ids: "map row_id (access_grants db') = map row_id (access_grants db)"
    by (simp add: d)
  have "row_ok (updated_row now upd q)" if "q \<in> set (access_grants db)" "row_id q = i" for q
  proof -
    have "row_identity q = row_identity row"
      using assms(2) r that unfolding same_identities_def by metis
    then show ?thesis
      using ok sel that by (simp add: row_ok_def row_grant_updated[OF assms(3)] row_identity_def)
  qed
  then have "\<forall>r \<in> set (access_grants db'). row_ok r"
    using assms(1) by (auto simp: d grants_inv_iff)
  then show ?thesis using assms(1) by (simp add: grants_inv_iff ids)
qed

lemma grants_inv_filter:
  assumes "grants_inv db" "access_grants db' = filter P (access_grants db)"
  shows "grants_inv db'"
  using assms by (auto simp: grants_inv_iff distinct_map_filter)

text \<open>What a step leaves of the rows: each is a row of before with the same identity, or has a new id; and
  no subject gains more than one.\<close>

definition evolves :: "database list \<Rightarrow> database \<Rightarrow> bool" where
  "evolves h db' \<longleftrightarrow> (\<forall>s. subject_count db' s \<le> Suc (subject_count (hd h) s)) \<and>
     (\<forall>r \<in> set (access_grants db').
       (\<exists>q \<in> set (access_grants (hd h)). row_id q = row_id r \<and> row_identity q = row_identity r) \<or>
       (\<forall>db \<in> set h. row_id r \<notin> set (map row_id (access_grants db))))"

lemma evolves_map:
  assumes "access_grants db' = map f (access_grants (hd h))"
    "\<And>r. row_id (f r) = row_id r \<and> row_identity (f r) = row_identity r"
  shows "evolves h db'"
proof -
  have "map subject_from_row (access_grants db') = map subject_from_row (access_grants (hd h))"
    using assms by (auto simp: row_identity_def)
  then have "length (filter (\<lambda>x. x = s) (map subject_from_row (access_grants db'))) =
      length (filter (\<lambda>x. x = s) (map subject_from_row (access_grants (hd h))))" for s by simp
  then have "subject_count db' s = subject_count (hd h) s" for s by (simp add: subject_count_eq filter_map o_def)
  moreover have "\<exists>q \<in> set (access_grants (hd h)). row_id q = row_id r \<and> row_identity q = row_identity r"
    if "r \<in> set (access_grants db')" for r using that assms by auto
  ultimately show ?thesis unfolding evolves_def by simp
qed

lemma evolves_filter:
  assumes "access_grants db' = filter P (access_grants (hd h))"
  shows "evolves h db'"
proof -
  have "length (filter Q (filter P xs)) \<le> length (filter Q xs)" for Q and xs :: "grant_row list"
    by (induction xs) auto
  then have "subject_count db' s \<le> subject_count (hd h) s" for s by (simp only: subject_count_eq assms)
  then show ?thesis using assms by (auto simp: evolves_def intro: le_SucI)
qed

lemma evolves_insert:
  assumes "\<forall>db \<in> set h. i \<notin> set (map row_id (access_grants db))" "insert_grant flt seen (hd h) i now grant = Ok (db', i')"
  shows "evolves h db'"
proof -
  have d: "access_grants db' = access_grants (hd h) @ [new_grant_row i now SelAll grant]"
    using insert_grant_Ok(4)[OF assms(2)] by simp
  have "row_id (new_grant_row i now SelAll grant) = i" by (simp add: new_grant_row_def)
  then show ?thesis using assms(1) by (auto simp: evolves_def subject_count_eq d)
qed

definition grant_history_inv :: "nat \<Rightarrow> database list \<Rightarrow> bool" where
  "grant_history_inv n h \<longleftrightarrow> h \<noteq> [] \<and> (\<forall>db \<in> set h. grants_inv db) \<and> (\<forall>db \<in> set h. same_identities db (hd h)) \<and>
     (\<forall>k < length h. \<forall>s. subject_count (hd h) s \<le> subject_count (h ! k) s + k) \<and>
     (\<forall>s. subject_count (hd h) s \<le> MAX_GRANTS_PER_SUBJECT + n)"

lemma deleted_step:
  assumes "grant_history_inv n h" "access_grants db' = filter P (access_grants (hd h))"
  shows "grants_inv db' \<and> evolves h db' \<and> (\<forall>s. subject_count db' s \<le> MAX_GRANTS_PER_SUBJECT + n)"
proof -
  have "length (filter Q (filter P xs)) \<le> length (filter Q xs)" for Q and xs :: "grant_row list"
    by (induction xs) auto
  then have "subject_count db' s \<le> subject_count (hd h) s" for s by (simp only: subject_count_eq assms(2))
  moreover have "subject_count (hd h) s \<le> MAX_GRANTS_PER_SUBJECT + n" "grants_inv (hd h)" for s
    using assms(1) by (simp_all add: grant_history_inv_def)
  ultimately show ?thesis using evolves_filter[OF assms(2)] grants_inv_filter[OF _ assms(2)] order_trans by blast
qed

lemma grant_step_evolves:
  assumes "grant_history_inv n h" "grant_step n h h'"
  obtains db' where "h' = db' # h" "grants_inv db'" "evolves h db'" "\<forall>s. subject_count db' s \<le> MAX_GRANTS_PER_SUBJECT + n"
  using assms(2)
proof (cases rule: grant_step.cases)
  case (step_insert grant k i flt now db' i')
  note ok = insert_grant_Ok[OF step_insert(6)]
  have "subject_count db' s \<le> MAX_GRANTS_PER_SUBJECT + n" for s
  proof (cases "s = ng_subject grant")
    case True
    have "subject_count (hd h) s \<le> subject_count (h ! k) s + k" using assms(1) step_insert(3) by (simp add: grant_history_inv_def)
    then show ?thesis using ok(3,4) step_insert(4) True by (simp add: subject_count_eq)
  qed (use assms(1) ok(4) in \<open>auto simp: subject_count_eq grant_history_inv_def\<close>)
  then show thesis
    using that step_insert evolves_insert grants_inv_insert assms(1)
    by (metis grant_history_inv_def list.set_sel(1))
next
  case (step_update upd k flt i now db')
  have e: "evolves h db'" using step_update(4)
    by (rule update_grant_Ok) (auto intro: evolves_map[where f = "\<lambda>r. if row_id r = i then updated_row now upd r else r"])
  have "grants_inv db'"
  proof (rule grants_inv_update[OF _ _ step_update(2,4)])
    show "grants_inv (hd h)" "same_identities (h ! k) (hd h)"
      using assms(1) step_update(3) by (simp_all add: grant_history_inv_def)
  qed
  moreover have "access_grants db' = map (\<lambda>r. if row_id r = i then updated_row now upd r else r) (access_grants (hd h))"
    using step_update(4) by (rule update_grant_Ok) simp
  then have "subject_count db' s = subject_count (hd h) s" for s
    by (simp add: subject_count_eq filter_map o_def if_distrib[of subject_from_row] cong: if_cong)
  ultimately show thesis using that[OF step_update(1)] e assms(1) by (simp add: grant_history_inv_def)
next
  case (step_delete flt i db')
  then have d: "access_grants db' = filter (\<lambda>r. row_id r \<noteq> i) (access_grants (hd h))" by (auto simp: delete_grant_Ok)
  show thesis using that[OF step_delete(1)] deleted_step[OF assms(1) d] by blast
next
  case (step_delete_role flt rid db' m)
  then have d: "access_grants db' = filter (\<lambda>r. \<not> (row_subject_type r = TypeRole \<and> row_subject_id r = rid)) (access_grants (hd h))"
    by (auto simp: delete_grants_for_role_def result_simps)
  show thesis using that[OF step_delete_role(1)] deleted_step[OF assms(1) d] by blast
qed

lemma grant_history_step:
  assumes "grant_history_inv n h" "grant_step n h h'"
  shows "grant_history_inv n h'"
  using assms
proof (rule grant_step_evolves)
  fix db' assume d: "h' = db' # h" "grants_inv db'" "evolves h db'" "\<forall>s. subject_count db' s \<le> MAX_GRANTS_PER_SUBJECT + n"
  have "same_identities db db'" if "db \<in> set h" for db
    using assms(1) d(3) that unfolding grant_history_inv_def same_identities_def evolves_def by (metis image_eqI list.set_map)
  moreover have "subject_count db' s \<le> subject_count ((db' # h) ! k) s + k" if "k < length (db' # h)" for k s
  proof (cases k)
    case (Suc j)
    have "subject_count db' s \<le> Suc (subject_count (hd h) s)" using d(3) by (simp add: evolves_def)
    also have "subject_count (hd h) s \<le> subject_count (h ! j) s + j"
      using assms(1) that Suc by (simp add: grant_history_inv_def)
    finally show ?thesis using Suc by simp
  qed simp
  ultimately show ?thesis
    using assms(1) d same_identities_refl[OF d(2)] by (auto simp: grant_history_inv_def)
qed

definition grant_init :: "database list \<Rightarrow> bool" where
  "grant_init h \<longleftrightarrow> length h = 1 \<and> access_grants (hd h) = []"

interpretation grant_store: state_machine grant_init "grant_step n" "grant_history_inv n" for n
proof
  show "grant_history_inv n h" if "grant_init h" for h
    using that by (auto simp: grant_init_def grant_history_inv_def grants_inv_def same_identities_def subject_count_def
        length_Suc_conv)
qed (rule grant_history_step)

section \<open>Loads\<close>

lemma find_SomeD: "find P xs = Some x \<Longrightarrow> P x \<and> x \<in> set xs"
  by (induction xs) (auto split: if_splits)

lemma find_append_new: "find P xs = None \<Longrightarrow> find P (xs @ [x]) = (if P x then Some x else None)"
  by (induction xs) (auto split: if_splits)

lemma find_map_id:
  assumes "\<And>r. row_id (f r) = row_id r"
  shows "find (\<lambda>r. row_id r = k) (map f rows) = map_option f (find (\<lambda>r. row_id r = k) rows)"
  by (induction rows) (simp_all add: assms)

lemma resolve_row_Ok_iff: "resolve_row row = Ok g \<longleftrightarrow> row_grant row = Some g"
  by (auto simp: row_grant_def split: sum.splits)

lemma load_grant_Ok_iff:
  "load_grant flt db i = Ok g \<longleftrightarrow>
     flt FindGrant = None \<and>
     (\<exists>row. find (\<lambda>r. row_id r = i) (access_grants db) = Some row \<and> row_grant row = Some g)"
  by (auto simp: load_grant_def find_grant_row_def result_simps resolve_row_Ok_iff)

lemma load_grant_cong:
  assumes "find (\<lambda>r. row_id r = k) (access_grants db') = find (\<lambda>r. row_id r = k) (access_grants db)"
  shows "load_grant flt db' k = load_grant flt db k"
  using assms by (simp add: load_grant_def find_grant_row_def)

lemma load_after_insert:
  assumes "list_all storable_pattern (ng_patterns grant)"
    and "insert_grant flt seen db i now grant = Ok (db', j)" and "flt' FindGrant = None"
  shows "load_grant flt' db' i = Ok \<lparr>g_id = i, g_tenant_id = ng_tenant_id grant,
    g_subject = ng_subject grant, g_patterns = ng_patterns grant, g_selector = ng_selector grant,
    g_description = ng_description grant\<rparr>"
proof -
  note ok = insert_grant_Ok[OF assms(2)]
  have "find (\<lambda>r. row_id r = i) (access_grants db) = None"
    using ok(2) by (auto simp: find_None_iff)
  then have "find (\<lambda>r. row_id r = i) (access_grants db') = Some (new_grant_row i now SelAll grant)"
    by (simp add: ok(4) find_append_new) (simp add: new_grant_row_def)
  then show ?thesis
    using assms(3) ok(5) by (simp add: load_grant_Ok_iff row_grant_new[OF assms(1)])
qed

lemma load_after_update:
  assumes "list_all storable_pattern (gu_patterns upd)"
    and "update_grant flt seen db i now upd = Ok db'" and "load_grant flt' db i = Ok g"
  shows "load_grant flt' db' i = Ok (g\<lparr>g_patterns := gu_patterns upd, g_selector := gu_selector upd,
    g_description := gu_description upd\<rparr>)"
proof -
  let ?f = "\<lambda>r. if row_id r = i then updated_row now upd r else r"
  from assms(2) obtain row0 where d: "access_grants db' = map ?f (access_grants db)"
    and sel: "gu_selector upd = SelAll" by (rule update_grant_Ok) auto
  from assms(3) obtain row where r: "find (\<lambda>r. row_id r = i) (access_grants db) = Some row"
    "row_grant row = Some g" "flt' FindGrant = None" by (auto simp: load_grant_Ok_iff)
  then have "row_id row = i" by (auto simp: find_Some_iff)
  then have "find (\<lambda>r. row_id r = i) (access_grants db') = Some (updated_row now upd row)"
    using r(1) by (simp add: d find_map_id)
  moreover have "g_id g = row_id row" "g_tenant_id g = row_tenant_id row" "g_subject g = subject_from_row row"
    using r(2) by (simp_all add: row_grant_Some_iff)
  then have "row_grant (updated_row now upd row) = Some (g\<lparr>g_patterns := gu_patterns upd,
      g_selector := gu_selector upd, g_description := gu_description upd\<rparr>)"
    using sel by (cases g) (simp add: row_grant_updated[OF assms(1)])
  ultimately show ?thesis using r(3) by (simp add: load_grant_Ok_iff)
qed

lemma load_other_after_update:
  assumes "update_grant flt seen db i now upd = Ok db'" "k \<noteq> i"
  shows "load_grant flt' db' k = load_grant flt' db k"
proof -
  let ?f = "\<lambda>r. if row_id r = i then updated_row now upd r else r"
  from assms(1) have d: "access_grants db' = map ?f (access_grants db)" by (rule update_grant_Ok) auto
  have "map_option ?f (find (\<lambda>r. row_id r = k) (access_grants db)) = find (\<lambda>r. row_id r = k) (access_grants db)"
  proof (cases "find (\<lambda>r. row_id r = k) (access_grants db)")
    case (Some r)
    with find_SomeD have "row_id r = k" by fast
    with Some assms(2) show ?thesis by (simp only: option.map if_False)
  qed simp
  then show ?thesis by (intro load_grant_cong) (simp add: d find_map_id)
qed

lemma principal_row_grant:
  assumes "row_grant row = Some g"
  shows "principal_row t u rs row \<longleftrightarrow>
    (g_subject g = SubjUser u \<and> (g_tenant_id g = Some t \<or> g_tenant_id g = None)) \<or>
    (\<exists>r \<in> set rs. g_subject g = SubjRole r)"
  using assms
  by (cases "row_subject_type row") (auto simp: row_grant_Some_iff principal_row_def subject_from_row_def)

lemma load_principal_Ok_iff:
  "load_grants_for_principal flt db t u rs = Ok load \<longleftrightarrow>
     flt SelectGrants = None \<and> load = resolve_rows (filter (principal_row t u rs) (access_grants db))"
  by (auto simp: load_grants_for_principal_def result_simps)

lemma principal_load_set:
  assumes "load_grants_for_principal flt db t u rs = Ok load"
  shows "g \<in> set (load_grants load) \<longleftrightarrow>
    (\<exists>row \<in> set (access_grants db). row_grant row = Some g) \<and>
    ((g_subject g = SubjUser u \<and> (g_tenant_id g = Some t \<or> g_tenant_id g = None)) \<or>
     (\<exists>r \<in> set rs. g_subject g = SubjRole r))"
  using assms principal_row_grant by (fastforce simp: load_principal_Ok_iff set_map_filter_iff)

lemma stored_grant_plane:
  assumes "grant_ok g" "p \<in> set (g_patterns g)" "pattern_matches p a"
  shows "(is_system (action_resource a) \<longrightarrow> g_tenant_id g = None) \<and>
    (\<not> is_system (action_resource a) \<longrightarrow> (g_tenant_id g = None \<longleftrightarrow> (\<exists>r. g_subject g = SubjRole r)))"
proof -
  obtain pl where pl: "grant_plane (g_patterns g) = Ok pl"
    and te: "tenant_encoding pl (g_subject g) (g_tenant_id g) = Ok ()"
    using assms(1) by (auto simp: grant_ok_def split: sum.splits)
  then have "pattern_plane p = pl" using assms(2) by (auto simp: grant_plane_Ok_iff list_all_iff)
  then have "pl = SystemPlane \<longleftrightarrow> is_system (action_resource a)"
    using pattern_plane_matches[OF assms(3)] by simp
  then show ?thesis
    using te by (cases pl; cases "g_subject g") (auto simp: tenant_encoding_Ok_iff)
qed

section \<open>Sample data\<close>

definition no_faults :: faults where "no_faults = (\<lambda>_. None)"

definition sample_db :: database where
  "sample_db = \<lparr>access_grants = [], host_tags = [], hosts = [], software_items = [],
     host_software_items = [], roles = [], user_roles = [], users = [\<lparr>user_id = 5, user_is_active = True, user_deactivated_at = None\<rparr>],
     tenants = [1], host_tag_assignments = []\<rparr>"

definition sample_pattern :: action_pattern where
  "sample_pattern = \<lparr>pattern_resource = ExactResource ''access'', pattern_verb = ExactVerb Manage\<rparr>"

definition sample_grant :: new_grant where
  "sample_grant = \<lparr>ng_subject = SubjUser 5, ng_tenant_id = Some 1, ng_patterns = [sample_pattern],
     ng_selector = SelAll, ng_description = None, ng_created_by = None\<rparr>"

definition sample_update :: grant_update where
  "sample_update = \<lparr>gu_patterns = [\<lparr>pattern_resource = AnyResource, pattern_verb = AnyVerb\<rparr>],
     gu_selector = SelAll, gu_description = Some ''all''\<rparr>"

definition sample_row :: grant_row where
  "sample_row = new_grant_row 9 0 SelAll sample_grant"

definition sample_db1 :: database where
  "sample_db1 = sample_db\<lparr>access_grants := [sample_row]\<rparr>"

lemma sample_storable: "list_all storable_pattern (ng_patterns sample_grant)"
  by code_simp

lemma sample_update_storable: "list_all storable_pattern (gu_patterns sample_update)"
  by code_simp

lemma sample_insert: "insert_grant no_faults sample_db sample_db 9 0 sample_grant = Ok (sample_db1, 9)"
  by code_simp

text \<open>A second insert that counted before the first one was committed.\<close>

definition sample_db2 :: database where
  "sample_db2 = sample_db\<lparr>access_grants := [sample_row, new_grant_row 10 0 SelAll sample_grant]\<rparr>"

lemma sample_insert2: "insert_grant no_faults sample_db sample_db1 10 0 sample_grant = Ok (sample_db2, 10)"
  by code_simp

lemma sample_init: "grant_init [sample_db]"
  by (simp add: grant_init_def sample_db_def)

lemma sample_steps: "(grant_step 1)\<^sup>*\<^sup>* [sample_db] [sample_db2, sample_db1, sample_db]"
proof -
  have "grant_step 1 [sample_db] [sample_db1, sample_db]"
    by (rule step_insert[OF sample_storable, where k = 0 and i = 9])
      (use sample_insert in \<open>auto simp: sample_db_def\<close>)
  moreover have "grant_step 1 [sample_db1, sample_db] [sample_db2, sample_db1, sample_db]"
    by (rule step_insert[OF sample_storable, where k = 1 and i = 10])
      (use sample_insert2 in \<open>auto simp: sample_db_def sample_db1_def sample_row_def new_grant_row_def\<close>)
  ultimately show ?thesis by (meson converse_rtranclp_into_rtranclp r_into_rtranclp)
qed

lemma sample_row_grant: "row_grant sample_row = Some \<lparr>g_id = 9, g_tenant_id = Some 1,
    g_subject = SubjUser 5, g_patterns = [sample_pattern], g_selector = SelAll, g_description = None\<rparr>"
  by code_simp

section \<open>Properties\<close>

text \<open>C8. Whatever inserts, updates, deletes and role cleanups commit from an empty table, however their
  reads and writes interleave, the ids stay unique and every readable row obeys the rules of the
  grant model. The cap of 200 grants per subject is soft: it is exceeded by at most the number of
  writes that commit while an insert is between its count and its row, and so not at all by inserts
  that are not interrupted.\<close>

theorem grant_store_invariant:
  assumes "grant_init h" "(grant_step n)\<^sup>*\<^sup>* h h'"
  shows "grants_inv (hd h') \<and> (\<forall>s. subject_count (hd h') s \<le> MAX_GRANTS_PER_SUBJECT + n)"
  using grant_store.inv_reachable[OF assms] by (simp add: grant_history_inv_def)

theorem grant_store_invariant_witness:
  "grants_inv sample_db2 \<and> subject_count sample_db2 (SubjUser 5) = 2 \<and> 2 \<le> MAX_GRANTS_PER_SUBJECT + 1"
proof -
  have "subject_count sample_db2 (SubjUser 5) = 2" by code_simp
  then show ?thesis using grant_store_invariant[OF sample_init sample_steps] by (metis list.sel(1))
qed

text \<open>Plane separation of the store: in every reachable table, a grant that matches a
  system-plane action is tenant-less, and a grant that matches a tenant-plane action is tenant-less
  exactly when its subject is a role. No grant reaches both planes.\<close>

theorem stored_grants_respect_planes:
  assumes "grant_init h0" "(grant_step n)\<^sup>*\<^sup>* h0 h"
    and "row \<in> set (access_grants (hd h))" "resolve_row row = Ok g"
    and "p \<in> set (g_patterns g)" "pattern_matches p a"
  shows "(is_system (action_resource a) \<longrightarrow> g_tenant_id g = None) \<and>
    (\<not> is_system (action_resource a) \<longrightarrow> (g_tenant_id g = None \<longleftrightarrow> (\<exists>r. g_subject g = SubjRole r))) \<and>
    (\<forall>q b. q \<in> set (g_patterns g) \<and> pattern_matches q b \<longrightarrow>
       is_system (action_resource b) = is_system (action_resource a))"
proof -
  have "grants_inv (hd h)" using grant_store.inv_reachable[OF assms(1,2)] by (simp add: grant_history_inv_def)
  then have ok: "grant_ok g"
    using assms(3,4) by (auto simp: grants_inv_iff row_ok_def resolve_row_Ok_iff dest!: bspec)
  obtain pl where pl: "list_all (\<lambda>p. pattern_plane p = pl) (g_patterns g)"
    using ok by (auto simp: grant_ok_def grant_plane_Ok_iff split: sum.splits)
  have "is_system (action_resource b) = (pl = SystemPlane)"
    if "q \<in> set (g_patterns g)" "pattern_matches q b" for q b
    using that pl pattern_plane_matches by (auto simp: list_all_iff)
  then show ?thesis using stored_grant_plane[OF ok assms(5,6)] assms(5,6) by blast
qed

text \<open>The plane classifier is exact: whatever action a pattern matches, the pattern is
  classified as system plane exactly when the action's resource is on the system plane.\<close>

theorem pattern_plane_exact:
  assumes "pattern_matches p a"
  shows "pattern_plane p = (if is_system (action_resource a) then SystemPlane else TenantPlane)"
  using pattern_plane_matches[OF assms] by (cases "pattern_plane p") simp_all

theorem pattern_plane_exact_witness:
  "pattern_matches \<lparr>pattern_resource = SubtreeResource ''system'', pattern_verb = AnyVerb\<rparr>
     SYSTEM_ACCESS_MANAGE \<and>
   pattern_plane \<lparr>pattern_resource = SubtreeResource ''system'', pattern_verb = AnyVerb\<rparr> = SystemPlane"
proof -
  have m: "pattern_matches \<lparr>pattern_resource = SubtreeResource ''system'', pattern_verb = AnyVerb\<rparr>
     SYSTEM_ACCESS_MANAGE" by code_simp
  have "is_system (action_resource SYSTEM_ACCESS_MANAGE)" by code_simp
  then show ?thesis using m pattern_plane_exact[OF m] by simp
qed

text \<open>A grant that was inserted reads back as it was given, under the id the insert returned.\<close>

theorem insert_load_round_trip:
  assumes "list_all storable_pattern (ng_patterns grant)"
    and "insert_grant flt seen db i now grant = Ok (db', j)" and "flt' FindGrant = None"
  shows "load_grant flt' db' j = Ok \<lparr>g_id = j, g_tenant_id = ng_tenant_id grant,
    g_subject = ng_subject grant, g_patterns = ng_patterns grant, g_selector = ng_selector grant,
    g_description = ng_description grant\<rparr>"
  using load_after_insert[OF assms(1,2), of flt'] assms(3) insert_grant_Ok(1)[OF assms(2)] by simp

text \<open>An update replaces exactly the patterns, the selector and the description of its grant
  (id, subject and tenant stay), and no other grant reads differently afterwards.\<close>

theorem update_load_frame:
  assumes "list_all storable_pattern (gu_patterns upd)"
    and "update_grant flt seen db i now upd = Ok db'" and "load_grant flt' db i = Ok g"
  shows "load_grant flt' db' k =
    (if k = i then Ok (g\<lparr>g_patterns := gu_patterns upd, g_selector := gu_selector upd,
       g_description := gu_description upd\<rparr>)
     else load_grant flt' db k)"
  using load_after_update[OF assms] load_other_after_update[OF assms(2)] by simp

theorem update_load_frame_witness:
  "\<exists>db' g. update_grant no_faults sample_db1 sample_db1 9 3 sample_update = Ok db' \<and>
     load_grant no_faults sample_db1 9 = Ok g \<and>
     load_grant no_faults db' 9 = Ok (g\<lparr>g_patterns := gu_patterns sample_update,
       g_selector := gu_selector sample_update, g_description := gu_description sample_update\<rparr>)"
proof -
  have "is_ok (update_grant no_faults sample_db1 sample_db1 9 3 sample_update)" by code_simp
  then obtain db' where u: "update_grant no_faults sample_db1 sample_db1 9 3 sample_update = Ok db'"
    by (auto simp: is_ok_iff)
  have "is_ok (load_grant no_faults sample_db1 9)" by code_simp
  then obtain g where g: "load_grant no_faults sample_db1 9 = Ok g" by (auto simp: is_ok_iff)
  show ?thesis using u g update_load_frame[OF sample_update_storable u g, of 9] by auto
qed

text \<open>The load for a principal returns exactly the readable grants whose subject is the user, in
  this tenant or tenant-less, or one of the given roles; each matching row is either returned or
  counted as corrupt, so corruption only removes authority.\<close>

theorem principal_load_exact:
  assumes "load_grants_for_principal flt db t u rs = Ok load"
  shows "set (load_grants load) =
      {g. (\<exists>row. row \<in> set (access_grants db) \<and> resolve_row row = Ok g) \<and>
          ((g_subject g = SubjUser u \<and> (g_tenant_id g = Some t \<or> g_tenant_id g = None)) \<or>
           (\<exists>r. r \<in> set rs \<and> g_subject g = SubjRole r))} \<and>
    length (load_grants load) + corrupt_skipped load =
      length (filter (principal_row t u rs) (access_grants db))"
proof
  show "set (load_grants load) =
      {g. (\<exists>row. row \<in> set (access_grants db) \<and> resolve_row row = Ok g) \<and>
          ((g_subject g = SubjUser u \<and> (g_tenant_id g = Some t \<or> g_tenant_id g = None)) \<or>
           (\<exists>r. r \<in> set rs \<and> g_subject g = SubjRole r))}"
    using principal_load_set[OF assms] by (auto simp: resolve_row_Ok_iff)
qed (use assms in \<open>auto simp: load_principal_Ok_iff length_map_filter simp del: filter_filter\<close>)

end
