(* ===== verification/Access_Lockout.thy ===== *)
theory Access_Lockout
  imports Access_Grants
begin

text \<open>
  The lockout guard of \<open>crates/shared/db/src/access_grants.rs\<close>: it computes who holds the
  administrative actions, simulates a shrinking mutation in memory, and compares. A \<open>HashMap\<close> that
  the code iterates is an association list, a \<open>HashSet\<close> a set. The theorems are the exact meaning of
  the holder sets, the exact meaning of each verdict, and that the simulated post-state agrees with
  what the write does to the database.
\<close>

section \<open>Mutations, verdicts, holders\<close>

datatype guarded_mutation =
    DeleteGrant uuid
  | UpdateGrant uuid "action_pattern list" selector
  | DeleteRole uuid
  | SetUserRoles uuid uuid "uuid list" \<comment> \<open>tenant, user, new roles\<close>
  | DeactivateUser uuid

datatype lockout_verdict = Permitted | TenantLockout | SystemLockout

record assignment =
  a_tenant_id :: uuid
  a_user_id :: uuid
  a_role_id :: uuid

type_synonym tenant_holders = "(uuid \<times> uuid set) list"

text \<open>\<open>per_tenant.entry(t).or_default().insert(u)\<close> and \<open>get\<close> read as a possibly empty set.\<close>

fun entry_insert :: "uuid \<Rightarrow> uuid \<Rightarrow> tenant_holders \<Rightarrow> tenant_holders" where
  "entry_insert t u [] = [(t, {u})]"
| "entry_insert t u ((k, S) # rest) =
     (if k = t then (k, insert u S) # rest else (k, S) # entry_insert t u rest)"

definition holders_of :: "tenant_holders \<Rightarrow> uuid \<Rightarrow> uuid set" where
  "holders_of per_tenant t = (case map_of per_tenant t of None \<Rightarrow> {} | Some S \<Rightarrow> S)"

fun role_holders_loop ::
  "bool \<Rightarrow> bool \<Rightarrow> uuid \<Rightarrow> uuid set \<Rightarrow> assignment list \<Rightarrow> tenant_holders \<times> uuid set \<Rightarrow>
   tenant_holders \<times> uuid set" where
  "role_holders_loop covers_tenant covers_system rid active [] acc = acc"
| "role_holders_loop covers_tenant covers_system rid active (a # as) (per_tenant, global) =
     (if a_role_id a \<noteq> rid \<or> a_user_id a \<notin> active
      then role_holders_loop covers_tenant covers_system rid active as (per_tenant, global)
      else role_holders_loop covers_tenant covers_system rid active as
             (if covers_tenant then entry_insert (a_tenant_id a) (a_user_id a) per_tenant else per_tenant,
              if covers_system then insert (a_user_id a) global else global))"

fun covering_holders_loop ::
  "assignment list \<Rightarrow> uuid set \<Rightarrow> resolved_grant list \<Rightarrow> tenant_holders \<times> uuid set \<Rightarrow>
   tenant_holders \<times> uuid set" where
  "covering_holders_loop assigns active [] acc = acc"
| "covering_holders_loop assigns active (g # gs) (per_tenant, global) =
     covering_holders_loop assigns active gs
      (if g_selector g \<noteq> SelAll then (per_tenant, global)
       else
         let covers_tenant = list_ex (\<lambda>p. pattern_matches p ACCESS_MANAGE) (g_patterns g);
             covers_system = list_ex (\<lambda>p. pattern_matches p SYSTEM_ACCESS_MANAGE) (g_patterns g)
         in if \<not> covers_tenant \<and> \<not> covers_system then (per_tenant, global)
            else
              (case g_subject g of
                 SubjUser u \<Rightarrow>
                   if u \<notin> active then (per_tenant, global)
                   else
                     (case g_tenant_id g of
                        Some t \<Rightarrow> if covers_tenant then entry_insert t u per_tenant else per_tenant
                      | None \<Rightarrow> per_tenant,
                      if covers_system then insert u global else global)
               | SubjRole r \<Rightarrow>
                   role_holders_loop covers_tenant covers_system r active assigns (per_tenant, global)))"

definition covering_holders ::
  "resolved_grant list \<Rightarrow> assignment list \<Rightarrow> uuid set \<Rightarrow> tenant_holders \<times> uuid set" where
  "covering_holders grants assigns active = covering_holders_loop assigns active grants ([], {})"

fun apply_mutation ::
  "guarded_mutation \<Rightarrow> resolved_grant list \<times> assignment list \<times> uuid set \<Rightarrow>
   resolved_grant list \<times> assignment list \<times> uuid set" where
  "apply_mutation (DeleteGrant i) (grants, assigns, active) =
     (filter (\<lambda>g. g_id g \<noteq> i) grants, assigns, active)"
| "apply_mutation (UpdateGrant i ps sel) (grants, assigns, active) =
     (map (\<lambda>g. if g_id g = i then g\<lparr>g_patterns := ps, g_selector := sel\<rparr> else g) grants, assigns, active)"
| "apply_mutation (DeleteRole rid) (grants, assigns, active) =
     (filter (\<lambda>g. g_subject g \<noteq> SubjRole rid) grants, filter (\<lambda>a. a_role_id a \<noteq> rid) assigns, active)"
| "apply_mutation (SetUserRoles t u rids) (grants, assigns, active) =
     (grants,
      filter (\<lambda>a. \<not> (a_tenant_id a = t \<and> a_user_id a = u)) assigns @
        map (\<lambda>r. \<lparr>a_tenant_id = t, a_user_id = u, a_role_id = r\<rparr>) rids,
      active)"
| "apply_mutation (DeactivateUser u) (grants, assigns, active) = (grants, assigns, active - {u})"

section \<open>The guard\<close>

definition lock_sentinel :: "faults \<Rightarrow> database \<Rightarrow> uuid \<Rightarrow> access_grant_error + unit" where
  "lock_sentinel flt db sentinel =
     and_then (exec_stmt flt LockSentinel (sentinel \<in> set (tenants db))) (\<lambda>found.
       if \<not> found then Err SentinelMissing else Ok ())"

fun tenant_lockout_loop :: "tenant_holders \<Rightarrow> uuid list \<Rightarrow> lockout_verdict" where
  "tenant_lockout_loop post [] = Permitted"
| "tenant_lockout_loop post (t # ts) =
     (if holders_of post t = {} then TenantLockout else tenant_lockout_loop post ts)"

definition row_assignment :: "user_role_row \<Rightarrow> assignment" where
  "row_assignment a =
     \<lparr>a_tenant_id = ur_tenant_id a, a_user_id = ur_user_id a, a_role_id = ur_role_id a\<rparr>"

definition lockout_state :: "database \<Rightarrow> resolved_grant list \<times> assignment list \<times> uuid set" where
  "lockout_state db =
     (load_grants (resolve_rows (access_grants db)), map row_assignment (user_roles db),
      set (map user_id (filter user_is_active (users db))))"

definition compare_holders ::
  "resolved_grant list \<times> assignment list \<times> uuid set \<Rightarrow>
   resolved_grant list \<times> assignment list \<times> uuid set \<Rightarrow> lockout_verdict" where
  "compare_holders pre post =
     (let (pre_tenant, pre_global) = (case pre of (g, a, u) \<Rightarrow> covering_holders g a u);
          (post_tenant, post_global) = (case post of (g, a, u) \<Rightarrow> covering_holders g a u)
      in if pre_global \<noteq> {} \<and> post_global = {} then SystemLockout
         else tenant_lockout_loop post_tenant (map fst pre_tenant))"

definition check_lockout ::
  "faults \<Rightarrow> database \<Rightarrow> uuid \<Rightarrow> guarded_mutation \<Rightarrow> access_grant_error + lockout_verdict" where
  "check_lockout flt db sentinel mutation =
     and_then (lock_sentinel flt db sentinel) (\<lambda>_.
     and_then (exec_stmt flt SelectGrants (fst (lockout_state db))) (\<lambda>grants.
     and_then (exec_stmt flt SelectUsers (snd (snd (lockout_state db)))) (\<lambda>active.
     and_then (exec_stmt flt SelectUserRoles (fst (snd (lockout_state db)))) (\<lambda>assigns.
     Ok (compare_holders (grants, assigns, active) (apply_mutation mutation (grants, assigns, active)))))))"

section \<open>Who holds administrative authority\<close>

definition grant_covers :: "action \<Rightarrow> resolved_grant \<Rightarrow> bool" where
  "grant_covers a g \<longleftrightarrow> g_selector g = SelAll \<and> list_ex (\<lambda>p. pattern_matches p a) (g_patterns g)"

definition assigned :: "assignment list \<Rightarrow> uuid \<Rightarrow> uuid \<Rightarrow> uuid \<Rightarrow> bool" where
  "assigned assigns t u r \<longleftrightarrow> list_ex (\<lambda>a. a_tenant_id a = t \<and> a_user_id a = u \<and> a_role_id a = r) assigns"

definition tenant_holder ::
  "resolved_grant list \<times> assignment list \<times> uuid set \<Rightarrow> uuid \<Rightarrow> uuid \<Rightarrow> bool" where
  "tenant_holder st t u =
     (case st of (grants, assigns, active) \<Rightarrow>
        u \<in> active \<and>
        (\<exists>g \<in> set grants. grant_covers ACCESS_MANAGE g \<and>
           (case g_subject g of
              SubjUser v \<Rightarrow> v = u \<and> g_tenant_id g = Some t
            | SubjRole r \<Rightarrow> assigned assigns t u r)))"

definition system_holder :: "resolved_grant list \<times> assignment list \<times> uuid set \<Rightarrow> uuid \<Rightarrow> bool" where
  "system_holder st u =
     (case st of (grants, assigns, active) \<Rightarrow>
        u \<in> active \<and>
        (\<exists>g \<in> set grants. grant_covers SYSTEM_ACCESS_MANAGE g \<and>
           (case g_subject g of
              SubjUser v \<Rightarrow> v = u
            | SubjRole r \<Rightarrow> (\<exists>t. assigned assigns t u r))))"

lemma holders_of_simps [simp]:
  "holders_of [] t = {}" "holders_of ((k, S) # m) t = (if t = k then S else holders_of m t)"
  by (auto simp: holders_of_def)

lemma holders_of_entry_insert [simp]:
  "holders_of (entry_insert t u m) t' = (if t' = t then insert u (holders_of m t) else holders_of m t')"
proof (induction m)
  case (Cons e rest)
  then show ?case by (cases e; cases "t' = t") simp_all
qed simp

definition live_keys :: "tenant_holders \<Rightarrow> bool" where
  "live_keys m \<longleftrightarrow> (\<forall>t \<in> set (map fst m). holders_of m t \<noteq> {})"

lemma fst_entry_insert [simp]: "set (map fst (entry_insert t u m)) = insert t (set (map fst m))"
proof (induction m)
  case (Cons e rest)
  then show ?case by (cases e) auto
qed simp

lemma live_keys_entry_insert: "live_keys m \<Longrightarrow> live_keys (entry_insert t u m)"
  unfolding live_keys_def fst_entry_insert by auto

lemma role_holders_loop_spec:
  "role_holders_loop ct cs rid active as (pt, gl) = (pt', gl') \<Longrightarrow>
     gl' = gl \<union> {u. cs \<and> u \<in> active \<and> (\<exists>t. assigned as t u rid)} \<and>
     holders_of pt' t = holders_of pt t \<union>
       {u. ct \<and> u \<in> active \<and> assigned as t u rid} \<and>
     (live_keys pt \<longrightarrow> live_keys pt')"
proof (induction as arbitrary: pt gl)
  case (Cons a as)
  show ?case
  proof (cases "a_role_id a \<noteq> rid \<or> a_user_id a \<notin> active")
    case True
    then have "assigned (a # as) t u rid \<longleftrightarrow> assigned as t u rid" if "u \<in> active" for t u
      using that by (auto simp: assigned_def)
    with Cons.IH[of pt gl] Cons.prems True show ?thesis by (auto cong: conj_cong)
  next
    case False
    then have c: "assigned (a # as) t u rid \<longleftrightarrow>
        (t = a_tenant_id a \<and> u = a_user_id a) \<or> assigned as t u rid" for t u
      by (auto simp: assigned_def)
    let ?pt = "if ct then entry_insert (a_tenant_id a) (a_user_id a) pt else pt"
    let ?gl = "if cs then insert (a_user_id a) gl else gl"
    have "role_holders_loop ct cs rid active as (?pt, ?gl) = (pt', gl')" using Cons.prems False by simp
    note ih = Cons.IH[OF this]
    have "live_keys pt \<Longrightarrow> live_keys ?pt" by (simp add: live_keys_entry_insert)
    then show ?thesis using ih False unfolding c by (cases cs; cases ct) auto
  qed
qed (simp add: assigned_def)

definition grant_tenant_holders :: "assignment list \<Rightarrow> uuid set \<Rightarrow> resolved_grant \<Rightarrow> uuid \<Rightarrow> uuid set" where
  "grant_tenant_holders assigns active g t = {u. tenant_holder ([g], assigns, active) t u}"

definition grant_system_holders :: "assignment list \<Rightarrow> uuid set \<Rightarrow> resolved_grant \<Rightarrow> uuid set" where
  "grant_system_holders assigns active g = {u. system_holder ([g], assigns, active) u}"

lemmas grant_holders_defs = grant_tenant_holders_def grant_system_holders_def tenant_holder_def
  system_holder_def grant_covers_def

lemma covering_holders_loop_step:
  assumes "covering_holders_loop assigns active [g] (pt, gl) = (pt', gl')"
  shows "gl' = gl \<union> grant_system_holders assigns active g"
    "holders_of pt' t = holders_of pt t \<union> grant_tenant_holders assigns active g t"
    "live_keys pt \<Longrightarrow> live_keys pt'"
proof -
  have "gl' = gl \<union> grant_system_holders assigns active g \<and>
    holders_of pt' t = holders_of pt t \<union> grant_tenant_holders assigns active g t \<and>
    (live_keys pt \<longrightarrow> live_keys pt')"
  proof (cases "g_subject g")
    case (SubjUser u)
    then show ?thesis
      using assms by (cases "g_tenant_id g")
        (auto simp: grant_holders_defs Let_def live_keys_entry_insert split: if_splits)
  next
    case (SubjRole r)
    show ?thesis
    proof (cases "g_selector g = SelAll \<and> (list_ex (\<lambda>p. pattern_matches p ACCESS_MANAGE) (g_patterns g) \<or>
        list_ex (\<lambda>p. pattern_matches p SYSTEM_ACCESS_MANAGE) (g_patterns g))")
      case True
      then have "role_holders_loop (list_ex (\<lambda>p. pattern_matches p ACCESS_MANAGE) (g_patterns g))
          (list_ex (\<lambda>p. pattern_matches p SYSTEM_ACCESS_MANAGE) (g_patterns g)) r active assigns (pt, gl) = (pt', gl')"
        using assms SubjRole by (auto simp: Let_def split: if_splits)
      from role_holders_loop_spec[OF this, of t] True SubjRole show ?thesis
        by (auto simp: grant_holders_defs)
    next
      case False
      then show ?thesis using assms SubjRole by (auto simp: grant_holders_defs Let_def split: if_splits)
    qed
  qed
  then show "gl' = gl \<union> grant_system_holders assigns active g"
    "holders_of pt' t = holders_of pt t \<union> grant_tenant_holders assigns active g t"
    "live_keys pt \<Longrightarrow> live_keys pt'" by auto
qed

lemma covering_holders_loop_Cons:
  "covering_holders_loop assigns active (g # gs) acc =
     covering_holders_loop assigns active gs (covering_holders_loop assigns active [g] acc)"
  by (cases acc) simp

declare covering_holders_loop.simps(2) [simp del]

lemma covering_holders_loop_spec:
  assumes "covering_holders_loop assigns active gs (pt, gl) = (pt', gl')"
  shows "gl' = gl \<union> (\<Union>g \<in> set gs. grant_system_holders assigns active g) \<and>
    holders_of pt' t = holders_of pt t \<union> (\<Union>g \<in> set gs. grant_tenant_holders assigns active g t) \<and>
    (live_keys pt \<longrightarrow> live_keys pt')"
  using assms
proof (induction gs arbitrary: pt gl)
  case (Cons g gs)
  obtain pt1 gl1 where st: "covering_holders_loop assigns active [g] (pt, gl) = (pt1, gl1)" by fastforce
  with Cons.prems have "covering_holders_loop assigns active gs (pt1, gl1) = (pt', gl')"
    by (simp add: covering_holders_loop_Cons[of _ _ g gs])
  from Cons.IH[OF this] covering_holders_loop_step[OF st] show ?case by auto
qed simp

lemma holder_single:
  "tenant_holder (grants, assigns, active) t u \<longleftrightarrow> (\<exists>g \<in> set grants. u \<in> grant_tenant_holders assigns active g t)"
  "system_holder (grants, assigns, active) u \<longleftrightarrow> (\<exists>g \<in> set grants. u \<in> grant_system_holders assigns active g)"
  unfolding grant_tenant_holders_def grant_system_holders_def tenant_holder_def system_holder_def
    mem_Collect_eq prod.case list.set bex_simps by blast+

lemma covering_holders_spec:
  assumes "covering_holders grants assigns active = (pt, gl)"
  shows "gl = {u. system_holder (grants, assigns, active) u}"
    "holders_of pt t = {u. tenant_holder (grants, assigns, active) t u}"
    "set (map fst pt) = {t. \<exists>u. tenant_holder (grants, assigns, active) t u}"
proof -
  note sp = covering_holders_loop_spec[OF assms[unfolded covering_holders_def]]
  show "gl = {u. system_holder (grants, assigns, active) u}"
    using sp by (auto simp: holder_single)
  have h: "holders_of pt t = {u. tenant_holder (grants, assigns, active) t u}" for t
    using sp[of t] by (auto simp: holder_single)
  then show "holders_of pt t = {u. tenant_holder (grants, assigns, active) t u}" .
  have "live_keys []" by (simp add: live_keys_def)
  then have "live_keys pt" using sp by blast
  moreover have "t \<in> set (map fst pt)" if "holders_of pt t \<noteq> {}" for t
    using that by (auto simp: holders_of_def split: option.splits dest: map_of_SomeD intro: rev_image_eqI)
  ultimately show "set (map fst pt) = {t. \<exists>u. tenant_holder (grants, assigns, active) t u}"
    using h unfolding live_keys_def by blast
qed

section \<open>Verdicts\<close>

lemma tenant_lockout_loop_eq:
  "tenant_lockout_loop post ts = (if list_ex (\<lambda>t. holders_of post t = {}) ts then TenantLockout else Permitted)"
  by (induction ts) auto

definition loses_tenant ::
  "resolved_grant list \<times> assignment list \<times> uuid set \<Rightarrow>
   resolved_grant list \<times> assignment list \<times> uuid set \<Rightarrow> bool" where
  "loses_tenant pre post \<longleftrightarrow> (\<exists>t. (\<exists>u. tenant_holder pre t u) \<and> (\<nexists>u. tenant_holder post t u))"

definition loses_system ::
  "resolved_grant list \<times> assignment list \<times> uuid set \<Rightarrow>
   resolved_grant list \<times> assignment list \<times> uuid set \<Rightarrow> bool" where
  "loses_system pre post \<longleftrightarrow> (\<exists>u. system_holder pre u) \<and> (\<nexists>u. system_holder post u)"

lemma compare_holders_eq:
  "compare_holders pre post =
     (if loses_system pre post then SystemLockout
      else if loses_tenant pre post then TenantLockout else Permitted)"
proof -
  obtain g a u g' a' u' where st: "pre = (g, a, u)" "post = (g', a', u')"
    by (cases pre, cases post) auto
  obtain pt gl pt' gl' where h: "covering_holders g a u = (pt, gl)" "covering_holders g' a' u' = (pt', gl')"
    by (meson surj_pair)
  note s = covering_holders_spec[OF h(1)] and s' = covering_holders_spec[OF h(2)]
  have "list_ex (\<lambda>t. holders_of pt' t = {}) (map fst pt) \<longleftrightarrow> loses_tenant pre post"
    unfolding list_ex_iff s(3) s'(2) st loses_tenant_def by auto
  moreover have "(gl \<noteq> {} \<and> gl' = {}) \<longleftrightarrow> loses_system pre post"
    unfolding s(1) s'(1) st loses_system_def by auto
  ultimately show ?thesis
    by (simp add: compare_holders_def st h tenant_lockout_loop_eq)
qed

lemma check_lockout_Ok_iff:
  "check_lockout flt db sentinel mutation = Ok v \<longleftrightarrow>
     flt LockSentinel = None \<and> flt SelectGrants = None \<and> flt SelectUsers = None \<and>
     flt SelectUserRoles = None \<and> sentinel \<in> set (tenants db) \<and>
     v = compare_holders (lockout_state db) (apply_mutation mutation (lockout_state db))"
  by (auto simp: check_lockout_def lock_sentinel_def result_simps split: if_splits)

section \<open>Comparing authority states\<close>

text \<open>What of a grant the holder sets depend on.\<close>

definition grant_auth :: "resolved_grant \<Rightarrow> grant_subject \<times> uuid option \<times> action_pattern list \<times> selector" where
  "grant_auth g = (g_subject g, g_tenant_id g, g_patterns g, g_selector g)"

definition authority_le ::
  "resolved_grant list \<times> assignment list \<times> uuid set \<Rightarrow>
   resolved_grant list \<times> assignment list \<times> uuid set \<Rightarrow> bool" where
  "authority_le st st' =
     (case (st, st') of ((gs, as, ac), (gs', as', ac')) \<Rightarrow>
        grant_auth ` set gs \<subseteq> grant_auth ` set gs' \<and> set as \<subseteq> set as' \<and> ac \<subseteq> ac')"

lemma grant_auth_covers: "grant_auth g = grant_auth g' \<Longrightarrow> grant_covers a g = grant_covers a g'"
  by (simp add: grant_auth_def grant_covers_def)

lemma assigned_mono: "set as \<subseteq> set as' \<Longrightarrow> assigned as t u r \<Longrightarrow> assigned as' t u r"
  by (auto simp: assigned_def list_ex_iff)

lemma grant_auth_image:
  assumes "grant_auth ` set gs \<subseteq> grant_auth ` set gs'" "g \<in> set gs"
  obtains g' where "g' \<in> set gs'" "grant_auth g = grant_auth g'"
  using assms by (metis (no_types, lifting) image_eqI image_iff subsetD)

lemma tenant_holder_mono:
  assumes "authority_le st st'" "tenant_holder st t u"
  shows "tenant_holder st' t u"
proof -
  obtain gs as ac gs' as' ac' where st: "st = (gs, as, ac)" "st' = (gs', as', ac')"
    by (cases st, cases st') auto
  with assms(2) obtain g where g: "u \<in> ac" "g \<in> set gs" "grant_covers ACCESS_MANAGE g"
    "case g_subject g of SubjUser v \<Rightarrow> v = u \<and> g_tenant_id g = Some t | SubjRole r \<Rightarrow> assigned as t u r"
    unfolding tenant_holder_def prod.case by blast
  with assms(1) st obtain g' where g': "g' \<in> set gs'" "grant_auth g = grant_auth g'"
    by (auto simp: authority_le_def elim: grant_auth_image)
  have "case g_subject g' of SubjUser v \<Rightarrow> v = u \<and> g_tenant_id g' = Some t | SubjRole r \<Rightarrow> assigned as' t u r"
    using g(4) g'(2) assms(1) st assigned_mono
    by (auto simp: grant_auth_def authority_le_def split: grant_subject.splits)
  then show ?thesis
    using g g' grant_auth_covers[OF g'(2)] assms(1) st
    unfolding tenant_holder_def prod.case by (auto simp: authority_le_def)
qed

lemma system_holder_mono:
  assumes "authority_le st st'" "system_holder st u"
  shows "system_holder st' u"
proof -
  obtain gs as ac gs' as' ac' where st: "st = (gs, as, ac)" "st' = (gs', as', ac')"
    by (cases st, cases st') auto
  with assms(2) obtain g where g: "u \<in> ac" "g \<in> set gs" "grant_covers SYSTEM_ACCESS_MANAGE g"
    "case g_subject g of SubjUser v \<Rightarrow> v = u | SubjRole r \<Rightarrow> \<exists>t. assigned as t u r"
    unfolding system_holder_def prod.case by blast
  with assms(1) st obtain g' where g': "g' \<in> set gs'" "grant_auth g = grant_auth g'"
    by (auto simp: authority_le_def elim: grant_auth_image)
  have "case g_subject g' of SubjUser v \<Rightarrow> v = u | SubjRole r \<Rightarrow> \<exists>t. assigned as' t u r"
  proof -
    have le: "set as \<subseteq> set as'" and "g_subject g' = g_subject g"
      using assms(1) st g'(2) by (simp_all add: authority_le_def grant_auth_def)
    then show ?thesis using g(4) assigned_mono[OF le] by (cases "g_subject g") (simp, force)
  qed
  then show ?thesis
    using g g' grant_auth_covers[OF g'(2)] assms(1) st
    unfolding system_holder_def prod.case by (auto simp: authority_le_def)
qed

text \<open>No plane that has a holder in the first state is without one in the second.\<close>

definition keeps_holders ::
  "resolved_grant list \<times> assignment list \<times> uuid set \<Rightarrow>
   resolved_grant list \<times> assignment list \<times> uuid set \<Rightarrow> bool" where
  "keeps_holders st st' \<longleftrightarrow> \<not> loses_system st st' \<and> \<not> loses_tenant st st'"

lemma Permitted_keeps_holders:
  assumes "check_lockout flt db sentinel mutation = Ok Permitted"
    and "authority_le (apply_mutation mutation (lockout_state db)) st"
  shows "keeps_holders (lockout_state db) st"
proof -
  let ?sim = "apply_mutation mutation (lockout_state db)"
  have "Permitted = compare_holders (lockout_state db) ?sim"
    using assms(1) by (auto simp: check_lockout_Ok_iff)
  then have "\<not> loses_system (lockout_state db) ?sim" "\<not> loses_tenant (lockout_state db) ?sim"
    by (auto simp: compare_holders_eq split: if_splits)
  then show ?thesis
    using tenant_holder_mono[OF assms(2)] system_holder_mono[OF assms(2)]
    unfolding keeps_holders_def loses_system_def loses_tenant_def by blast
qed

section \<open>The simulated post-state and the database\<close>

lemma map_filter_commute:
  assumes "\<And>x y. f x = Some y \<Longrightarrow> Q y \<longleftrightarrow> P x"
  shows "List.map_filter f (filter P xs) = filter Q (List.map_filter f xs)"
  by (induction xs) (auto simp: List.map_filter_def assms split: option.splits)

lemma authority_le_refl [simp]: "authority_le st st"
  by (cases st) (simp add: authority_le_def)

lemma delete_grant_simulated:
  assumes "delete_grant flt db i = Ok db'"
  shows "lockout_state db' = apply_mutation (DeleteGrant i) (lockout_state db)"
proof -
  have "List.map_filter row_grant (filter (\<lambda>r. row_id r \<noteq> i) (access_grants db)) =
      filter (\<lambda>g. g_id g \<noteq> i) (List.map_filter row_grant (access_grants db))"
    by (rule map_filter_commute) (simp add: row_grant_Some_iff)
  with assms show ?thesis by (auto simp: delete_grant_Ok lockout_state_def)
qed

lemma update_grant_simulated:
  assumes "list_all storable_pattern (gu_patterns upd)" "update_grant flt db db i now upd = Ok db'"
  shows "authority_le (apply_mutation (UpdateGrant i (gu_patterns upd) (gu_selector upd)) (lockout_state db))
    (lockout_state db')"
proof -
  let ?f = "\<lambda>r. if row_id r = i then updated_row now upd r else r"
  let ?sim = "\<lambda>g. if g_id g = i then g\<lparr>g_patterns := gu_patterns upd, g_selector := gu_selector upd\<rparr> else g"
  from assms(2) have d: "db' = db\<lparr>access_grants := map ?f (access_grants db)\<rparr>"
    and sel: "gu_selector upd = SelAll" by (rule update_grant_Ok, blast)+
  have "grant_auth (?sim g) \<in> grant_auth ` set (List.map_filter row_grant (map ?f (access_grants db)))"
    if "g \<in> set (List.map_filter row_grant (access_grants db))" for g
  proof -
    from that obtain r where r: "r \<in> set (access_grants db)" and rg: "row_grant r = Some g"
      unfolding set_map_filter_iff by blast
    have g: "g_id g = row_id r" "g_tenant_id g = row_tenant_id r" "g_subject g = subject_from_row r"
      using rg by (simp_all add: row_grant_Some_iff)
    obtain g' where g': "row_grant (?f r) = Some g'" "grant_auth g' = grant_auth (?sim g)"
    proof (cases "row_id r = i")
      case True
      then show thesis
        using that[OF _ refl] row_grant_updated[OF assms(1), of now r] g sel that
        by (simp add: grant_auth_def)
    next
      case False
      then show thesis using that rg g by simp
    qed
    have "g' \<in> set (List.map_filter row_grant (map ?f (access_grants db)))"
      unfolding set_map_filter_iff set_map using r g'(1) by blast
    then show ?thesis unfolding g'(2)[symmetric] by (rule imageI)
  qed
  then have "grant_auth ` set (map ?sim (List.map_filter row_grant (access_grants db))) \<subseteq>
      grant_auth ` set (List.map_filter row_grant (map ?f (access_grants db)))"
    unfolding set_map[of ?sim] image_subset_iff ball_simps by blast
  then show ?thesis
    unfolding d lockout_state_def apply_mutation.simps authority_le_def prod.case
    by (simp del: set_map)
qed

section \<open>Properties\<close>

text \<open>The holder sets of the lockout guard are exact: the global set is the set of active users
  with a covering system grant of their own or of an assigned role, and the set of a tenant is the
  set of active users with a covering grant in that tenant or of a role assigned there.\<close>

theorem covering_holders_exact:
  "snd (covering_holders grants assigns active) = {u. system_holder (grants, assigns, active) u} \<and>
   holders_of (fst (covering_holders grants assigns active)) t =
     {u. tenant_holder (grants, assigns, active) t u}"
  using covering_holders_spec[of grants assigns active] by (metis prod.collapse)

text \<open>The verdict of the guard is exact: it reports a system lockout exactly when the mutation
  takes the last system holder, otherwise a tenant lockout exactly when some tenant that had a
  holder has none afterwards, and otherwise permits.\<close>

theorem check_lockout_verdict:
  assumes "check_lockout flt db sentinel mutation = Ok v"
  shows "v = (let pre = lockout_state db; post = apply_mutation mutation pre in
    if (\<exists>u. system_holder pre u) \<and> (\<nexists>u. system_holder post u) then SystemLockout
    else if \<exists>t. (\<exists>u. tenant_holder pre t u) \<and> (\<nexists>u. tenant_holder post t u) then TenantLockout
    else Permitted)"
  using assms
  by (simp add: check_lockout_Ok_iff compare_holders_eq loses_system_def loses_tenant_def Let_def)

end
