(* ===== verification/Access_Engine.thy ===== *)
theory Access_Engine
  imports Access_Lockout
begin

text \<open>
  The access decision point (\<open>crates/ui/controller-core/src/access/mod.rs\<close>) and its surface-action
  registry (\<open>crates/ui/web-api/src/surface_action_registry.rs\<close>). The concurrent cache (the crate
  \<open>moka\<close>) is a parameter: a record of its three operations, with \<open>cache_laws\<close> stating what the engine
  relies on; entries may vanish at any time. A call reads the cache, the roles and the grants at
  moments of its own, while other calls, writes and flushes go on. The theorems give the exact condition of every
  decision, the agreement of the target-aware gate, of visibility and of the capability summary
  with the decision core, and the bound on how old the authority behind a decision can be.
\<close>

section \<open>Errors, registry, cache\<close>

datatype access_engine_error =
    RoleResolution dberr
  | GrantResolution access_grant_error
  | TagResolution dberr

record dynamic_registry =
  is_registered :: "action \<Rightarrow> bool"
  registered_actions :: "action list"

record cached_authority =
  ca_grants :: "resolved_grant list"
  ca_loaded_at :: instant

record 'c cache_ops =
  cache_get :: "'c \<Rightarrow> uuid \<times> uuid \<Rightarrow> cached_authority option"
  cache_insert :: "'c \<Rightarrow> uuid \<times> uuid \<Rightarrow> cached_authority \<Rightarrow> 'c"
  cache_invalidate_all :: "'c \<Rightarrow> 'c"

definition cache_laws :: "'c cache_ops \<Rightarrow> bool" where
  "cache_laws ops \<longleftrightarrow>
     (\<forall>c k v k' w. cache_get ops (cache_insert ops c k v) k' = Some w \<longrightarrow>
        (k' = k \<and> w = v) \<or> (k' \<noteq> k \<and> cache_get ops c k' = Some w)) \<and>
     (\<forall>c k. cache_get ops (cache_invalidate_all ops c) k = None)"

record access_context =
  ctx_user_id :: uuid
  ctx_tenant_id :: uuid
  ctx_authority :: cached_authority
  ctx_scope :: "action_pattern list option"

definition ACCESS_CACHE_TTL :: int where "ACCESS_CACHE_TTL = 60"

text \<open>\<open>Result::ok\<close>.\<close>

definition result_ok :: "'e + 'a \<Rightarrow> 'a option" where
  "result_ok r = (case r of Inl _ \<Rightarrow> None | Inr a \<Rightarrow> Some a)"

lemma result_ok_Some_iff [simp]: "result_ok r = Some a \<longleftrightarrow> r = Ok a"
  by (simp add: result_ok_def split: sum.splits)

section \<open>The surface-action registry\<close>

text \<open>\<open>surface_ids\<close> are the ids the surface registry currently holds.\<close>

definition surface_is_registered :: "string list \<Rightarrow> action \<Rightarrow> bool" where
  "surface_is_registered surface_ids a =
     (if action_verb a \<noteq> Use then False
      else case surface_id (action_resource a) of
             Some sid \<Rightarrow> sid \<in> set surface_ids
           | None \<Rightarrow> False)"

definition surface_registered_actions :: "string list \<Rightarrow> action list" where
  "surface_registered_actions surface_ids =
     List.map_filter (\<lambda>sid. result_ok (action_from_str (''surface.'' @ sid @ '':use''))) surface_ids"

definition surface_action_registry :: "string list \<Rightarrow> dynamic_registry" where
  "surface_action_registry surface_ids =
     \<lparr>is_registered = surface_is_registered surface_ids,
      registered_actions = surface_registered_actions surface_ids\<rparr>"

section \<open>Resolving a principal\<close>

definition role_ids_of :: "database \<Rightarrow> uuid \<Rightarrow> uuid \<Rightarrow> uuid list" where
  "role_ids_of db tenant uid =
     map ur_role_id (filter (\<lambda>r. ur_tenant_id r = tenant \<and> ur_user_id r = uid) (user_roles db))"

definition load_roles :: "faults \<Rightarrow> database \<Rightarrow> uuid \<Rightarrow> uuid \<Rightarrow> access_engine_error + uuid list" where
  "load_roles flt db tenant uid =
     (case flt SelectUserRoles of
        Some e \<Rightarrow> Err (RoleResolution e)
      | None \<Rightarrow> Ok (role_ids_of db tenant uid))"

text \<open>The two queries are not in a transaction: the assignments are those of \<open>roles_db\<close> and the grants
  those of \<open>grants_db\<close>, and the entry is stamped with \<open>now\<close> after both.\<close>

definition load_authority ::
  "faults \<Rightarrow> database \<Rightarrow> database \<Rightarrow> instant \<Rightarrow> uuid \<Rightarrow> uuid \<Rightarrow> access_engine_error + cached_authority" where
  "load_authority flt roles_db grants_db now tenant uid =
     and_then (load_roles flt roles_db tenant uid) (\<lambda>role_ids.
     and_then (map_err GrantResolution (load_grants_for_principal flt grants_db tenant uid role_ids)) (\<lambda>load.
     Ok \<lparr>ca_grants = load_grants load, ca_loaded_at = now\<rparr>))"

definition elapsed :: "instant \<Rightarrow> instant \<Rightarrow> int" where
  "elapsed now t = max 0 (now - t)"

text \<open>What one call sees of the world, which others change while it waits: the cache and the clock at the
  lookup, the database at each query, the clock at the stamp, and the cache at the insertion. The
  call returns the cache after the insertion, when it makes one.\<close>

record 'c context_view =
  cv_lookup_cache :: 'c
  cv_lookup_now :: instant
  cv_roles_db :: database
  cv_grants_db :: database
  cv_stamp :: instant
  cv_insert_cache :: 'c

definition context_access ::
  "'c cache_ops \<Rightarrow> faults \<Rightarrow> 'c context_view \<Rightarrow> uuid \<Rightarrow> uuid \<Rightarrow> action_pattern list option \<Rightarrow>
   access_engine_error + (access_context \<times> 'c option)" where
  "context_access ops flt v tenant uid scope =
     (let load =
        and_then (load_authority flt (cv_roles_db v) (cv_grants_db v) (cv_stamp v) tenant uid) (\<lambda>entry.
        Ok (entry, Some (cache_insert ops (cv_insert_cache v) (tenant, uid) entry))) in
      and_then
        (case cache_get ops (cv_lookup_cache v) (tenant, uid) of
           Some entry \<Rightarrow>
             if elapsed (cv_lookup_now v) (ca_loaded_at entry) \<le> ACCESS_CACHE_TTL then Ok (entry, None) else load
         | None \<Rightarrow> load) (\<lambda>(entry, cache').
      Ok (\<lparr>ctx_user_id = uid, ctx_tenant_id = tenant, ctx_authority = entry, ctx_scope = scope\<rparr>, cache')))"

section \<open>Decisions\<close>

definition pattern_list_matches :: "action_pattern list \<Rightarrow> action \<Rightarrow> bool" where
  "pattern_list_matches ps a = list_ex (\<lambda>p. pattern_matches p a) ps"

definition matching_grants :: "access_context \<Rightarrow> action \<Rightarrow> resolved_grant list" where
  "matching_grants ctx a =
     filter (\<lambda>g. pattern_list_matches (g_patterns g) a) (ca_grants (ctx_authority ctx))"

definition scope_admits :: "access_context \<Rightarrow> action \<Rightarrow> bool" where
  "scope_admits ctx a =
     (case ctx_scope ctx of None \<Rightarrow> True | Some ps \<Rightarrow> pattern_list_matches ps a)"

definition is_dynamic_action :: "action \<Rightarrow> bool" where
  "is_dynamic_action a \<longleftrightarrow>
     plugin_type (action_resource a) \<noteq> None \<or> surface_id (action_resource a) \<noteq> None"

definition decidable_action :: "dynamic_registry option \<Rightarrow> action \<Rightarrow> bool" where
  "decidable_action registry a \<longleftrightarrow>
     (is_dynamic_action a \<longrightarrow> (case registry of None \<Rightarrow> False | Some r \<Rightarrow> is_registered r a))"

definition decide ::
  "dynamic_registry option \<Rightarrow> access_context \<Rightarrow> action \<Rightarrow> (target_ref \<times> uuid set) option \<Rightarrow> decision" where
  "decide registry ctx a target =
     (if \<not> decidable_action registry a then Deny UnknownAction
      else if matching_grants ctx a = [] then Deny NoGrant
      else if \<not> scope_admits ctx a then Deny OutOfScope
      else case target of
             None \<Rightarrow> Allow
           | Some (t, tags) \<Rightarrow>
               if list_ex (\<lambda>g. covers (g_selector g) t tags) (matching_grants ctx a)
               then Allow else Deny OutsideSelector)"

definition authorize :: "dynamic_registry option \<Rightarrow> access_context \<Rightarrow> action \<Rightarrow> decision" where
  "authorize registry ctx a = decide registry ctx a None"

definition live_host_tags :: "database \<Rightarrow> uuid \<Rightarrow> uuid \<Rightarrow> uuid set" where
  "live_host_tags db tenant host =
     set (map hta_tag_id (filter (\<lambda>x. hta_host_id x = host \<and>
       list_ex (\<lambda>t. tr_id t = hta_tag_id x \<and> tr_tenant_id t = tenant \<and> \<not> tr_deactivated t)
         (host_tags db)) (host_tag_assignments db)))"

definition load_host_tags ::
  "faults \<Rightarrow> database \<Rightarrow> uuid \<Rightarrow> uuid \<Rightarrow> access_engine_error + uuid set" where
  "load_host_tags flt db tenant host =
     (case flt SelectHostTags of
        Some e \<Rightarrow> Err (TagResolution e)
      | None \<Rightarrow> Ok (live_host_tags db tenant host))"

fun is_tags :: "selector \<Rightarrow> bool" where
  "is_tags (SelTags _) = True"
| "is_tags _ = False"

definition authorize_target ::
  "faults \<Rightarrow> database \<Rightarrow> dynamic_registry option \<Rightarrow> access_context \<Rightarrow> action \<Rightarrow> target_ref \<Rightarrow>
   access_engine_error + decision" where
  "authorize_target flt db registry ctx a target =
     (let needs_tags = list_ex (\<lambda>g. pattern_list_matches (g_patterns g) a \<and> is_tags (g_selector g))
            (ca_grants (ctx_authority ctx)) in
      and_then
        (if needs_tags then load_host_tags flt db (ctx_tenant_id ctx) (target_host_id target)
         else Ok {}) (\<lambda>tags.
      Ok (decide registry ctx a (Some (target, tags)))))"

definition visibility_access :: "access_context \<Rightarrow> action \<Rightarrow> visibility" where
  "visibility_access ctx a =
     (if \<not> scope_admits ctx a then VisNone
      else from_selectors (map g_selector (matching_grants ctx a)))"

definition dynamic_actions :: "dynamic_registry option \<Rightarrow> action list" where
  "dynamic_actions registry = (case registry of None \<Rightarrow> [] | Some r \<Rightarrow> registered_actions r)"

definition built_in_actions :: "action list" where
  "built_in_actions =
     concat (map (\<lambda>e. List.map_filter (\<lambda>ve. result_ok (action_from_str (ve_action_str ve))) (ce_verbs e)) CATALOG)"

definition allowed_actions :: "dynamic_registry option \<Rightarrow> access_context \<Rightarrow> action list" where
  "allowed_actions registry ctx =
     sort_key action_to_string
       (filter (\<lambda>a. authorize registry ctx a = Allow) (built_in_actions @ dynamic_actions registry))"

definition invalidate_subjects :: "'c cache_ops \<Rightarrow> 'c \<Rightarrow> 'c" where
  "invalidate_subjects ops cache = cache_invalidate_all ops cache"

definition apply_remote_invalidation :: "'c cache_ops \<Rightarrow> 'c \<Rightarrow> 'c" where
  "apply_remote_invalidation ops cache = cache_invalidate_all ops cache"

section \<open>The contract of a dynamic-action registry\<close>

text \<open>The documented contract of the trait, for the actions that have a textual form: an action is
  listed exactly when it is registered, and only dynamic actions are registered.\<close>

locale action_registry =
  fixes registered :: "action \<Rightarrow> bool"
    and listed :: "action list"
  assumes listed_iff: "a \<in> set listed \<longleftrightarrow>
      registered a \<and> wf_action a \<and> length (action_to_string a) \<le> MAX_PATTERN_LEN"
    and registered_dynamic: "registered a \<Longrightarrow> is_dynamic_action a"
begin

lemma listed_registered: "a \<in> set listed \<Longrightarrow> registered a \<and> is_dynamic_action a"
  using listed_iff registered_dynamic by blast

lemma listed_reparses: "a \<in> set listed \<Longrightarrow> action_from_str (action_to_string a) = Ok a"
  using listed_iff action_codec.parse_print by blast

end

lemma last_sep_unique:
  assumes "xs @ c # ys = xs' @ c # ys'" "c \<notin> set ys" "c \<notin> set ys'"
  shows "xs = xs' \<and> ys = ys'"
  using assms by (auto simp: append_eq_append_conv2 Cons_eq_append_conv append_eq_Cons_conv)

lemma surface_resource_string:
  assumes "wf_resource r" "as_str r = ''surface.'' @ sid"
  shows "surface_id r = Some sid"
proof -
  have "is_dynamic_resource r"
    unfolding dynamic_iff_prefix[OF assms(1)] assms(2) by (auto simp: starts_with_iff)
  then consider s where "r = Plugin s" | s where "r = Surface s" by (cases r) auto
  then show ?thesis
  proof cases
    case 1
    with assms(1) obtain q where "s = ''plugin.'' @ q" unfolding 1 wf_plugin_iff by blast
    with 1 assms(2) show ?thesis by simp
  next
    case 2
    with assms(2) show ?thesis by (simp add: surface_id_def strip_prefix_def)
  qed
qed

lemma surface_id_string: "surface_id r = Some sid \<Longrightarrow> as_str r = ''surface.'' @ sid"
  unfolding surface_id_def by (cases r) (simp_all only: resource.case option.distinct strip_prefix_Some_iff as_str.simps)

lemma surface_use_string:
  assumes "wf_action a"
  shows "action_to_string a = ''surface.'' @ sid @ '':use'' \<longleftrightarrow>
    action_verb a = Use \<and> surface_id (action_resource a) = Some sid"
proof
  assume "action_to_string a = ''surface.'' @ sid @ '':use''"
  then have eq: "as_str (action_resource a) @ CHR '':'' # verb_as_str (action_verb a) =
      (''surface.'' @ sid) @ CHR '':'' # verb_as_str Use"
    by (simp add: action_to_string_def)
  note u = last_sep_unique[OF eq verb_as_str_chars(2) verb_as_str_chars(2)]
  have "action_verb a = Use"
    by (rule verb_codec.print_inj) (simp_all only: u conjunct2[OF u] simp_thms)
  moreover have "surface_id (action_resource a) = Some sid"
    using assms by (intro surface_resource_string) (simp_all only: wf_action_def conjunct1[OF u])
  ultimately show "action_verb a = Use \<and> surface_id (action_resource a) = Some sid" ..
next
  assume "action_verb a = Use \<and> surface_id (action_resource a) = Some sid"
  then show "action_to_string a = ''surface.'' @ sid @ '':use''"
    using surface_id_string by (simp add: action_to_string_def)
qed

lemma surface_listed_iff:
  "a \<in> set (surface_registered_actions ids) \<longleftrightarrow>
     surface_is_registered ids a \<and> wf_action a \<and> length (action_to_string a) \<le> MAX_PATTERN_LEN"
proof -
  have "a \<in> set (surface_registered_actions ids) \<longleftrightarrow>
      (\<exists>sid \<in> set ids. action_from_str (''surface.'' @ sid @ '':use'') = Ok a)"
    unfolding surface_registered_actions_def set_map_filter_iff result_ok_Some_iff ..
  also have "\<dots> \<longleftrightarrow> wf_action a \<and> length (action_to_string a) \<le> MAX_PATTERN_LEN \<and>
      (\<exists>sid \<in> set ids. action_verb a = Use \<and> surface_id (action_resource a) = Some sid)"
    unfolding action_codec.parse_Ok_iff using surface_use_string by blast
  finally show ?thesis by (auto simp: surface_is_registered_def split: option.splits)
qed

interpretation surface_registry: action_registry "surface_is_registered ids" "surface_registered_actions ids"
  for ids
proof
  show "is_dynamic_action a" if "surface_is_registered ids a" for a
    using that by (auto simp: surface_is_registered_def is_dynamic_action_def split: if_splits option.splits)
qed (rule surface_listed_iff)

section \<open>The decision core\<close>

lemma matching_grants_iff:
  "g \<in> set (matching_grants ctx a) \<longleftrightarrow>
     g \<in> set (ca_grants (ctx_authority ctx)) \<and> pattern_list_matches (g_patterns g) a"
  by (auto simp: matching_grants_def)

lemma decide_Allow_iff:
  "decide registry ctx a target = Allow \<longleftrightarrow>
     decidable_action registry a \<and> scope_admits ctx a \<and>
     (\<exists>g. g \<in> set (matching_grants ctx a) \<and>
        (case target of None \<Rightarrow> True | Some (t, tags) \<Rightarrow> covers (g_selector g) t tags))"
  by (cases "matching_grants ctx a")
    (auto simp: decide_def list_ex_iff split: option.splits if_splits)

lemma decide_mono:
  assumes "decide registry ctx a target = Allow" "decidable_action registry' a" "scope_admits ctx' a"
    and "set (ca_grants (ctx_authority ctx)) \<subseteq> set (ca_grants (ctx_authority ctx'))"
  shows "decide registry' ctx' a target = Allow"
  using assms unfolding decide_Allow_iff matching_grants_iff by blast

lemma covers_tags_irrelevant: "\<not> is_tags sel \<Longrightarrow> covers sel t tags = covers sel t tags'"
  by (cases sel) simp_all

lemma decide_tags_irrelevant:
  assumes "\<not> list_ex (\<lambda>g. pattern_list_matches (g_patterns g) a \<and> is_tags (g_selector g))
    (ca_grants (ctx_authority ctx))"
  shows "decide registry ctx a (Some (t, tags)) = decide registry ctx a (Some (t, tags'))"
proof -
  have "list_ex (\<lambda>g. covers (g_selector g) t tags) (matching_grants ctx a) \<longleftrightarrow>
      list_ex (\<lambda>g. covers (g_selector g) t tags') (matching_grants ctx a)"
    unfolding list_ex_iff
  proof (rule bex_cong[OF refl])
    fix g assume "g \<in> set (matching_grants ctx a)"
    then have "\<not> is_tags (g_selector g)"
      using assms unfolding list_ex_iff matching_grants_iff by blast
    then show "covers (g_selector g) t tags = covers (g_selector g) t tags'"
      by (rule covers_tags_irrelevant)
  qed
  then show ?thesis by (simp add: decide_def)
qed

lemma authorize_target_Ok:
  assumes "authorize_target flt db registry ctx a target = Ok d"
  shows "d = decide registry ctx a
    (Some (target, live_host_tags db (ctx_tenant_id ctx) (target_host_id target)))"
proof (cases "list_ex (\<lambda>g. pattern_list_matches (g_patterns g) a \<and> is_tags (g_selector g))
    (ca_grants (ctx_authority ctx))")
  case True
  then show ?thesis
    using assms by (auto simp: authorize_target_def load_host_tags_def Let_def split: option.splits)
next
  case False
  then show ?thesis
    using assms decide_tags_irrelevant[OF False, of registry target "{}"]
    by (simp add: authorize_target_def Let_def)
qed

lemma visibility_decide:
  assumes "decidable_action registry a"
  shows "visible (visibility_access ctx a) t tags \<longleftrightarrow> decide registry ctx a (Some (t, tags)) = Allow"
  using assms by (auto simp: visibility_access_def decide_Allow_iff visible_from_selectors)

section \<open>The capability summary\<close>

lemma dynamic_action_resource:
  "wf_action a \<Longrightarrow> is_dynamic_action a \<longleftrightarrow> is_dynamic_resource (action_resource a)"
  by (simp add: is_dynamic_action_def dynamic_iff_namespace wf_action_def)

lemma built_in_actions_iff:
  "a \<in> set built_in_actions \<longleftrightarrow> wf_action a \<and> \<not> is_dynamic_action a"
proof
  assume "a \<in> set built_in_actions"
  then obtain e ve where e: "e \<in> set CATALOG" "ve \<in> set (ce_verbs e)"
    and pa: "action_from_str (ve_action_str ve) = Ok a"
    unfolding built_in_actions_def set_concat set_map by (auto simp: set_map_filter_iff)
  with action_to_from_string have w: "wf_action a" by blast
  have "action_resource a = ce_resource e" using catalog_parses[OF e] pa by auto
  then show "wf_action a \<and> \<not> is_dynamic_action a"
    using w dynamic_action_resource catalogD(2)[OF e(1)] by simp
next
  assume a: "wf_action a \<and> \<not> is_dynamic_action a"
  then obtain e ve where e: "e \<in> set CATALOG" "ve \<in> set (ce_verbs e)"
    "ce_resource e = action_resource a" "ve_verb ve = action_verb a"
    using wf_static_action_catalogued dynamic_action_resource by blast
  then have "action_from_str (ve_action_str ve) = Ok a" using catalog_parses by (cases a) auto
  then have "a \<in> set (List.map_filter (\<lambda>ve. result_ok (action_from_str (ve_action_str ve))) (ce_verbs e))"
    using e(2) by (auto simp: set_map_filter_iff)
  then show "a \<in> set built_in_actions" unfolding built_in_actions_def using e(1) by auto
qed

lemma built_in_length: "a \<in> set built_in_actions \<Longrightarrow> length (action_to_string a) \<le> MAX_PATTERN_LEN"
  unfolding built_in_actions_def set_concat set_map
  by (auto simp: set_map_filter_iff dest: action_to_from_string)

lemma allowed_actions_sorted: "sorted (map action_to_string (allowed_actions registry ctx))"
  by (simp add: allowed_actions_def)

lemma allowed_actions_none:
  "a \<in> set (allowed_actions None ctx) \<longleftrightarrow> wf_action a \<and> authorize None ctx a = Allow"
  by (auto simp: allowed_actions_def dynamic_actions_def built_in_actions_iff authorize_def
      decide_Allow_iff decidable_action_def)

context action_registry
begin

lemma allowed_exact:
  "a \<in> set (allowed_actions (Some \<lparr>is_registered = registered, registered_actions = listed\<rparr>) ctx) \<longleftrightarrow>
     wf_action a \<and> length (action_to_string a) \<le> MAX_PATTERN_LEN \<and>
     authorize (Some \<lparr>is_registered = registered, registered_actions = listed\<rparr>) ctx a = Allow"
  using built_in_actions_iff[of a] built_in_length[of a] listed_iff[of a] registered_dynamic[of a]
  by (auto simp: allowed_actions_def dynamic_actions_def authorize_def decide_Allow_iff decidable_action_def)

end

section \<open>Administrators of the store are administrators for the engine\<close>

text \<open>The grants of a principal with the given roles, and of a principal as it is in one state.\<close>

definition principal_grants :: "database \<Rightarrow> uuid \<Rightarrow> uuid \<Rightarrow> uuid list \<Rightarrow> resolved_grant list" where
  "principal_grants db tenant uid role_ids =
     load_grants (resolve_rows (filter (principal_row tenant uid role_ids) (access_grants db)))"

definition authority_grants :: "database \<Rightarrow> uuid \<Rightarrow> uuid \<Rightarrow> resolved_grant list" where
  "authority_grants db tenant uid = principal_grants db tenant uid (role_ids_of db tenant uid)"

lemma load_authority_Ok_iff:
  "load_authority flt roles_db grants_db now tenant uid = Ok entry \<longleftrightarrow>
     flt SelectUserRoles = None \<and> flt SelectGrants = None \<and>
     entry = \<lparr>ca_grants = principal_grants grants_db tenant uid (role_ids_of roles_db tenant uid), ca_loaded_at = now\<rparr>"
  by (auto simp: load_authority_def load_roles_def result_simps load_principal_Ok_iff principal_grants_def
      split: option.splits)

lemma assigned_role_ids:
  "assigned (map row_assignment (user_roles db)) t u r \<longleftrightarrow> r \<in> set (role_ids_of db t u)"
  by (auto simp: assigned_def list_ex_iff role_ids_of_def row_assignment_def)

lemma authority_grants_iff:
  "g \<in> set (authority_grants db t u) \<longleftrightarrow>
     (\<exists>row \<in> set (access_grants db). row_grant row = Some g) \<and>
     ((g_subject g = SubjUser u \<and> (g_tenant_id g = Some t \<or> g_tenant_id g = None)) \<or>
      (\<exists>r \<in> set (role_ids_of db t u). g_subject g = SubjRole r))"
  using principal_load_set[of no_faults db t u "role_ids_of db t u"]
  by (simp add: load_principal_Ok_iff no_faults_def authority_grants_def principal_grants_def del: load_resolve_rows)

lemma tenant_holder_grant:
  assumes "tenant_holder (lockout_state db) t u"
  shows "\<exists>g \<in> set (authority_grants db t u). grant_covers ACCESS_MANAGE g"
proof -
  obtain g where g: "g \<in> set (List.map_filter row_grant (access_grants db))" "grant_covers ACCESS_MANAGE g"
    "case g_subject g of SubjUser v \<Rightarrow> v = u \<and> g_tenant_id g = Some t
       | SubjRole r \<Rightarrow> assigned (map row_assignment (user_roles db)) t u r"
    using assms unfolding tenant_holder_def lockout_state_def prod.case load_resolve_rows by blast
  then have "g \<in> set (authority_grants db t u)"
    unfolding authority_grants_iff assigned_role_ids set_map_filter_iff by (auto split: grant_subject.splits)
  with g(2) show ?thesis by blast
qed

lemma system_holder_grant:
  assumes "system_holder (lockout_state db) u" "grants_inv db"
  shows "\<exists>t. \<exists>g \<in> set (authority_grants db t u). grant_covers SYSTEM_ACCESS_MANAGE g"
proof -
  obtain g where g0: "g \<in> set (List.map_filter row_grant (access_grants db))"
    "grant_covers SYSTEM_ACCESS_MANAGE g"
    "case g_subject g of SubjUser v \<Rightarrow> v = u
       | SubjRole r \<Rightarrow> \<exists>t. assigned (map row_assignment (user_roles db)) t u r"
    using assms(1) unfolding system_holder_def lockout_state_def prod.case load_resolve_rows by blast
  then obtain row where "row \<in> set (access_grants db)" "row_grant row = Some g"
    unfolding set_map_filter_iff by blast
  note g = this g0(2,3)
  have "grant_ok g" using assms(2) g(1,2) by (auto simp: grants_inv_iff row_ok_def dest!: bspec)
  moreover obtain p where p: "p \<in> set (g_patterns g)" "pattern_matches p SYSTEM_ACCESS_MANAGE"
    using g(3) by (auto simp: grant_covers_def list_ex_iff)
  moreover have "is_system (action_resource SYSTEM_ACCESS_MANAGE)" by code_simp
  ultimately have "g_tenant_id g = None" using stored_grant_plane by blast
  then have "\<exists>t. g \<in> set (authority_grants db t u)"
    using g(1,2,4) unfolding authority_grants_iff assigned_role_ids
    by (auto split: grant_subject.splits)
  with g(3) show ?thesis by blast
qed

lemma covering_grant_allows:
  assumes "g \<in> set (ca_grants (ctx_authority ctx))" "grant_covers a g" "ctx_scope ctx = None"
    "\<not> is_dynamic_action a"
  shows "decide registry ctx a target = Allow"
proof -
  have "g \<in> set (matching_grants ctx a)" "g_selector g = SelAll"
    using assms(1,2) by (auto simp: matching_grants_iff grant_covers_def pattern_list_matches_def)
  then show ?thesis
    using assms(3,4) unfolding decide_Allow_iff
    by (auto simp: decidable_action_def scope_admits_def split: option.splits)
qed

section \<open>The age of cached authority\<close>

text \<open>The states the engine has gone through, the latest first: the clock, the database and the cache.\<close>

record 'c engine_state =
  es_now :: instant
  es_db :: database
  es_cache :: 'c

text \<open>What a call sees are the states of its await points, in order, and the cache it inserts into is the
  present one. \<open>limit\<close> is the longest time from the first query to the stamp.\<close>

definition sees :: "int \<Rightarrow> 'c engine_state list \<Rightarrow> 'c context_view \<Rightarrow> bool" where
  "sees limit h v \<longleftrightarrow> (\<exists>i j k l. l \<le> k \<and> k \<le> j \<and> j \<le> i \<and> i < length h \<and>
     cv_lookup_cache v = es_cache (h ! i) \<and> cv_lookup_now v = es_now (h ! i) \<and>
     cv_roles_db v = es_db (h ! j) \<and> cv_grants_db v = es_db (h ! k) \<and> cv_stamp v = es_now (h ! l) \<and>
     cv_insert_cache v = es_cache (hd h) \<and> es_now (h ! l) - es_now (h ! j) \<le> limit)"

inductive engine_step :: "'c cache_ops \<Rightarrow> int \<Rightarrow> 'c engine_state list \<Rightarrow> 'c engine_state list \<Rightarrow> bool"
  for ops limit where
  step_tick: "0 \<le> d \<Longrightarrow> engine_step ops limit h ((hd h)\<lparr>es_now := es_now (hd h) + d\<rparr> # h)"
| step_write: "engine_step ops limit h ((hd h)\<lparr>es_db := db'\<rparr> # h)"
| step_context: "sees limit h v \<Longrightarrow> context_access ops flt v t u scope = Ok (ctx, Some c') \<Longrightarrow>
    engine_step ops limit h ((hd h)\<lparr>es_cache := c'\<rparr> # h)"
| step_evict: "(\<And>k v. cache_get ops c' k = Some v \<Longrightarrow> cache_get ops (es_cache (hd h)) k = Some v) \<Longrightarrow>
    engine_step ops limit h ((hd h)\<lparr>es_cache := c'\<rparr> # h)"
| step_flush: "engine_step ops limit h ((hd h)\<lparr>es_cache := invalidate_subjects ops (es_cache (hd h))\<rparr> # h)"
| step_remote_flush:
    "engine_step ops limit h ((hd h)\<lparr>es_cache := apply_remote_invalidation ops (es_cache (hd h))\<rparr> # h)"

definition engine_init :: "'c cache_ops \<Rightarrow> 'c engine_state list \<Rightarrow> bool" where
  "engine_init ops h \<longleftrightarrow> length h = 1 \<and> (\<forall>k. cache_get ops (es_cache (hd h)) k = None)"

text \<open>An entry was read from two states of the past, roles before grants, at most \<open>limit\<close> before its stamp.\<close>

definition entry_backed :: "int \<Rightarrow> 'c engine_state list \<Rightarrow> uuid \<times> uuid \<Rightarrow> cached_authority \<Rightarrow> bool" where
  "entry_backed limit h k e \<longleftrightarrow> (\<exists>i j. j \<le> i \<and> i < length h \<and> ca_loaded_at e - limit \<le> es_now (h ! i) \<and>
     ca_grants e = principal_grants (es_db (h ! j)) (fst k) (snd k) (role_ids_of (es_db (h ! i)) (fst k) (snd k)))"

definition engine_inv :: "'c cache_ops \<Rightarrow> int \<Rightarrow> 'c engine_state list \<Rightarrow> bool" where
  "engine_inv ops limit h \<longleftrightarrow> h \<noteq> [] \<and> sorted_wrt (\<lambda>s s'. es_now s' \<le> es_now s) h \<and>
     (\<forall>s \<in> set h. \<forall>k e. cache_get ops (es_cache s) k = Some e \<longrightarrow> entry_backed limit h k e)"

lemma context_access_Ok:
  assumes "context_access ops flt v t u scope = Ok (ctx, cache')"
  obtains entry where
    "ctx = \<lparr>ctx_user_id = u, ctx_tenant_id = t, ctx_authority = entry, ctx_scope = scope\<rparr>"
    "(cache_get ops (cv_lookup_cache v) (t, u) = Some entry \<and>
        elapsed (cv_lookup_now v) (ca_loaded_at entry) \<le> ACCESS_CACHE_TTL \<and> cache' = None) \<or>
     (entry = \<lparr>ca_grants = principal_grants (cv_grants_db v) t u (role_ids_of (cv_roles_db v) t u),
          ca_loaded_at = cv_stamp v\<rparr> \<and>
        cache' = Some (cache_insert ops (cv_insert_cache v) (t, u) entry))"
  using assms
  by (auto simp: context_access_def Let_def result_simps load_authority_Ok_iff split: option.splits if_splits)

lemma entry_backed_mono: "entry_backed limit h k e \<Longrightarrow> entry_backed limit (s # h) k e"
  unfolding entry_backed_def by (metis Suc_le_mono Suc_less_eq length_Cons nth_Cons_Suc)

lemma view_backed:
  "sees limit h v \<Longrightarrow> entry_backed limit h (t, u)
     \<lparr>ca_grants = principal_grants (cv_grants_db v) t u (role_ids_of (cv_roles_db v) t u), ca_loaded_at = cv_stamp v\<rparr>"
  unfolding sees_def entry_backed_def by fastforce

lemma history_times:
  assumes "engine_inv ops limit h" "j \<le> i" "i < length h"
  shows "es_now (h ! i) \<le> es_now (h ! j)"
  using assms sorted_wrt_nth_less[of "\<lambda>s s'. es_now s' \<le> es_now s" h j i]
  by (cases "j = i") (auto simp: engine_inv_def)

lemma inv_grow:
  assumes "engine_inv ops limit h" "es_now (hd h) \<le> es_now s"
    and "\<And>k e. cache_get ops (es_cache s) k = Some e \<Longrightarrow> entry_backed limit h k e"
  shows "engine_inv ops limit (s # h)"
proof -
  have "es_now q \<le> es_now s" if "q \<in> set h" for q
    using that assms(1,2) by (cases h) (fastforce simp: engine_inv_def)+
  then show ?thesis using assms(1,3) entry_backed_mono unfolding engine_inv_def by fastforce
qed

lemma inv_hd: "engine_inv ops limit h \<Longrightarrow> cache_get ops (es_cache (hd h)) k = Some e \<Longrightarrow> entry_backed limit h k e"
  unfolding engine_inv_def by (metis list.set_sel(1))

lemma context_age:
  assumes "engine_inv ops limit h" "sees limit h v" "context_access ops flt v t u scope = Ok (ctx, c')"
  shows "\<exists>i j. j \<le> i \<and> i < length h \<and> cv_lookup_now v - ACCESS_CACHE_TTL - limit \<le> es_now (h ! i) \<and>
    ca_grants (ctx_authority ctx) = principal_grants (es_db (h ! j)) t u (role_ids_of (es_db (h ! i)) t u)"
  using assms(3)
proof (rule context_access_Ok)
  fix entry
  assume c: "ctx = \<lparr>ctx_user_id = u, ctx_tenant_id = t, ctx_authority = entry, ctx_scope = scope\<rparr>"
    and o: "(cache_get ops (cv_lookup_cache v) (t, u) = Some entry \<and>
        elapsed (cv_lookup_now v) (ca_loaded_at entry) \<le> ACCESS_CACHE_TTL \<and> c' = None) \<or>
     (entry = \<lparr>ca_grants = principal_grants (cv_grants_db v) t u (role_ids_of (cv_roles_db v) t u),
          ca_loaded_at = cv_stamp v\<rparr> \<and>
        c' = Some (cache_insert ops (cv_insert_cache v) (t, u) entry))"
  obtain i j k l where v: "l \<le> k" "k \<le> j" "j \<le> i" "i < length h" "cv_lookup_cache v = es_cache (h ! i)"
    "cv_lookup_now v = es_now (h ! i)" "cv_roles_db v = es_db (h ! j)" "cv_grants_db v = es_db (h ! k)"
    "es_now (h ! l) - es_now (h ! j) \<le> limit"
    using assms(2) unfolding sees_def by blast
  from o show ?thesis
  proof
    assume hit: "cache_get ops (cv_lookup_cache v) (t, u) = Some entry \<and>
        elapsed (cv_lookup_now v) (ca_loaded_at entry) \<le> ACCESS_CACHE_TTL \<and> c' = None"
    then have "entry_backed limit h (t, u) entry"
      using assms(1) v(4,5) nth_mem unfolding engine_inv_def by metis
    moreover have "cv_lookup_now v - ACCESS_CACHE_TTL \<le> ca_loaded_at entry" using hit by (simp add: elapsed_def)
    ultimately show ?thesis unfolding entry_backed_def c by fastforce
  next
    assume load: "entry = \<lparr>ca_grants = principal_grants (cv_grants_db v) t u (role_ids_of (cv_roles_db v) t u),
          ca_loaded_at = cv_stamp v\<rparr> \<and> c' = Some (cache_insert ops (cv_insert_cache v) (t, u) entry)"
    have "es_now (h ! i) \<le> es_now (h ! j)" "es_now (h ! j) \<le> es_now (h ! l)"
      using history_times[OF assms(1)] v(1-4) by auto
    then have "cv_lookup_now v - ACCESS_CACHE_TTL - limit \<le> es_now (h ! j)"
      using v(6,9) by (simp add: ACCESS_CACHE_TTL_def)
    then show ?thesis using load v c by (intro exI[of _ j] exI[of _ k]) simp
  qed
qed

locale authority_cache =
  fixes ops :: "'c cache_ops"
  assumes laws: "cache_laws ops"
begin

lemma get_insert:
  "cache_get ops (cache_insert ops c k v) k' = Some w \<Longrightarrow>
     (k' = k \<and> w = v) \<or> cache_get ops c k' = Some w"
  using laws unfolding cache_laws_def by blast

lemma get_flushed: "cache_get ops (cache_invalidate_all ops c) k = None"
  using laws unfolding cache_laws_def by blast

lemma inserted_backed:
  assumes "engine_inv ops limit h" "sees limit h v" "context_access ops flt v t u scope = Ok (ctx, Some c')"
    and "cache_get ops c' k = Some e"
  shows "entry_backed limit h k e"
  using assms(3)
proof (rule context_access_Ok)
  fix entry
  assume "(cache_get ops (cv_lookup_cache v) (t, u) = Some entry \<and>
        elapsed (cv_lookup_now v) (ca_loaded_at entry) \<le> ACCESS_CACHE_TTL \<and> Some c' = None) \<or>
     (entry = \<lparr>ca_grants = principal_grants (cv_grants_db v) t u (role_ids_of (cv_roles_db v) t u),
          ca_loaded_at = cv_stamp v\<rparr> \<and>
        Some c' = Some (cache_insert ops (cv_insert_cache v) (t, u) entry))"
  moreover have "cv_insert_cache v = es_cache (hd h)" using assms(2) by (auto simp: sees_def)
  ultimately have "(k = (t, u) \<and> e = \<lparr>ca_grants = principal_grants (cv_grants_db v) t u (role_ids_of (cv_roles_db v) t u),
          ca_loaded_at = cv_stamp v\<rparr>) \<or> cache_get ops (es_cache (hd h)) k = Some e"
    using assms(4) get_insert by fastforce
  then show ?thesis using view_backed[OF assms(2)] inv_hd[OF assms(1)] by blast
qed

lemma inv_preserved:
  assumes "engine_inv ops limit h" "engine_step ops limit h h'"
  shows "engine_inv ops limit h'"
  using assms(2)
proof cases
  case (step_context v flt t u scope ctx c')
  then show ?thesis using inserted_backed[OF assms(1)] by (auto intro!: inv_grow assms(1))
qed (auto intro!: inv_grow assms(1) inv_hd simp: invalidate_subjects_def apply_remote_invalidation_def get_flushed)

end

sublocale authority_cache \<subseteq> engine_sm: state_machine "engine_init ops" "engine_step ops limit" "engine_inv ops limit"
  for limit
proof
  show "engine_inv ops limit h" if "engine_init ops h" for h
    using that by (auto simp: engine_init_def engine_inv_def length_Suc_conv)
qed (rule inv_preserved)

context authority_cache
begin

lemma reachable_inv: "engine_init ops h \<Longrightarrow> (engine_step ops limit)\<^sup>*\<^sup>* h h' \<Longrightarrow> engine_inv ops limit h'"
  by (rule engine_sm.inv_reachable)

end

text \<open>A cache without a capacity bound, as an association list.\<close>

definition list_cache :: "((uuid \<times> uuid) \<times> cached_authority) list cache_ops" where
  "list_cache = \<lparr>cache_get = map_of, cache_insert = (\<lambda>c k v. (k, v) # c), cache_invalidate_all = (\<lambda>_. [])\<rparr>"

lemma list_cache_laws: "cache_laws list_cache"
  by (auto simp: cache_laws_def list_cache_def split: if_splits)

interpretation list_cache: authority_cache list_cache
  by unfold_locales (rule list_cache_laws)

section \<open>Sample data\<close>

definition sample_ctx :: access_context where
  "sample_ctx = \<lparr>ctx_user_id = 5, ctx_tenant_id = 1,
     ctx_authority = \<lparr>ca_grants = authority_grants sample_db1 1 5, ca_loaded_at = 100\<rparr>, ctx_scope = None\<rparr>"

text \<open>A history in which a load is under way while its grant is revoked and the cache flushed: it read both
  tables at time 100, and at 101 it stamps and inserts what it read.\<close>

definition revoked_db :: database where "revoked_db = sample_db1\<lparr>access_grants := []\<rparr>"

definition old_entry :: cached_authority where
  "old_entry = \<lparr>ca_grants = authority_grants sample_db1 1 5, ca_loaded_at = 101\<rparr>"

definition sample_history :: "((uuid \<times> uuid) \<times> cached_authority) list engine_state list" where
  "sample_history = [
     \<lparr>es_now = 161, es_db = revoked_db, es_cache = [((1, 5), old_entry)]\<rparr>,
     \<lparr>es_now = 101, es_db = revoked_db, es_cache = [((1, 5), old_entry)]\<rparr>,
     \<lparr>es_now = 101, es_db = revoked_db, es_cache = []\<rparr>,
     \<lparr>es_now = 100, es_db = revoked_db, es_cache = []\<rparr>,
     \<lparr>es_now = 100, es_db = revoked_db, es_cache = []\<rparr>,
     \<lparr>es_now = 100, es_db = sample_db1, es_cache = []\<rparr>]"

definition loading_view :: "((uuid \<times> uuid) \<times> cached_authority) list context_view" where
  "loading_view = \<lparr>cv_lookup_cache = [], cv_lookup_now = 100, cv_roles_db = sample_db1, cv_grants_db = sample_db1,
     cv_stamp = 101, cv_insert_cache = []\<rparr>"

definition hit_view :: "((uuid \<times> uuid) \<times> cached_authority) list context_view" where
  "hit_view = \<lparr>cv_lookup_cache = [((1, 5), old_entry)], cv_lookup_now = 161, cv_roles_db = revoked_db,
     cv_grants_db = revoked_db, cv_stamp = 161, cv_insert_cache = [((1, 5), old_entry)]\<rparr>"

lemma engine_sample_init: "engine_init list_cache (drop 5 sample_history)"
  by (simp add: engine_init_def list_cache_def sample_history_def)

lemma loading_context:
  "context_access list_cache no_faults loading_view 1 5 None =
     Ok (\<lparr>ctx_user_id = 5, ctx_tenant_id = 1, ctx_authority = old_entry, ctx_scope = None\<rparr>, Some [((1, 5), old_entry)])"
  by (simp add: context_access_def list_cache_def loading_view_def Let_def load_authority_def load_roles_def
      no_faults_def load_grants_for_principal_def exec_stmt_def authority_grants_def principal_grants_def old_entry_def)

lemma hit_context:
  "context_access list_cache no_faults hit_view 1 5 None =
     Ok (\<lparr>ctx_user_id = 5, ctx_tenant_id = 1, ctx_authority = old_entry, ctx_scope = None\<rparr>, None)"
  by (simp add: context_access_def list_cache_def hit_view_def Let_def elapsed_def old_entry_def ACCESS_CACHE_TTL_def)

lemma hit_seen: "sees 1 sample_history hit_view"
  by (auto simp: sees_def hit_view_def sample_history_def intro!: exI[of _ 0])

lemma loading_seen: "sees 1 (drop 2 sample_history) loading_view"
  unfolding sees_def by (rule exI[of _ 3], rule exI[of _ 3], rule exI[of _ 3])
    (rule exI[of _ 0], simp add: loading_view_def sample_history_def numeral_eq_Suc)

lemma sample_run: "(engine_step list_cache 1)\<^sup>*\<^sup>* (drop 5 sample_history) sample_history"
proof -
  note h = sample_history_def
  let ?s = "\<lambda>n. drop n sample_history"
  have "engine_step list_cache 1 (?s 5) (?s 4)"
    using step_write[of list_cache 1 "?s 5" revoked_db] by (simp add: h)
  moreover have "engine_step list_cache 1 (?s 4) (?s 3)"
    using step_flush[of list_cache 1 "?s 4"] by (simp add: h invalidate_subjects_def list_cache_def)
  moreover have "engine_step list_cache 1 (?s 3) (?s 2)"
    using step_tick[of 1 list_cache 1 "?s 3"] by (simp add: h)
  moreover have "engine_step list_cache 1 (?s 2) (?s 1)"
    using step_context[OF loading_seen loading_context] by (simp add: h)
  moreover have "engine_step list_cache 1 (?s 1) (?s 0)"
    using step_tick[of 60 list_cache 1 "?s 1"] by (simp add: h)
  ultimately show ?thesis by (metis converse_rtranclp_into_rtranclp rtranclp.rtrancl_refl drop_0)
qed


lemma sample_static: "\<not> is_dynamic_action ACCESS_MANAGE"
  by code_simp

lemma sample_load: "load_authority no_faults sample_db1 sample_db1 100 1 5 = Ok (ctx_authority sample_ctx)"
  by (simp add: load_authority_Ok_iff no_faults_def sample_ctx_def authority_grants_def)

section \<open>Properties\<close>

text \<open>C7. The decision rule: an action is allowed exactly when it is decidable (built in, or a
  registered dynamic action), the credential's scope admits it, and one and the same grant both
  matches it and, for a targeted decision, covers the target.\<close>

theorem decide_allow_exact:
  "decide registry ctx a target = Allow \<longleftrightarrow>
     (is_dynamic_action a \<longrightarrow> (\<exists>r. registry = Some r \<and> is_registered r a)) \<and>
     (\<forall>ps. ctx_scope ctx = Some ps \<longrightarrow> list_ex (\<lambda>p. pattern_matches p a) ps) \<and>
     list_ex (\<lambda>g. list_ex (\<lambda>p. pattern_matches p a) (g_patterns g) \<and>
        (case target of None \<Rightarrow> True | Some (t, tags) \<Rightarrow> covers (g_selector g) t tags))
       (ca_grants (ctx_authority ctx))"
  unfolding decide_Allow_iff matching_grants_iff
  by (auto simp: decidable_action_def scope_admits_def pattern_list_matches_def list_ex_iff split: option.splits)

theorem decide_allow_exact_witness:
  "decide None sample_ctx ACCESS_MANAGE None = Allow \<and>
   list_ex (\<lambda>g. list_ex (\<lambda>p. pattern_matches p ACCESS_MANAGE) (g_patterns g))
     (ca_grants (ctx_authority sample_ctx))"
proof -
  have "decide None sample_ctx ACCESS_MANAGE None = Allow" by code_simp
  then show ?thesis using decide_allow_exact[of None sample_ctx ACCESS_MANAGE None] by simp
qed

text \<open>The target-aware gate decides as the decision core with the host's real live tags in the
  principal's tenant, although it queries them only when a matching grant selects by tags.\<close>

theorem authorize_target_exact:
  assumes "authorize_target flt db registry ctx a target = Ok d"
  shows "d = decide registry ctx a
    (Some (target, live_host_tags db (ctx_tenant_id ctx) (target_host_id target)))"
  using assms by (rule authorize_target_Ok)

text \<open>Visibility and decisions agree: for an action the engine can decide, the visibility
  verdict shows exactly the targets on which the targeted decision allows the action.\<close>

theorem visibility_agrees_with_decide:
  assumes "\<not> is_dynamic_action a"
  shows "visible (visibility_access ctx a) t tags = (decide registry ctx a (Some (t, tags)) = Allow)"
  using assms by (intro visibility_decide) (simp add: decidable_action_def)

text \<open>The capability summary lists, in string order, exactly the well-formed actions with a
  textual form that the coarse gate allows, built-in and surface actions alike.\<close>

theorem allowed_actions_exact:
  "set (allowed_actions (Some (surface_action_registry ids)) ctx) =
     {a. wf_action a \<and> length (action_to_string a) \<le> MAX_PATTERN_LEN \<and>
         authorize (Some (surface_action_registry ids)) ctx a = Allow} \<and>
   sorted (map action_to_string (allowed_actions (Some (surface_action_registry ids)) ctx))"
  using surface_registry.allowed_exact[of _ ids ctx] allowed_actions_sorted
  unfolding surface_action_registry_def by blast

text \<open>C5. Bounded staleness: however calls, clock ticks, database writes, evictions and flushes interleave,
  the authority behind a context was read from the database, first the roles and then the grants of
  those roles, in states that were current at most the cache's 60 seconds plus the duration of one
  load before the lookup. (\<open>limit\<close> bounds the time from the first query of a load to its stamp.)\<close>

theorem authority_age_bound:
  assumes "cache_laws ops" "engine_init ops h0" "(engine_step ops limit)\<^sup>*\<^sup>* h0 h"
    and "sees limit h v" "context_access ops flt v t u scope = Ok (ctx, c')"
  shows "\<exists>i j. j \<le> i \<and> i < length h \<and> cv_lookup_now v - ACCESS_CACHE_TTL - limit \<le> es_now (h ! i) \<and>
    ca_grants (ctx_authority ctx) = principal_grants (es_db (h ! j)) t u (role_ids_of (es_db (h ! i)) t u)"
  by (rule context_age[OF authority_cache.reachable_inv[OF authority_cache.intro[OF assms(1)] assms(2,3)] assms(4,5)])

theorem authority_age_bound_witness:
  "\<exists>i j. j \<le> i \<and> i < length sample_history \<and> 161 - ACCESS_CACHE_TTL - 1 \<le> es_now (sample_history ! i) \<and>
     ca_grants old_entry = principal_grants (es_db (sample_history ! j)) 1 5 (role_ids_of (es_db (sample_history ! i)) 1 5)"
  using authority_age_bound[OF list_cache_laws engine_sample_init sample_run hit_seen hit_context]
  by (simp add: hit_view_def)


text \<open>Invalidation takes effect: a lookup in a cache that was just flushed, locally or by a remote event,
  loads the principal's authority from the database.\<close>

theorem flush_forces_reload:
  assumes "cache_laws ops"
    and "cv_lookup_cache v = invalidate_subjects ops c \<or> cv_lookup_cache v = apply_remote_invalidation ops c"
    and "context_access ops flt v t u scope = Ok (ctx, cache')"
  shows "ctx_authority ctx = \<lparr>ca_grants = principal_grants (cv_grants_db v) t u (role_ids_of (cv_roles_db v) t u),
    ca_loaded_at = cv_stamp v\<rparr>"
proof -
  have "cache_get ops (cv_lookup_cache v) (t, u) = None"
    using assms(1,2) by (auto simp: cache_laws_def invalidate_subjects_def apply_remote_invalidation_def)
  then show ?thesis using assms(3) by (auto elim!: context_access_Ok)
qed

section \<open>The guard and the engine agree\<close>

lemma tenant_holder_allowed:
  assumes "tenant_holder (lockout_state db) t u" "load_authority flt db db now t u = Ok entry"
  shows "decide registry \<lparr>ctx_user_id = u, ctx_tenant_id = t, ctx_authority = entry, ctx_scope = None\<rparr>
    ACCESS_MANAGE target = Allow"
proof -
  obtain g where "g \<in> set (authority_grants db t u)" "grant_covers ACCESS_MANAGE g"
    using tenant_holder_grant[OF assms(1)] by blast
  then show ?thesis
    using assms(2) sample_static by (intro covering_grant_allows) (auto simp: load_authority_Ok_iff authority_grants_def)
qed

end
