(* ===== verification/Access_Handlers.thy ===== *)
theory Access_Handlers
  imports Access_Engine
begin

text \<open>
  The HTTP handlers that change authority: the grant endpoints
  (\<open>crates/ui/web-api/src/routes/access_grants.rs\<close>), role deletion (\<open>routes/roles.rs\<close>), and role
  assignment and activation of users (\<open>routes/users.rs\<close>), with the queries they call. A handler maps
  the application state to a response and a new state; leaving early drops the transaction, so the
  state is the old one. Audit payloads and log lines are not modelled. The theorems are that no
  sequence of requests takes the last administrator, that a rejected request changes nothing
  (unless only its answer failed, after the commit), and that nobody gains system-plane authority through a caller who does not hold it.
\<close>

section \<open>Application state and request environment\<close>

text \<open>Faults of the transaction itself and of its audit entry; \<open>True\<close> is a failure.\<close>

datatype txn_step = BeginTxn | BuildAudit | EmitAudit | CommitTxn

record 'c app_state =
  app_db :: database
  app_cache :: 'c
  app_events :: "(uuid list \<times> uuid list) list"

text \<open>\<open>env_flt n\<close> are the statement faults of the \<open>n\<close>-th call a handler makes into the store.\<close>

record 'c request_env =
  env_ops :: "'c cache_ops"
  env_registry :: "dynamic_registry option"
  env_default_tenant :: uuid
  env_authority :: "access_context option"
  env_caller :: uuid
  env_now :: instant
  env_new_id :: uuid
  env_flt :: "nat \<Rightarrow> faults"
  env_txn :: "txn_step \<Rightarrow> bool"

datatype response =
    Created resolved_grant
  | OkGrant resolved_grant
  | OkGrants "resolved_grant list"
  | OkUser
  | NoContent
  | BadRequest
  | Forbidden
  | NotFound
  | ConflictLockout lockout_verdict
  | ConflictBuiltIn
  | ConflictSelf
  | InternalError
  | ApiError access_grant_error

fun is_success :: "response \<Rightarrow> bool" where
  "is_success (Created _) = True"
| "is_success (OkGrant _) = True"
| "is_success (OkGrants _) = True"
| "is_success OkUser = True"
| "is_success NoContent = True"
| "is_success _ = False"

definition reject_if :: "bool \<Rightarrow> response \<Rightarrow> response + unit" where
  "reject_if b r = (if b then Err r else Ok ())"

lemma reject_if_Ok_iff [result_simps]: "reject_if b r = Ok x \<longleftrightarrow> \<not> b"
  by (simp add: reject_if_def)

section \<open>Checks (\<open>middleware/action.rs\<close>)\<close>

definition require_system_access :: "'c request_env \<Rightarrow> response + unit" where
  "require_system_access env =
     (case env_authority env of
        None \<Rightarrow> Err InternalError
      | Some ctx \<Rightarrow>
          (case authorize (env_registry env) ctx SYSTEM_ACCESS_MANAGE of
             Allow \<Rightarrow> Ok ()
           | Deny _ \<Rightarrow> Err Forbidden))"

fun authorize_any_loop ::
  "dynamic_registry option \<Rightarrow> access_context \<Rightarrow> deny_reason option \<Rightarrow> action list \<Rightarrow> deny_reason + unit" where
  "authorize_any_loop registry ctx deny [] =
     Err (case deny of None \<Rightarrow> NoGrant | Some r \<Rightarrow> r)"
| "authorize_any_loop registry ctx deny (a # as) =
     (case authorize registry ctx a of
        Allow \<Rightarrow> Ok ()
      | Deny r \<Rightarrow>
          authorize_any_loop registry ctx
            (if deny = None \<or> deny = Some NoGrant then Some r else deny) as)"

definition authorize_any ::
  "dynamic_registry option \<Rightarrow> access_context \<Rightarrow> action list \<Rightarrow> deny_reason + unit" where
  "authorize_any registry ctx as = authorize_any_loop registry ctx None as"

definition guard_lockout ::
  "'c request_env \<Rightarrow> nat \<Rightarrow> database \<Rightarrow> guarded_mutation \<Rightarrow> response + unit" where
  "guard_lockout env n db mutation =
     (case check_lockout (env_flt env n) db (env_default_tenant env) mutation of
        Inl e \<Rightarrow> Err (ApiError e)
      | Inr v \<Rightarrow> if v = Permitted then Ok () else Err (ConflictLockout v))"

section \<open>Committing\<close>

text \<open>The end of a handler that audits inside the transaction: a failure to build, emit or commit
  leaves the old state; success flushes the cache and publishes the invalidation.\<close>

definition subject_invalidation_ids :: "grant_subject \<Rightarrow> uuid list \<times> uuid list" where
  "subject_invalidation_ids s = (case s of SubjUser i \<Rightarrow> ([i], []) | SubjRole i \<Rightarrow> ([], [i]))"

definition commit_and_invalidate ::
  "'c request_env \<Rightarrow> 'c app_state \<Rightarrow> database \<Rightarrow> uuid list \<times> uuid list \<Rightarrow> 'c app_state" where
  "commit_and_invalidate env app db' ids =
     app\<lparr>app_db := db', app_cache := invalidate_subjects (env_ops env) (app_cache app),
         app_events := app_events app @ [ids]\<rparr>"

definition audited_commit ::
  "'c request_env \<Rightarrow> 'c app_state \<Rightarrow> database \<Rightarrow> uuid list \<times> uuid list \<Rightarrow> response \<Rightarrow>
   response + (response \<times> 'c app_state)" where
  "audited_commit env app db' ids resp =
     and_then (reject_if (env_txn env BuildAudit) InternalError) (\<lambda>_.
     and_then (reject_if (env_txn env EmitAudit) InternalError) (\<lambda>_.
     and_then (reject_if (env_txn env CommitTxn) InternalError) (\<lambda>_.
     Ok (resp, commit_and_invalidate env app db' ids))))"

definition run_handler :: "'c app_state \<Rightarrow> response + (response \<times> 'c app_state) \<Rightarrow> response \<times> 'c app_state" where
  "run_handler app r = (case r of Inl resp \<Rightarrow> (resp, app) | Inr x \<Rightarrow> x)"

section \<open>Grant endpoints (\<open>routes/access_grants.rs\<close>)\<close>

record create_grant_request =
  cr_subject :: grant_subject
  cr_patterns :: "string list"
  cr_selector :: selector
  cr_description :: "string option"

record update_grant_request =
  up_patterns :: "string list"
  up_selector :: selector
  up_description :: "string option"

definition system_check :: "'c request_env \<Rightarrow> bool \<Rightarrow> response + unit" where
  "system_check env system_plane = (if system_plane then require_system_access env else Ok ())"

definition create_access_grant ::
  "'c request_env \<Rightarrow> 'c app_state \<Rightarrow> create_grant_request \<Rightarrow> response \<times> 'c app_state" where
  "create_access_grant env app body =
     run_handler app
      (and_then (ok_or BadRequest (parse_all (cr_patterns body))) (\<lambda>patterns.
       and_then (map_err ApiError (patterns_reach_system_plane patterns)) (\<lambda>system_plane.
       and_then (system_check env system_plane) (\<lambda>_.
       let tenant = (case cr_subject body of
                       SubjUser _ \<Rightarrow> if system_plane then None else Some (env_default_tenant env)
                     | SubjRole _ \<Rightarrow> None) in
       and_then (reject_if (env_txn env BeginTxn) InternalError) (\<lambda>_.
       and_then (map_err ApiError (insert_grant (env_flt env 0) (app_db app) (app_db app) (env_new_id env) (env_now env)
         \<lparr>ng_subject = cr_subject body, ng_tenant_id = tenant, ng_patterns = patterns,
          ng_selector = cr_selector body, ng_description = cr_description body,
          ng_created_by = Some (env_caller env)\<rparr>)) (\<lambda>(db', gid).
       and_then (map_err ApiError (load_grant (env_flt env 1) db' gid)) (\<lambda>resolved.
       audited_commit env app db' (subject_invalidation_ids (cr_subject body)) (Created resolved))))))))"

definition foreign_grant :: "'c request_env \<Rightarrow> resolved_grant \<Rightarrow> bool" where
  "foreign_grant env g \<longleftrightarrow> g_tenant_id g \<noteq> None \<and> g_tenant_id g \<noteq> Some (env_default_tenant env)"

definition get_access_grant :: "'c request_env \<Rightarrow> 'c app_state \<Rightarrow> uuid \<Rightarrow> response" where
  "get_access_grant env app i =
     (case load_grant (env_flt env 0) (app_db app) i of
        Inl e \<Rightarrow> ApiError e
      | Inr g \<Rightarrow> if foreign_grant env g then NotFound else OkGrant g)"

definition list_access_grants ::
  "'c request_env \<Rightarrow> 'c app_state \<Rightarrow> grant_subject_type option \<Rightarrow> uuid option \<Rightarrow> response" where
  "list_access_grants env app subject_type subject_id =
     (let run = (\<lambda>subject.
        case list_grants (env_flt env 0) (app_db app) (env_default_tenant env) subject of
          Inl e \<Rightarrow> ApiError e
        | Inr load \<Rightarrow> OkGrants (load_grants load)) in
      case (subject_type, subject_id) of
        (None, None) \<Rightarrow> run None
      | (Some TypeUser, Some i) \<Rightarrow> run (Some (SubjUser i))
      | (Some TypeRole, Some i) \<Rightarrow> run (Some (SubjRole i))
      | _ \<Rightarrow> BadRequest)"

definition update_access_grant ::
  "'c request_env \<Rightarrow> 'c app_state \<Rightarrow> uuid \<Rightarrow> update_grant_request \<Rightarrow> response \<times> 'c app_state" where
  "update_access_grant env app i body =
     run_handler app
      (and_then (ok_or BadRequest (parse_all (up_patterns body))) (\<lambda>patterns.
       and_then (reject_if (env_txn env BeginTxn) InternalError) (\<lambda>_.
       and_then (map_err ApiError (load_grant (env_flt env 0) (app_db app) i)) (\<lambda>before.
       and_then (reject_if (foreign_grant env before) NotFound) (\<lambda>_.
       and_then (map_err ApiError (patterns_reach_system_plane (g_patterns before))) (\<lambda>stored_system_plane.
       and_then (map_err ApiError (patterns_reach_system_plane patterns)) (\<lambda>new_system_plane.
       and_then (system_check env (stored_system_plane \<or> new_system_plane)) (\<lambda>_.
       and_then (guard_lockout env 1 (app_db app) (UpdateGrant i patterns (up_selector body))) (\<lambda>_.
       and_then (map_err ApiError (update_grant (env_flt env 2) (app_db app) (app_db app) i (env_now env)
         \<lparr>gu_patterns = patterns, gu_selector = up_selector body,
          gu_description = up_description body\<rparr>)) (\<lambda>db'.
       and_then (map_err ApiError (load_grant (env_flt env 3) db' i)) (\<lambda>after.
       audited_commit env app db' (subject_invalidation_ids (g_subject before)) (OkGrant after))))))))))))"

definition delete_access_grant ::
  "'c request_env \<Rightarrow> 'c app_state \<Rightarrow> uuid \<Rightarrow> response \<times> 'c app_state" where
  "delete_access_grant env app i =
     run_handler app
      (and_then (reject_if (env_txn env BeginTxn) InternalError) (\<lambda>_.
       and_then (map_err ApiError (load_grant (env_flt env 0) (app_db app) i)) (\<lambda>stored.
       and_then (reject_if (foreign_grant env stored) NotFound) (\<lambda>_.
       and_then (map_err ApiError (patterns_reach_system_plane (g_patterns stored))) (\<lambda>system_plane.
       and_then (system_check env system_plane) (\<lambda>_.
       and_then (guard_lockout env 1 (app_db app) (DeleteGrant i)) (\<lambda>_.
       and_then (map_err ApiError (delete_grant (env_flt env 2) (app_db app) i)) (\<lambda>db'.
       audited_commit env app db' (subject_invalidation_ids (g_subject stored)) NoContent))))))))"

section \<open>Deleting a role (\<open>routes/roles.rs\<close>, \<open>queries/roles.rs\<close>)\<close>

definition get_role :: "faults \<Rightarrow> database \<Rightarrow> uuid \<Rightarrow> uuid \<Rightarrow> response + role_row" where
  "get_role flt db tenant rid =
     and_then (map_err ApiError (exec_stmt flt FindRole
       (find (\<lambda>r. role_id r = rid \<and> (role_tenant_id r = None \<or> role_tenant_id r = Some tenant)) (roles db))))
       (\<lambda>found. ok_or NotFound found)"

definition get_own_role :: "faults \<Rightarrow> database \<Rightarrow> uuid \<Rightarrow> uuid \<Rightarrow> response + role_row" where
  "get_own_role flt db tenant rid =
     and_then (map_err ApiError (exec_stmt flt FindRole
       (find (\<lambda>r. role_id r = rid \<and> role_tenant_id r = Some tenant) (roles db))))
       (\<lambda>found. ok_or NotFound found)"

text \<open>The foreign key of \<open>user_roles.role_id\<close> cascades, so deleting the role row removes the
  assignments of every tenant.\<close>

definition delete_role_rows :: "faults \<Rightarrow> database \<Rightarrow> uuid \<Rightarrow> uuid \<Rightarrow> response + database" where
  "delete_role_rows flt db tenant rid =
     and_then (get_own_role flt db tenant rid) (\<lambda>role.
     and_then (map_err ApiError (exec_stmt flt DeleteUserRoles
       (db\<lparr>user_roles := filter (\<lambda>a. \<not> (ur_role_id a = role_id role \<and> ur_tenant_id a = tenant))
          (user_roles db)\<rparr>))) (\<lambda>db1.
     map_err ApiError (exec_stmt flt DeleteRoleRow
       (db1\<lparr>roles := filter (\<lambda>r. role_id r \<noteq> role_id role) (roles db1),
            user_roles := filter (\<lambda>a. ur_role_id a \<noteq> role_id role) (user_roles db1)\<rparr>))))"

fun grants_reach_system_loop :: "bool \<Rightarrow> resolved_grant list \<Rightarrow> access_grant_error + bool" where
  "grants_reach_system_loop acc [] = Ok acc"
| "grants_reach_system_loop acc (g # gs) =
     and_then (patterns_reach_system_plane (g_patterns g)) (\<lambda>v. grants_reach_system_loop (acc \<or> v) gs)"

definition delete_role :: "'c request_env \<Rightarrow> 'c app_state \<Rightarrow> uuid \<Rightarrow> response \<times> 'c app_state" where
  "delete_role env app rid =
     run_handler app
      (and_then (get_role (env_flt env 0) (app_db app) (env_default_tenant env) rid) (\<lambda>existing.
       and_then (reject_if (role_is_built_in existing) ConflictBuiltIn) (\<lambda>_.
       and_then (reject_if (role_tenant_id existing \<noteq> Some (env_default_tenant env)) NotFound) (\<lambda>_.
       and_then (reject_if (env_txn env BeginTxn) InternalError) (\<lambda>_.
       and_then (map_err ApiError (list_grants (env_flt env 1) (app_db app) (env_default_tenant env)
         (Some (SubjRole rid)))) (\<lambda>load.
       and_then (reject_if (corrupt_skipped load > 0) InternalError) (\<lambda>_.
       and_then (map_err ApiError (grants_reach_system_loop False (load_grants load))) (\<lambda>system_plane.
       and_then (system_check env system_plane) (\<lambda>_.
       and_then (guard_lockout env 2 (app_db app) (DeleteRole rid)) (\<lambda>_.
       and_then (delete_role_rows (env_flt env 3) (app_db app) (env_default_tenant env) rid) (\<lambda>db1.
       and_then (map_err ApiError (delete_grants_for_role (env_flt env 4) db1 rid)) (\<lambda>(db2, n).
       audited_commit env app db2 ([], [rid]) NoContent))))))))))))"

section \<open>Roles and activation of a user (\<open>routes/users.rs\<close>)\<close>

text \<open>Every error of the lockout check is a 500 here.\<close>

definition internal :: "response + 'a \<Rightarrow> response + 'a" where
  "internal r = (case r of Inl (ApiError _) \<Rightarrow> Err InternalError | _ \<Rightarrow> r)"

fun added_roles_loop ::
  "faults \<Rightarrow> database \<Rightarrow> uuid \<Rightarrow> bool \<Rightarrow> uuid list \<Rightarrow> response + bool" where
  "added_roles_loop flt db tenant acc [] = Ok acc"
| "added_roles_loop flt db tenant acc (rid # rids) =
     and_then (map_err (\<lambda>_. InternalError) (list_grants flt db tenant (Some (SubjRole rid)))) (\<lambda>load.
     and_then (reject_if (corrupt_skipped load > 0) InternalError) (\<lambda>_.
     and_then (map_err (\<lambda>_. InternalError) (grants_reach_system_loop acc (load_grants load))) (\<lambda>acc'.
     added_roles_loop flt db tenant acc' rids)))"

definition added_roles_reach_system_plane ::
  "faults \<Rightarrow> database \<Rightarrow> uuid \<Rightarrow> uuid \<Rightarrow> uuid list \<Rightarrow> response + bool" where
  "added_roles_reach_system_plane flt db tenant uid requested =
     and_then (map_err (\<lambda>_. InternalError) (exec_stmt flt SelectUserRoles (role_ids_of db tenant uid)))
       (\<lambda>current. added_roles_loop flt db tenant False (filter (\<lambda>r. r \<notin> set current) requested))"

text \<open>The insert loop; the primary key of \<open>user_roles\<close> is the whole triple.\<close>

fun insert_user_roles_loop :: "faults \<Rightarrow> uuid \<Rightarrow> uuid \<Rightarrow> database \<Rightarrow> uuid list \<Rightarrow> response + database" where
  "insert_user_roles_loop flt tenant uid db [] = Ok db"
| "insert_user_roles_loop flt tenant uid db (rid # rids) =
     (let row = \<lparr>ur_tenant_id = tenant, ur_user_id = uid, ur_role_id = rid\<rparr> in
      and_then (reject_if (row \<in> set (user_roles db)) InternalError) (\<lambda>_.
      and_then (map_err (\<lambda>_. InternalError) (exec_stmt flt InsertUserRole
        (db\<lparr>user_roles := user_roles db @ [row]\<rparr>))) (\<lambda>db'.
      insert_user_roles_loop flt tenant uid db' rids)))"

definition MAX_ROLES_PER_USER :: nat where "MAX_ROLES_PER_USER = 20"

text \<open>The roles of the user that the answer lists.\<close>

definition build_user_response :: "faults \<Rightarrow> database \<Rightarrow> uuid \<Rightarrow> uuid \<Rightarrow> dberr + uuid list" where
  "build_user_response flt db tenant uid =
     (case flt SelectUserRoles of
        Some e \<Rightarrow> Err e
      | None \<Rightarrow>
          let role_ids = role_ids_of db tenant uid in
          if role_ids = [] then Ok []
          else (case flt SelectRoles of
             Some e \<Rightarrow> Err e
           | None \<Rightarrow> Ok (map role_id (filter (\<lambda>r. role_id r \<in> set role_ids) (roles db)))))"

text \<open>The answer is built after the commit, so a failure is reported for a change that was made.\<close>

definition user_answer :: "'c request_env \<Rightarrow> nat \<Rightarrow> database \<Rightarrow> uuid \<Rightarrow> response" where
  "user_answer env n db uid =
     (case build_user_response (env_flt env n) db (env_default_tenant env) uid of
        Inr _ \<Rightarrow> OkUser
      | Inl _ \<Rightarrow> InternalError)"

definition update_user_roles_tx ::
  "'c request_env \<Rightarrow> database \<Rightarrow> uuid \<Rightarrow> uuid list \<Rightarrow> response + database" where
  "update_user_roles_tx env db uid rids =
     (let tenant = env_default_tenant env in
       (and_then (reject_if (rids = [] \<or> length rids > MAX_ROLES_PER_USER) BadRequest) (\<lambda>_.
        and_then (map_err (\<lambda>_. InternalError) (exec_stmt (env_flt env 0) FindUser
          (find (\<lambda>u. user_id u = uid) (users db)))) (\<lambda>found.
        and_then (ok_or NotFound found) (\<lambda>_.
        and_then (map_err (\<lambda>_. InternalError) (exec_stmt (env_flt env 1) SelectRoles
          (filter (\<lambda>r. role_id r \<in> set rids) (roles db)))) (\<lambda>requested.
        and_then (reject_if (length requested \<noteq> length rids) BadRequest) (\<lambda>_.
        and_then (map_err (\<lambda>_. InternalError) (exec_stmt (env_flt env 2) SelectUserRoles ())) (\<lambda>_.
        and_then (reject_if (env_txn env BeginTxn) InternalError) (\<lambda>_.
        and_then (added_roles_reach_system_plane (env_flt env 3) db tenant uid rids) (\<lambda>system_plane.
        and_then (system_check env system_plane) (\<lambda>_.
        and_then (internal (guard_lockout env 4 db (SetUserRoles tenant uid rids))) (\<lambda>_.
        and_then (map_err (\<lambda>_. InternalError) (exec_stmt (env_flt env 5) DeleteUserRoles
          (db\<lparr>user_roles := filter (\<lambda>a. \<not> (ur_tenant_id a = tenant \<and> ur_user_id a = uid))
             (user_roles db)\<rparr>))) (\<lambda>db1.
        and_then (insert_user_roles_loop (env_flt env 6) tenant uid db1 rids) (\<lambda>db2.
        and_then (reject_if (env_txn env CommitTxn) InternalError) (\<lambda>_.
        Ok db2)))))))))))))))"

definition update_user_roles ::
  "'c request_env \<Rightarrow> 'c app_state \<Rightarrow> uuid \<Rightarrow> uuid list \<Rightarrow> response \<times> 'c app_state" where
  "update_user_roles env app uid rids =
     run_handler app
       (and_then (update_user_roles_tx env (app_db app) uid rids) (\<lambda>db'.
        Ok (user_answer env 7 db' uid, commit_and_invalidate env app db' ([uid], []))))"

definition set_active :: "uuid \<Rightarrow> bool \<Rightarrow> instant \<Rightarrow> user_row \<Rightarrow> user_row" where
  "set_active uid active now u =
     (if user_id u = uid
      then u\<lparr>user_is_active := active, user_deactivated_at := if active then None else Some now\<rparr>
      else u)"

definition update_user_active_in_tx ::
  "faults \<Rightarrow> database \<Rightarrow> instant \<Rightarrow> uuid \<Rightarrow> bool \<Rightarrow> dberr + (bool \<times> database) option" where
  "update_user_active_in_tx flt db now uid active =
     (case flt FindUser of
        Some e \<Rightarrow> Err e
      | None \<Rightarrow>
          (case find (\<lambda>u. user_id u = uid) (users db) of
             None \<Rightarrow> Ok None
           | Some before \<Rightarrow>
               (case flt UpdateUser of
                  Some e \<Rightarrow> Err e
                | None \<Rightarrow>
                    Ok (Some (user_is_active before,
                      db\<lparr>users := map (set_active uid active now) (users db)\<rparr>)))))"

definition update_user_active_tx ::
  "'c request_env \<Rightarrow> database \<Rightarrow> uuid \<Rightarrow> bool \<Rightarrow> response + (bool \<times> database)" where
  "update_user_active_tx env db uid active =
     and_then (reject_if (\<not> active \<and> env_caller env = uid) ConflictSelf) (\<lambda>_.
     and_then (reject_if (env_txn env BeginTxn) InternalError) (\<lambda>_.
     and_then (if \<not> active then internal (guard_lockout env 0 db (DeactivateUser uid)) else Ok ()) (\<lambda>_.
     and_then (map_err (\<lambda>_. InternalError)
       (update_user_active_in_tx (env_flt env 1) db (env_now env) uid active)) (\<lambda>found.
     and_then (ok_or NotFound found) (\<lambda>(was_active, db').
     and_then (reject_if (env_txn env CommitTxn) InternalError) (\<lambda>_.
     Ok (was_active, db')))))))"

definition update_user_active ::
  "'c request_env \<Rightarrow> 'c app_state \<Rightarrow> uuid \<Rightarrow> bool \<Rightarrow> response \<times> 'c app_state" where
  "update_user_active env app uid active =
     run_handler app
       (and_then (update_user_active_tx env (app_db app) uid active) (\<lambda>(was_active, db').
        Ok (user_answer env 2 db' uid,
          if was_active \<noteq> active then commit_and_invalidate env app db' ([uid], [])
          else app\<lparr>app_db := db'\<rparr>)))"

section \<open>Requests\<close>

inductive handler_step :: "'c request_env \<Rightarrow> 'c app_state \<Rightarrow> response \<Rightarrow> 'c app_state \<Rightarrow> bool" where
  h_create: "create_access_grant env app body = (resp, app') \<Longrightarrow> handler_step env app resp app'"
| h_update: "update_access_grant env app i ubody = (resp, app') \<Longrightarrow> handler_step env app resp app'"
| h_delete: "delete_access_grant env app i = (resp, app') \<Longrightarrow> handler_step env app resp app'"
| h_delete_role: "delete_role env app rid = (resp, app') \<Longrightarrow> handler_step env app resp app'"
| h_user_roles: "update_user_roles env app uid rids = (resp, app') \<Longrightarrow> handler_step env app resp app'"
| h_user_active: "update_user_active env app uid active = (resp, app') \<Longrightarrow> handler_step env app resp app'"

definition request_step :: "'c app_state \<Rightarrow> 'c app_state \<Rightarrow> bool" where
  "request_step app app' \<longleftrightarrow> (\<exists>env resp. handler_step env app resp app')"

section \<open>What a handler that returns has done\<close>

lemma run_handler_cases:
  "run_handler app r = (resp, app') \<longleftrightarrow> (r = Err resp \<and> app' = app) \<or> r = Ok (resp, app')"
  by (auto simp: run_handler_def split: sum.splits)

lemma audited_commit_Ok_iff [result_simps]:
  "audited_commit env app db' ids resp = Ok (r, app') \<longleftrightarrow>
     \<not> env_txn env BuildAudit \<and> \<not> env_txn env EmitAudit \<and> \<not> env_txn env CommitTxn \<and>
     r = resp \<and> app' = commit_and_invalidate env app db' ids"
  by (auto simp: audited_commit_def result_simps)

lemma guard_lockout_Ok_iff [result_simps]:
  "guard_lockout env n db m = Ok x \<longleftrightarrow>
     check_lockout (env_flt env n) db (env_default_tenant env) m = Ok Permitted"
  by (auto simp: guard_lockout_def split: sum.splits if_splits)

lemma internal_Ok_iff [result_simps]: "internal r = Ok x \<longleftrightarrow> r = Ok x"
  by (auto simp: internal_def split: sum.splits response.splits)

lemma app_db_commit [simp]:
  "app_db (commit_and_invalidate env app db' ids) = db'"
  "app_cache (commit_and_invalidate env app db' ids) = invalidate_subjects (env_ops env) (app_cache app)"
  by (simp_all add: commit_and_invalidate_def)

definition request_tenant :: "'c request_env \<Rightarrow> grant_subject \<Rightarrow> bool \<Rightarrow> uuid option" where
  "request_tenant env subject system_plane =
     (case subject of
        SubjUser _ \<Rightarrow> if system_plane then None else Some (env_default_tenant env)
      | SubjRole _ \<Rightarrow> None)"

lemma create_effect:
  assumes "create_access_grant env app body = (resp, app')"
  obtains "app' = app"
  | ps sp ng gid where "parse_all (cr_patterns body) = Some ps"
    "patterns_reach_system_plane ps = Ok sp" "system_check env sp = Ok ()" "ng_patterns ng = ps"
    "insert_grant (env_flt env 0) (app_db app) (app_db app) (env_new_id env) (env_now env) ng = Ok (app_db app', gid)"
    "is_success resp"
proof (cases "app' = app")
  case False
  let ?ng = "\<lambda>ps sp. \<lparr>ng_subject = cr_subject body, ng_tenant_id = request_tenant env (cr_subject body) sp,
    ng_patterns = ps, ng_selector = cr_selector body, ng_description = cr_description body,
    ng_created_by = Some (env_caller env)\<rparr>"
  obtain ps sp gid where h: "parse_all (cr_patterns body) = Some ps"
    "patterns_reach_system_plane ps = Ok sp" "system_check env sp = Ok ()"
    "insert_grant (env_flt env 0) (app_db app) (app_db app) (env_new_id env) (env_now env) (?ng ps sp) = Ok (app_db app', gid)"
    "is_success resp"
    using assms False unfolding create_access_grant_def run_handler_cases request_tenant_def[symmetric] Let_def
    by (auto simp: result_simps)
  show thesis by (rule that(2)[OF h(1-3) _ h(4,5)]) simp
qed (rule that(1))

lemma update_effect:
  assumes "update_access_grant env app i body = (resp, app')"
  obtains "app' = app"
  | ps before sp sp' upd where "parse_all (up_patterns body) = Some ps"
    "load_grant (env_flt env 0) (app_db app) i = Ok before"
    "patterns_reach_system_plane (g_patterns before) = Ok sp" "patterns_reach_system_plane ps = Ok sp'"
    "system_check env (sp \<or> sp') = Ok ()" "gu_patterns upd = ps"
    "check_lockout (env_flt env 1) (app_db app) (env_default_tenant env)
       (UpdateGrant i (gu_patterns upd) (gu_selector upd)) = Ok Permitted"
    "update_grant (env_flt env 2) (app_db app) (app_db app) i (env_now env) upd = Ok (app_db app')" "is_success resp"
proof (cases "app' = app")
  case False
  let ?upd = "\<lambda>ps. \<lparr>gu_patterns = ps, gu_selector = up_selector body, gu_description = up_description body\<rparr>"
  obtain ps before sp sp' where h: "parse_all (up_patterns body) = Some ps"
    "load_grant (env_flt env 0) (app_db app) i = Ok before"
    "patterns_reach_system_plane (g_patterns before) = Ok sp" "patterns_reach_system_plane ps = Ok sp'"
    "system_check env (sp \<or> sp') = Ok ()"
    "check_lockout (env_flt env 1) (app_db app) (env_default_tenant env)
       (UpdateGrant i ps (up_selector body)) = Ok Permitted"
    "update_grant (env_flt env 2) (app_db app) (app_db app) i (env_now env) (?upd ps) = Ok (app_db app')" "is_success resp"
    using assms False unfolding update_access_grant_def run_handler_cases
    by (auto simp: result_simps)
  show thesis by (rule that(2)[OF h(1-5) _ _ h(7,8)]) (use h(6) in simp_all)
qed (rule that(1))

lemma delete_effect:
  assumes "delete_access_grant env app i = (resp, app')"
  obtains "app' = app"
  | stored sp where "load_grant (env_flt env 0) (app_db app) i = Ok stored"
    "patterns_reach_system_plane (g_patterns stored) = Ok sp" "system_check env sp = Ok ()"
    "check_lockout (env_flt env 1) (app_db app) (env_default_tenant env) (DeleteGrant i) = Ok Permitted"
    "delete_grant (env_flt env 2) (app_db app) i = Ok (app_db app')" "is_success resp"
  using assms unfolding delete_access_grant_def run_handler_cases
  by (auto simp: result_simps)

lemma delete_role_rows_Ok:
  assumes "delete_role_rows flt db tenant rid = Ok db'"
  shows "db' = db\<lparr>roles := filter (\<lambda>r. role_id r \<noteq> rid) (roles db),
    user_roles := filter (\<lambda>a. ur_role_id a \<noteq> rid) (user_roles db)\<rparr>"
proof -
  obtain role where "get_own_role flt db tenant rid = Ok role"
    and d: "db' = db\<lparr>roles := filter (\<lambda>r. role_id r \<noteq> role_id role) (roles db),
      user_roles := filter (\<lambda>a. ur_role_id a \<noteq> role_id role)
        (filter (\<lambda>a. \<not> (ur_role_id a = role_id role \<and> ur_tenant_id a = tenant)) (user_roles db))\<rparr>"
    using assms by (auto simp: delete_role_rows_def result_simps)
  then have r: "role_id role = rid" by (auto simp: get_own_role_def result_simps dest: find_SomeD)
  have f: "filter (\<lambda>a. ur_role_id a \<noteq> rid)
      (filter (\<lambda>a. \<not> (ur_role_id a = rid \<and> ur_tenant_id a = tenant)) xs) =
      filter (\<lambda>a. ur_role_id a \<noteq> rid) xs" for xs
    by (induction xs) auto
  show ?thesis unfolding d r f ..
qed

lemma delete_grants_for_role_Ok:
  "delete_grants_for_role flt db rid = Ok (db', n) \<Longrightarrow>
     db' = db\<lparr>access_grants :=
       filter (\<lambda>r. \<not> (row_subject_type r = TypeRole \<and> row_subject_id r = rid)) (access_grants db)\<rparr>"
  by (auto simp: delete_grants_for_role_def result_simps)

lemma delete_role_effect:
  assumes "delete_role env app rid = (resp, app')"
  obtains "app' = app"
  | load sp db1 n where
    "list_grants (env_flt env 1) (app_db app) (env_default_tenant env) (Some (SubjRole rid)) = Ok load"
    "grants_reach_system_loop False (load_grants load) = Ok sp" "system_check env sp = Ok ()"
    "check_lockout (env_flt env 2) (app_db app) (env_default_tenant env) (DeleteRole rid) = Ok Permitted"
    "delete_role_rows (env_flt env 3) (app_db app) (env_default_tenant env) rid = Ok db1"
    "delete_grants_for_role (env_flt env 4) db1 rid = Ok (app_db app', n)" "is_success resp"
  using assms unfolding delete_role_def run_handler_cases
  by (auto simp: result_simps)

lemma insert_user_roles_Ok:
  "insert_user_roles_loop flt tenant uid db rids = Ok db' \<Longrightarrow>
     db' = db\<lparr>user_roles := user_roles db @
       map (\<lambda>r. \<lparr>ur_tenant_id = tenant, ur_user_id = uid, ur_role_id = r\<rparr>) rids\<rparr>"
proof (induction rids arbitrary: db)
  case (Cons r rids)
  then have "insert_user_roles_loop flt tenant uid (db\<lparr>user_roles := user_roles db @
      [\<lparr>ur_tenant_id = tenant, ur_user_id = uid, ur_role_id = r\<rparr>]\<rparr>) rids = Ok db'"
    by (auto simp: result_simps Let_def)
  from Cons.IH[OF this] show ?case by simp
qed simp

lemma user_roles_effect:
  assumes "update_user_roles env app uid rids = (resp, app')"
  obtains "app' = app"
  | sp where
    "added_roles_reach_system_plane (env_flt env 3) (app_db app) (env_default_tenant env) uid rids = Ok sp"
    "system_check env sp = Ok ()"
    "check_lockout (env_flt env 4) (app_db app) (env_default_tenant env)
       (SetUserRoles (env_default_tenant env) uid rids) = Ok Permitted"
    "app_db app' = (app_db app)\<lparr>user_roles :=
       filter (\<lambda>a. \<not> (ur_tenant_id a = env_default_tenant env \<and> ur_user_id a = uid)) (user_roles (app_db app)) @
       map (\<lambda>r. \<lparr>ur_tenant_id = env_default_tenant env, ur_user_id = uid, ur_role_id = r\<rparr>) rids\<rparr>"
proof (cases "app' = app")
  case False
  let ?db1 = "(app_db app)\<lparr>user_roles := filter (\<lambda>a. \<not> (ur_tenant_id a = env_default_tenant env \<and>
    ur_user_id a = uid)) (user_roles (app_db app))\<rparr>"
  obtain sp where h:
    "added_roles_reach_system_plane (env_flt env 3) (app_db app) (env_default_tenant env) uid rids = Ok sp"
    "system_check env sp = Ok ()"
    "check_lockout (env_flt env 4) (app_db app) (env_default_tenant env)
       (SetUserRoles (env_default_tenant env) uid rids) = Ok Permitted"
    "insert_user_roles_loop (env_flt env 6) (env_default_tenant env) uid ?db1 rids = Ok (app_db app')"
    using assms False unfolding update_user_roles_def update_user_roles_tx_def run_handler_cases Let_def
    by (auto simp: result_simps)
  show thesis by (rule that(2)[OF h(1-3)]) (simp add: insert_user_roles_Ok[OF h(4)])
qed (rule that(1))

lemma user_active_effect:
  assumes "update_user_active env app uid active = (resp, app')"
  obtains "app' = app"
  | "\<not> active \<Longrightarrow> check_lockout (env_flt env 0) (app_db app) (env_default_tenant env) (DeactivateUser uid) =
       Ok Permitted"
    "app_db app' = (app_db app)\<lparr>users := map (set_active uid active (env_now env)) (users (app_db app))\<rparr>"
proof (cases "app' = app")
  case False
  obtain was db' where h: "(if \<not> active then internal (guard_lockout env 0 (app_db app) (DeactivateUser uid))
      else Ok ()) = Ok ()"
    "update_user_active_in_tx (env_flt env 1) (app_db app) (env_now env) uid active = Ok (Some (was, db'))"
    "app_db app' = db'"
    using assms False unfolding update_user_active_def update_user_active_tx_def run_handler_cases Let_def
    by (auto simp: result_simps split: if_splits)
  have d: "db' = (app_db app)\<lparr>users := map (set_active uid active (env_now env)) (users (app_db app))\<rparr>"
    using h(2) unfolding update_user_active_in_tx_def by (auto split: option.splits)
  have g: "check_lockout (env_flt env 0) (app_db app) (env_default_tenant env) (DeactivateUser uid) =
      Ok Permitted" if "\<not> active"
    using h(1) that by (simp add: result_simps)
  show thesis by (rule that(2)[OF g h(3)[unfolded d]])
qed (rule that(1))

section \<open>Administrators are kept\<close>

lemma keeps_holders_le: "authority_le st st' \<Longrightarrow> keeps_holders st st'"
  using tenant_holder_mono system_holder_mono
  unfolding keeps_holders_def loses_system_def loses_tenant_def by blast

lemma keeps_holders_trans: "keeps_holders st st' \<Longrightarrow> keeps_holders st' st'' \<Longrightarrow> keeps_holders st st''"
  unfolding keeps_holders_def loses_system_def loses_tenant_def by blast

lemma insert_grant_grows:
  assumes "insert_grant flt seen db i now grant = Ok (db', j)"
  shows "authority_le (lockout_state db) (lockout_state db')"
  using insert_grant_Ok(4)[OF assms]
  by (auto simp: authority_le_def lockout_state_def set_map_filter_iff intro!: imageI)

lemma delete_role_simulated:
  assumes "delete_role_rows flt db tenant rid = Ok db1" "delete_grants_for_role flt' db1 rid = Ok (db2, n)"
  shows "lockout_state db2 = apply_mutation (DeleteRole rid) (lockout_state db)"
proof -
  have d1: "db1 = db\<lparr>roles := filter (\<lambda>r. role_id r \<noteq> rid) (roles db),
      user_roles := filter (\<lambda>a. ur_role_id a \<noteq> rid) (user_roles db)\<rparr>"
    by (rule delete_role_rows_Ok[OF assms(1)])
  have d2: "db2 = db1\<lparr>access_grants :=
      filter (\<lambda>r. \<not> (row_subject_type r = TypeRole \<and> row_subject_id r = rid)) (access_grants db1)\<rparr>"
    by (rule delete_grants_for_role_Ok[OF assms(2)])
  have "List.map_filter row_grant (filter (\<lambda>r. \<not> (row_subject_type r = TypeRole \<and> row_subject_id r = rid))
        (access_grants db)) =
      filter (\<lambda>g. g_subject g \<noteq> SubjRole rid) (List.map_filter row_grant (access_grants db))"
    by (rule map_filter_commute)
      (auto simp: row_grant_Some_iff subject_from_row_def split: grant_subject_type.splits)
  moreover have "map row_assignment (filter (\<lambda>a. ur_role_id a \<noteq> rid) (user_roles db)) =
      filter (\<lambda>a. a_role_id a \<noteq> rid) (map row_assignment (user_roles db))"
    by (simp add: filter_map o_def row_assignment_def)
  ultimately show ?thesis by (simp add: d1 d2 lockout_state_def)
qed

lemma set_user_roles_simulated:
  "lockout_state (db\<lparr>user_roles := filter (\<lambda>a. \<not> (ur_tenant_id a = t \<and> ur_user_id a = u)) (user_roles db) @
       map (\<lambda>r. \<lparr>ur_tenant_id = t, ur_user_id = u, ur_role_id = r\<rparr>) rids\<rparr>) =
     apply_mutation (SetUserRoles t u rids) (lockout_state db)"
  by (simp add: lockout_state_def filter_map o_def row_assignment_def)

lemma set_active_simps [simp]:
  "user_id (set_active uid active now u) = user_id u"
  "user_is_active (set_active uid active now u) = (if user_id u = uid then active else user_is_active u)"
  by (simp_all add: set_active_def)

lemma set_active_users:
  "i \<in> set (map user_id (filter user_is_active (map (set_active uid active now) us))) \<longleftrightarrow>
     (if i = uid then active \<and> i \<in> set (map user_id us)
      else i \<in> set (map user_id (filter user_is_active us)))"
proof (induction us)
  case (Cons u us)
  then show ?case by (cases "i = uid"; cases "user_id u = uid") auto
qed simp

lemma activate_grows:
  "authority_le (lockout_state db) (lockout_state (db\<lparr>users := map (set_active uid True now) (users db)\<rparr>))"
proof -
  have "set (map user_id (filter user_is_active (users db))) \<subseteq>
      set (map user_id (filter user_is_active (map (set_active uid True now) (users db))))"
    unfolding subset_iff set_active_users by auto
  then show ?thesis
    unfolding lockout_state_def authority_le_def prod.case by (simp del: set_map)
qed

lemma deactivate_simulated:
  "lockout_state (db\<lparr>users := map (set_active uid False now) (users db)\<rparr>) =
     apply_mutation (DeactivateUser uid) (lockout_state db)"
proof -
  have "set (map user_id (filter user_is_active (map (set_active uid False now) (users db)))) =
      set (map user_id (filter user_is_active (users db))) - {uid}"
    unfolding set_eq_iff set_active_users by auto
  then show ?thesis unfolding lockout_state_def by (simp del: set_map)
qed

lemma handler_keeps_holders:
  assumes "handler_step env app resp app'"
  shows "keeps_holders (lockout_state (app_db app)) (lockout_state (app_db app'))"
  using assms
proof cases
  case (h_create body)
  then show ?thesis by (rule create_effect) (auto intro: keeps_holders_le dest: insert_grant_grows)
next
  case (h_update i ubody)
  then show ?thesis
  proof (rule update_effect)
    fix ps before sp sp' upd
    assume a: "parse_all (up_patterns ubody) = Some ps" "gu_patterns upd = ps"
      "check_lockout (env_flt env 1) (app_db app) (env_default_tenant env)
         (UpdateGrant i (gu_patterns upd) (gu_selector upd)) = Ok Permitted"
      "update_grant (env_flt env 2) (app_db app) (app_db app) i (env_now env) upd = Ok (app_db app')"
    have "list_all storable_pattern (gu_patterns upd)" using a(1,2) parse_all_storable by simp
    from update_grant_simulated[OF this a(4)] show ?thesis by (rule Permitted_keeps_holders[OF a(3)])
  qed (simp add: keeps_holders_le)
next
  case (h_delete i)
  then show ?thesis
    by (rule delete_effect) (auto intro: keeps_holders_le Permitted_keeps_holders simp: delete_grant_simulated)
next
  case (h_delete_role rid)
  then show ?thesis
    by (rule delete_role_effect) (auto intro: keeps_holders_le Permitted_keeps_holders simp: delete_role_simulated)
next
  case (h_user_roles uid rids)
  then show ?thesis
  proof (rule user_roles_effect)
    assume c: "check_lockout (env_flt env 4) (app_db app) (env_default_tenant env)
        (SetUserRoles (env_default_tenant env) uid rids) = Ok Permitted"
      and d: "app_db app' = (app_db app)\<lparr>user_roles :=
       filter (\<lambda>a. \<not> (ur_tenant_id a = env_default_tenant env \<and> ur_user_id a = uid)) (user_roles (app_db app)) @
       map (\<lambda>r. \<lparr>ur_tenant_id = env_default_tenant env, ur_user_id = uid, ur_role_id = r\<rparr>) rids\<rparr>"
    show ?thesis
      by (rule Permitted_keeps_holders[OF c]) (simp only: d set_user_roles_simulated authority_le_refl)
  qed (simp add: keeps_holders_le)
next
  case (h_user_active uid active)
  then show ?thesis
  proof (rule user_active_effect)
    assume g: "\<not> active \<Longrightarrow>
        check_lockout (env_flt env 0) (app_db app) (env_default_tenant env) (DeactivateUser uid) = Ok Permitted"
      and d: "app_db app' = (app_db app)\<lparr>users := map (set_active uid active (env_now env)) (users (app_db app))\<rparr>"
    show ?thesis
    proof (cases active)
      case True
      then show ?thesis using activate_grows[of "app_db app"] by (simp add: d keeps_holders_le)
    next
      case False
      then show ?thesis using Permitted_keeps_holders[OF g[OF False]] by (simp add: d deactivate_simulated)
    qed
  qed (simp add: keeps_holders_le)
qed

lemma requests_keep_holders:
  "request_step\<^sup>*\<^sup>* app app' \<Longrightarrow> keeps_holders (lockout_state (app_db app)) (lockout_state (app_db app'))"
  by (induction rule: rtranclp_induct)
    (auto simp: request_step_def keeps_holders_le intro: keeps_holders_trans handler_keeps_holders)

section \<open>The rules of the grant model are kept\<close>

lemma handler_grants_inv:
  assumes "handler_step env app resp app'" "grants_inv (app_db app)"
  shows "grants_inv (app_db app')"
  using assms(1)
proof cases
  case (h_create body)
  then show ?thesis
    by (rule create_effect) (use assms(2) in \<open>auto dest: parse_all_storable intro: grants_inv_insert\<close>)
next
  case (h_update i ubody)
  then show ?thesis
    by (rule update_effect) (use assms(2) in \<open>auto dest: parse_all_storable intro: grants_inv_update same_identities_refl\<close>)
next
  case (h_delete i)
  then show ?thesis
    by (rule delete_effect) (use assms(2) in \<open>auto simp: delete_grant_Ok intro: grants_inv_filter\<close>)
next
  case (h_delete_role rid)
  then show ?thesis
  proof (rule delete_role_effect)
    fix load sp db1 n
    assume d: "delete_role_rows (env_flt env 3) (app_db app) (env_default_tenant env) rid = Ok db1"
      "delete_grants_for_role (env_flt env 4) db1 rid = Ok (app_db app', n)"
    have "access_grants (app_db app') =
        filter (\<lambda>r. \<not> (row_subject_type r = TypeRole \<and> row_subject_id r = rid)) (access_grants (app_db app))"
      by (simp add: delete_grants_for_role_Ok[OF d(2)] delete_role_rows_Ok[OF d(1)])
    then show ?thesis by (rule grants_inv_filter[OF assms(2)])
  qed (simp add: assms(2))
next
  case (h_user_roles uid rids)
  then show ?thesis
    by (rule user_roles_effect) (use assms(2) in \<open>auto simp: grants_inv_def\<close>)
next
  case (h_user_active uid active)
  then show ?thesis
    by (rule user_active_effect) (use assms(2) in \<open>auto simp: grants_inv_def\<close>)
qed

interpretation handlers: state_machine "\<lambda>app. access_grants (app_db app) = []" request_step
    "\<lambda>app. grants_inv (app_db app)"
  by unfold_locales (auto simp: grants_inv_def request_step_def dest: handler_grants_inv[unfolded grants_inv_def])

section \<open>Rejected requests\<close>

text \<open>The request whose reads for the answer, the \<open>n\<close>-th call into the store, do not fail.\<close>

definition answering :: "nat \<Rightarrow> 'c request_env \<Rightarrow> 'c request_env" where
  "answering n env = env\<lparr>env_flt := (env_flt env)(n := no_faults)\<rparr>"

lemma answering_simps [simp]:
  "env_flt (answering n env) = (env_flt env)(n := no_faults)" "env_txn (answering n env) = env_txn env"
  "env_default_tenant (answering n env) = env_default_tenant env" "env_caller (answering n env) = env_caller env"
  "env_now (answering n env) = env_now env" "env_ops (answering n env) = env_ops env"
  "commit_and_invalidate (answering n env) app db' ids = commit_and_invalidate env app db' ids"
  "system_check (answering n env) sp = system_check env sp"
  by (simp_all add: answering_def commit_and_invalidate_def system_check_def require_system_access_def cong: option.case_cong)

lemma user_answer_cases:
  "\<not> is_success (user_answer env n db uid) \<Longrightarrow> user_answer env n db uid = InternalError"
  "user_answer (answering n env) n db uid = OkUser"
  by (auto simp: user_answer_def build_user_response_def no_faults_def Let_def split: sum.splits option.splits if_splits)

lemma user_roles_rejected:
  assumes "update_user_roles env app uid rids = (resp, app')" "\<not> is_success resp"
  shows "app' = app \<or> resp = InternalError \<and> update_user_roles (answering 7 env) app uid rids = (OkUser, app')"
proof -
  have "update_user_roles_tx (answering 7 env) (app_db app) uid rids = update_user_roles_tx env (app_db app) uid rids"
    by (simp add: update_user_roles_tx_def guard_lockout_def)
  then show ?thesis
    using assms user_answer_cases(1)[of env 7 _ uid] user_answer_cases(2)[of 7 env _ uid]
    by (auto simp: update_user_roles_def run_handler_def and_then_def split: sum.splits)
qed

lemma user_active_rejected:
  assumes "update_user_active env app uid active = (resp, app')" "\<not> is_success resp"
  shows "app' = app \<or> resp = InternalError \<and> update_user_active (answering 2 env) app uid active = (OkUser, app')"
proof -
  have "update_user_active_tx (answering 2 env) (app_db app) uid active = update_user_active_tx env (app_db app) uid active"
    by (simp add: update_user_active_tx_def guard_lockout_def)
  then show ?thesis
    using assms user_answer_cases(1)[of env 2 _ uid] user_answer_cases(2)[of 2 env _ uid]
    by (auto simp: update_user_active_def run_handler_def and_then_def split: sum.splits prod.splits)
qed

text \<open>The change was made although the answer is an error.\<close>

definition change_made :: "'c request_env \<Rightarrow> 'c app_state \<Rightarrow> 'c app_state \<Rightarrow> bool" where
  "change_made env app app' \<longleftrightarrow>
     (\<exists>uid rids. fst (update_user_roles env app uid rids) = InternalError \<and>
        update_user_roles (answering 7 env) app uid rids = (OkUser, app')) \<or>
     (\<exists>uid active. fst (update_user_active env app uid active) = InternalError \<and>
        update_user_active (answering 2 env) app uid active = (OkUser, app'))"

lemma rejected_cases:
  assumes "handler_step env app resp app'" "\<not> is_success resp"
  shows "app' = app \<or> resp = InternalError \<and> change_made env app app'"
  using assms(1)
proof cases
  case (h_create body)
  then show ?thesis by (rule create_effect) (use assms(2) in blast)+
next
  case (h_update i ubody)
  then show ?thesis by (rule update_effect) (use assms(2) in blast)+
next
  case (h_delete i)
  then show ?thesis by (rule delete_effect) (use assms(2) in blast)+
next
  case (h_delete_role rid)
  then show ?thesis by (rule delete_role_effect) (use assms(2) in blast)+
next
  case (h_user_roles uid rids)
  then show ?thesis using user_roles_rejected[OF _ assms(2)] unfolding change_made_def by fastforce
next
  case (h_user_active uid active)
  then show ?thesis using user_active_rejected[OF _ assms(2)] unfolding change_made_def by fastforce
qed

section \<open>No escalation to the system plane\<close>

definition holds_action :: "database \<Rightarrow> uuid \<Rightarrow> uuid \<Rightarrow> action \<Rightarrow> bool" where
  "holds_action db t u a \<longleftrightarrow> list_ex (\<lambda>g. pattern_list_matches (g_patterns g) a) (authority_grants db t u)"

definition system_authorized :: "'c request_env \<Rightarrow> bool" where
  "system_authorized env =
     (case env_authority env of
        None \<Rightarrow> False
      | Some ctx \<Rightarrow> authorize (env_registry env) ctx SYSTEM_ACCESS_MANAGE = Allow)"

lemma system_check_False: "system_check env sp = Ok () \<Longrightarrow> \<not> system_authorized env \<Longrightarrow> \<not> sp"
  by (auto simp: system_check_def require_system_access_def system_authorized_def
      split: option.splits decision.splits if_splits)

lemma tenant_patterns_no_system:
  assumes "patterns_reach_system_plane ps = Ok False" "is_system (action_resource a)"
  shows "\<not> pattern_list_matches ps a"
proof
  assume "pattern_list_matches ps a"
  then obtain p where p: "p \<in> set ps" "pattern_matches p a"
    by (auto simp: pattern_list_matches_def list_ex_iff)
  obtain pl where "grant_plane ps = Ok pl" "pl \<noteq> SystemPlane"
    using assms(1) by (auto simp: patterns_reach_system_plane_def result_simps)
  then have "pattern_plane p \<noteq> SystemPlane" using p(1) by (auto simp: grant_plane_Ok_iff list_all_iff)
  then show False using pattern_plane_matches[OF p(2)] assms(2) by blast
qed

lemma holds_action_iff:
  "holds_action db t u a \<longleftrightarrow>
     (\<exists>row g. row \<in> set (access_grants db) \<and> row_grant row = Some g \<and> pattern_list_matches (g_patterns g) a \<and>
        ((g_subject g = SubjUser u \<and> (g_tenant_id g = Some t \<or> g_tenant_id g = None)) \<or>
         (\<exists>r \<in> set (role_ids_of db t u). g_subject g = SubjRole r)))"
  unfolding holds_action_def list_ex_iff authority_grants_iff Bex_def by blast

lemma holds_action_mono:
  assumes "holds_action db' t u a" "set (role_ids_of db' t u) \<subseteq> set (role_ids_of db t u)"
    and "\<And>row g. row \<in> set (access_grants db') \<Longrightarrow> row_grant row = Some g \<Longrightarrow>
      pattern_list_matches (g_patterns g) a \<Longrightarrow> row \<in> set (access_grants db)"
  shows "holds_action db t u a"
  using assms unfolding holds_action_iff by blast

lemma insert_no_escalation:
  assumes "insert_grant flt seen db i now ng = Ok (db', j)" "list_all storable_pattern (ng_patterns ng)"
    and "patterns_reach_system_plane (ng_patterns ng) = Ok False" "is_system (action_resource a)"
    and "holds_action db' t u a"
  shows "holds_action db t u a"
proof (rule holds_action_mono[OF assms(5)])
  note d = insert_grant_Ok(4)[OF assms(1)]
  show "set (role_ids_of db' t u) \<subseteq> set (role_ids_of db t u)" by (simp add: d role_ids_of_def)
  fix row g
  assume "row \<in> set (access_grants db')" "row_grant row = Some g" "pattern_list_matches (g_patterns g) a"
  then show "row \<in> set (access_grants db)"
    using row_grant_new[OF assms(2)] tenant_patterns_no_system[OF assms(3,4)] by (auto simp: d)
qed

lemma update_no_escalation:
  assumes "update_grant flt db db i now upd = Ok db'" "list_all storable_pattern (gu_patterns upd)"
    and "patterns_reach_system_plane (gu_patterns upd) = Ok False" "is_system (action_resource a)"
    and "holds_action db' t u a"
  shows "holds_action db t u a"
proof (rule holds_action_mono[OF assms(5)])
  have d: "db' = db\<lparr>access_grants := map (\<lambda>r. if row_id r = i then updated_row now upd r else r) (access_grants db)\<rparr>"
    using assms(1) by (rule update_grant_Ok)
  show "set (role_ids_of db' t u) \<subseteq> set (role_ids_of db t u)" by (simp add: d role_ids_of_def)
  fix row g
  assume "row \<in> set (access_grants db')" "row_grant row = Some g" "pattern_list_matches (g_patterns g) a"
  then show "row \<in> set (access_grants db)"
    using row_grant_updated[OF assms(2)] tenant_patterns_no_system[OF assms(3,4)]
    by (auto simp: d split: if_splits)
qed

lemma grants_reach_False:
  "grants_reach_system_loop acc gs = Ok False \<longleftrightarrow>
     \<not> acc \<and> (\<forall>g \<in> set gs. patterns_reach_system_plane (g_patterns g) = Ok False)"
proof (induction gs arbitrary: acc)
  case (Cons g gs)
  show ?case
  proof (cases "patterns_reach_system_plane (g_patterns g)")
    case (Inr v)
    then show ?thesis by (cases v) (simp_all add: Cons.IH)
  qed simp
qed simp

lemma row_grant_fields:
  "row_grant row = Some g \<Longrightarrow> subject_from_row row = g_subject g \<and> row_tenant_id row = g_tenant_id g"
  by (simp add: row_grant_Some_iff)

lemma list_grants_Ok_iff:
  assumes "list_grants flt db tenant (Some s) = Ok load"
  shows "g \<in> set (load_grants load) \<longleftrightarrow>
    (\<exists>row \<in> set (access_grants db). row_grant row = Some g \<and> g_subject g = s \<and>
       (g_tenant_id g = Some tenant \<or> g_tenant_id g = None))"
proof -
  have "load_grants load = List.map_filter row_grant (sort_key row_created_at
      (filter (\<lambda>r. subject_from_row r = s)
        (filter (\<lambda>r. row_tenant_id r = Some tenant \<or> row_tenant_id r = None) (access_grants db))))"
    using assms by (auto simp: list_grants_def result_simps)
  then have "g \<in> set (load_grants load) \<longleftrightarrow>
      (\<exists>row \<in> set (access_grants db). row_grant row = Some g \<and> subject_from_row row = s \<and>
         (row_tenant_id row = Some tenant \<or> row_tenant_id row = None))"
    by (auto simp: set_map_filter_iff)
  also have "\<dots> \<longleftrightarrow> (\<exists>row \<in> set (access_grants db). row_grant row = Some g \<and> g_subject g = s \<and>
       (g_tenant_id g = Some tenant \<or> g_tenant_id g = None))"
    using row_grant_fields[of _ g] by (intro bex_cong) auto
  finally show ?thesis .
qed

lemma grants_reach_True: "grants_reach_system_loop True gs = Ok v \<Longrightarrow> v"
  by (cases v) (simp_all add: grants_reach_False)

lemma added_roles_loop_ConsE:
  assumes "added_roles_loop flt db tenant acc (rid # rids) = Ok v"
  obtains load acc' where "list_grants flt db tenant (Some (SubjRole rid)) = Ok load"
    "grants_reach_system_loop acc (load_grants load) = Ok acc'" "added_roles_loop flt db tenant acc' rids = Ok v"
  using assms unfolding added_roles_loop.simps result_simps by blast

lemma added_roles_loop_True: "added_roles_loop flt db tenant True rids = Ok v \<Longrightarrow> v"
proof (induction rids)
  case (Cons rid rids)
  from Cons.prems obtain load acc' where "list_grants flt db tenant (Some (SubjRole rid)) = Ok load"
    and "grants_reach_system_loop True (load_grants load) = Ok acc'"
    and l: "added_roles_loop flt db tenant acc' rids = Ok v" by (rule added_roles_loop_ConsE)
  then have "acc'" using grants_reach_True by blast
  then show ?case using Cons.IH l by simp
qed simp

lemma added_roles_loop_False:
  assumes "added_roles_loop flt db tenant acc rids = Ok False" "r \<in> set rids"
    and "row \<in> set (access_grants db)" "row_grant row = Some g" "g_subject g = SubjRole r"
    and "g_tenant_id g = None"
  shows "patterns_reach_system_plane (g_patterns g) = Ok False"
  using assms(1,2)
proof (induction rids arbitrary: acc)
  case (Cons rid rids)
  from Cons.prems(1) obtain load acc' where l: "list_grants flt db tenant (Some (SubjRole rid)) = Ok load"
    "grants_reach_system_loop acc (load_grants load) = Ok acc'" "added_roles_loop flt db tenant acc' rids = Ok False"
    by (rule added_roles_loop_ConsE)
  have noacc: "\<not> acc'" using l(3) added_roles_loop_True by (cases acc') auto
  show ?case
  proof (cases "r = rid")
    case True
    then have "g \<in> set (load_grants load)" using list_grants_Ok_iff[OF l(1)] assms(3-6) by auto
    then show ?thesis using l(2) noacc by (simp add: grants_reach_False)
  next
    case False
    then show ?thesis using Cons.IH[OF l(3)] Cons.prems(2) by simp
  qed
qed simp

lemma user_roles_no_escalation:
  assumes "grants_inv db" "added_roles_reach_system_plane flt db tenant uid rids = Ok False"
    and d: "db' = db\<lparr>user_roles :=
       filter (\<lambda>a. \<not> (ur_tenant_id a = tenant \<and> ur_user_id a = uid)) (user_roles db) @
       map (\<lambda>r. \<lparr>ur_tenant_id = tenant, ur_user_id = uid, ur_role_id = r\<rparr>) rids\<rparr>"
    and "is_system (action_resource a)" "holds_action db' t u a"
  shows "holds_action db t u a"
proof -
  obtain row g where g: "row \<in> set (access_grants db)" "row_grant row = Some g"
    "pattern_list_matches (g_patterns g) a"
    and or: "(g_subject g = SubjUser u \<and> (g_tenant_id g = Some t \<or> g_tenant_id g = None)) \<or>
      (\<exists>r \<in> set (role_ids_of db' t u). g_subject g = SubjRole r)"
    using assms(5) unfolding holds_action_iff d by auto
  have "r \<in> set (role_ids_of db t u)" if r: "r \<in> set (role_ids_of db' t u)" "g_subject g = SubjRole r" for r
  proof (rule ccontr)
    assume n: "r \<notin> set (role_ids_of db t u)"
    then have tu: "t = tenant" "u = uid" "r \<in> set rids"
      using r(1) by (auto simp: d role_ids_of_def split: if_splits)
    have l: "added_roles_loop flt db tenant False (filter (\<lambda>r. r \<notin> set (role_ids_of db tenant uid)) rids) = Ok False"
      using assms(2) by (auto simp: added_roles_reach_system_plane_def result_simps)
    have "grant_ok g" using assms(1) g(1,2) by (auto simp: grants_inv_iff row_ok_def dest!: bspec)
    then have "g_tenant_id g = None"
      using r(2) by (auto simp: grant_ok_def tenant_encoding_Ok_iff split: sum.splits)
    then have "patterns_reach_system_plane (g_patterns g) = Ok False"
      using added_roles_loop_False[OF l _ g(1,2) r(2)] n tu by simp
    then show False using tenant_patterns_no_system assms(4) g(3) by blast
  qed
  then show ?thesis using g or unfolding holds_action_iff by blast
qed

lemma handler_no_escalation:
  assumes "handler_step env app resp app'" "grants_inv (app_db app)" "\<not> system_authorized env"
    and "is_system (action_resource a)" "holds_action (app_db app') t u a"
  shows "holds_action (app_db app) t u a"
  using assms(1)
proof cases
  case (h_create body)
  then show ?thesis
  proof (rule create_effect)
    fix ps sp ng gid
    assume h: "parse_all (cr_patterns body) = Some ps" "patterns_reach_system_plane ps = Ok sp"
      "system_check env sp = Ok ()" "ng_patterns ng = ps"
      "insert_grant (env_flt env 0) (app_db app) (app_db app) (env_new_id env) (env_now env) ng = Ok (app_db app', gid)"
    show ?thesis
      using system_check_False[OF h(3) assms(3)] h parse_all_storable[OF h(1)] assms(4,5)
      by (intro insert_no_escalation[OF h(5)]) auto
  qed (use assms(5) in simp)
next
  case (h_update i ubody)
  then show ?thesis
  proof (rule update_effect)
    fix ps before sp sp' upd
    assume h: "parse_all (up_patterns ubody) = Some ps" "patterns_reach_system_plane ps = Ok sp'"
      "system_check env (sp \<or> sp') = Ok ()" "gu_patterns upd = ps"
      "update_grant (env_flt env 2) (app_db app) (app_db app) i (env_now env) upd = Ok (app_db app')"
    show ?thesis
      using system_check_False[OF h(3) assms(3)] h parse_all_storable[OF h(1)] assms(4,5)
      by (intro update_no_escalation[OF h(5)]) auto
  qed (use assms(5) in simp)
next
  case (h_delete i)
  then show ?thesis
  proof (rule delete_effect)
    assume "delete_grant (env_flt env 2) (app_db app) i = Ok (app_db app')"
    then show ?thesis
      by (intro holds_action_mono[OF assms(5)]) (auto simp: delete_grant_Ok role_ids_of_def)
  qed (use assms(5) in simp)
next
  case (h_delete_role rid)
  then show ?thesis
  proof (rule delete_role_effect)
    fix load sp db1 n
    assume d: "delete_role_rows (env_flt env 3) (app_db app) (env_default_tenant env) rid = Ok db1"
      "delete_grants_for_role (env_flt env 4) db1 rid = Ok (app_db app', n)"
    show ?thesis
      by (intro holds_action_mono[OF assms(5)])
        (auto simp: delete_grants_for_role_Ok[OF d(2)] delete_role_rows_Ok[OF d(1)] role_ids_of_def)
  qed (use assms(5) in simp)
next
  case (h_user_roles uid rids)
  then show ?thesis
  proof (rule user_roles_effect)
    fix sp
    assume h: "added_roles_reach_system_plane (env_flt env 3) (app_db app) (env_default_tenant env) uid rids = Ok sp"
      "system_check env sp = Ok ()"
      and d: "app_db app' = (app_db app)\<lparr>user_roles :=
       filter (\<lambda>a. \<not> (ur_tenant_id a = env_default_tenant env \<and> ur_user_id a = uid)) (user_roles (app_db app)) @
       map (\<lambda>r. \<lparr>ur_tenant_id = env_default_tenant env, ur_user_id = uid, ur_role_id = r\<rparr>) rids\<rparr>"
    have "sp = False" using system_check_False[OF h(2) assms(3)] by simp
    then show ?thesis using user_roles_no_escalation[OF assms(2) _ d assms(4,5)] h(1) by simp
  qed (use assms(5) in simp)
next
  case (h_user_active uid active)
  then show ?thesis
    by (rule user_active_effect)
      (use assms(5) in \<open>auto simp: holds_action_def authority_grants_def principal_grants_def role_ids_of_def\<close>)
qed

section \<open>Any of several actions\<close>

lemma authorize_any_loop_Ok_iff:
  "authorize_any_loop registry ctx deny as = Ok () \<longleftrightarrow> list_ex (\<lambda>a. authorize registry ctx a = Allow) as"
  by (induction as arbitrary: deny) (auto split: decision.splits)

definition deny_reasons :: "dynamic_registry option \<Rightarrow> access_context \<Rightarrow> action list \<Rightarrow> deny_reason list" where
  "deny_reasons registry ctx as =
     map (\<lambda>a. case authorize registry ctx a of Deny r \<Rightarrow> r | Allow \<Rightarrow> NoGrant) as"

definition first_specific :: "deny_reason list \<Rightarrow> deny_reason" where
  "first_specific rs = (case filter (\<lambda>r. r \<noteq> NoGrant) rs of [] \<Rightarrow> NoGrant | r # _ \<Rightarrow> r)"

lemma authorize_any_loop_Err:
  assumes "\<not> list_ex (\<lambda>a. authorize registry ctx a = Allow) as"
  shows "authorize_any_loop registry ctx deny as =
    Err (first_specific ((case deny of None \<Rightarrow> [] | Some r \<Rightarrow> [r]) @ deny_reasons registry ctx as))"
  using assms
proof (induction as arbitrary: deny)
  case Nil
  then show ?case by (cases deny) (auto simp: first_specific_def deny_reasons_def)
next
  case (Cons a as)
  then obtain r where "authorize registry ctx a = Deny r" by (cases "authorize registry ctx a") auto
  with Cons show ?case by (cases deny) (auto simp: first_specific_def deny_reasons_def)
qed

section \<open>Sample data\<close>

definition sample_env :: "((uuid \<times> uuid) \<times> cached_authority) list request_env" where
  "sample_env = \<lparr>env_ops = list_cache, env_registry = None, env_default_tenant = 1, env_authority = None,
     env_caller = 7, env_now = 100, env_new_id = 11, env_flt = (\<lambda>_. no_faults), env_txn = (\<lambda>_. False)\<rparr>"

definition sample_app :: "((uuid \<times> uuid) \<times> cached_authority) list app_state" where
  "sample_app = \<lparr>app_db = sample_db1, app_cache = [], app_events = []\<rparr>"

definition sample_create :: create_grant_request where
  "sample_create = \<lparr>cr_subject = SubjUser 5, cr_patterns = [''hosts:read''], cr_selector = SelAll,
     cr_description = None\<rparr>"

definition sample_system_db :: database where
  "sample_system_db = sample_db\<lparr>access_grants := [new_grant_row 4 0 SelAll
     \<lparr>ng_subject = SubjUser 5, ng_tenant_id = None,
      ng_patterns = [\<lparr>pattern_resource = SubtreeResource ''system'', pattern_verb = AnyVerb\<rparr>],
      ng_selector = SelAll, ng_description = None, ng_created_by = None\<rparr>]\<rparr>"

definition sample_system_app :: "((uuid \<times> uuid) \<times> cached_authority) list app_state" where
  "sample_system_app = \<lparr>app_db = sample_system_db, app_cache = [], app_events = []\<rparr>"

definition sample_two_users :: "((uuid \<times> uuid) \<times> cached_authority) list app_state" where
  "sample_two_users = \<lparr>app_db = sample_db1\<lparr>users := users sample_db1 @
     [\<lparr>user_id = 6, user_is_active = True, user_deactivated_at = None\<rparr>]\<rparr>, app_cache = [], app_events = []\<rparr>"

section \<open>Properties\<close>

text \<open>C2. No sequence of requests to the grant, role and user endpoints, successful or not and
  whatever faults occur, takes the last administrator: a tenant that has an active holder of
  \<open>access:manage\<close> still has one afterwards, and so has the system plane.\<close>

theorem requests_never_lock_out:
  assumes "request_step\<^sup>*\<^sup>* app app'"
  shows "((\<exists>u. tenant_holder (lockout_state (app_db app)) t u) \<longrightarrow>
      (\<exists>u. tenant_holder (lockout_state (app_db app')) t u)) \<and>
    ((\<exists>u. system_holder (lockout_state (app_db app)) u) \<longrightarrow>
      (\<exists>u. system_holder (lockout_state (app_db app')) u))"
  using requests_keep_holders[OF assms] unfolding keeps_holders_def loses_tenant_def loses_system_def by blast

theorem requests_never_lock_out_witness:
  "let app' = snd (create_access_grant sample_env sample_app sample_create) in
   is_success (fst (create_access_grant sample_env sample_app sample_create)) \<and>
   (\<exists>u. tenant_holder (lockout_state (app_db sample_app)) 1 u) \<and>
   (\<exists>u. tenant_holder (lockout_state (app_db app')) 1 u)"
proof -
  let ?app' = "snd (create_access_grant sample_env sample_app sample_create)"
  have "request_step sample_app ?app'"
    unfolding request_step_def using h_create[OF surjective_pairing] by blast
  then have s: "request_step\<^sup>*\<^sup>* sample_app ?app'" ..
  have h: "tenant_holder (lockout_state (app_db sample_app)) 1 5" by code_simp
  have ok: "is_success (fst (create_access_grant sample_env sample_app sample_create))" by code_simp
  have "\<exists>u. tenant_holder (lockout_state (app_db ?app')) 1 u"
    using requests_never_lock_out[OF s, of 1] h by blast
  then show ?thesis unfolding Let_def using h ok by blast
qed

text \<open>C3. No escalation: a request by a caller the engine does not allow \<open>system.access:manage\<close>
  gives nobody a system-plane action they did not hold before, in any tenant.\<close>

theorem no_system_escalation:
  assumes "handler_step env app resp app'" "grants_inv (app_db app)" "\<not> system_authorized env"
    and "is_system (action_resource a)" "holds_action (app_db app') t u a"
  shows "holds_action (app_db app) t u a"
  using assms by (rule handler_no_escalation)

theorem no_system_escalation_witness:
  "let app' = snd (update_user_active sample_env sample_system_app 5 True) in
   grants_inv (app_db sample_system_app) \<and> \<not> system_authorized sample_env \<and>
   holds_action (app_db app') 1 5 SYSTEM_ACCESS_MANAGE \<and>
   holds_action (app_db sample_system_app) 1 5 SYSTEM_ACCESS_MANAGE"
proof -
  let ?app' = "snd (update_user_active sample_env sample_system_app 5 True)"
  have s: "handler_step sample_env sample_system_app
      (fst (update_user_active sample_env sample_system_app 5 True)) ?app'"
    by (rule h_user_active) (rule surjective_pairing)
  have i: "grants_inv (app_db sample_system_app)" by code_simp
  have n: "\<not> system_authorized sample_env" by code_simp
  have y: "is_system (action_resource SYSTEM_ACCESS_MANAGE)" by code_simp
  have h: "holds_action (app_db ?app') 1 5 SYSTEM_ACCESS_MANAGE" by code_simp
  show ?thesis unfolding Let_def using i n h no_system_escalation[OF s i n y h] by blast
qed

text \<open>C4. Requests are atomic: a request that is not answered with success leaves the database, the
  authority cache and the published invalidations as they were. There is one exception: the two user
  endpoints build their answer after the commit, and when that fails they answer 500 although the
  change was made, in full and exactly as a success would have made it.\<close>

theorem rejected_request_changes_nothing:
  assumes "handler_step env app resp app'" "\<not> is_success resp"
  shows "app' = app \<or> resp = InternalError \<and>
    ((\<exists>uid rids. fst (update_user_roles env app uid rids) = InternalError \<and>
        update_user_roles (answering 7 env) app uid rids = (OkUser, app')) \<or>
     (\<exists>uid active. fst (update_user_active env app uid active) = InternalError \<and>
        update_user_active (answering 2 env) app uid active = (OkUser, app')))"
  using rejected_cases[OF assms] unfolding change_made_def .

theorem rejected_request_changes_nothing_witness:
  "fst (delete_access_grant sample_env sample_app 9) = ConflictLockout TenantLockout \<and>
   snd (delete_access_grant sample_env sample_app 9) = sample_app"
proof -
  have r: "fst (delete_access_grant sample_env sample_app 9) = ConflictLockout TenantLockout" by code_simp
  have s: "handler_step sample_env sample_app (fst (delete_access_grant sample_env sample_app 9))
      (snd (delete_access_grant sample_env sample_app 9))"
    by (rule h_delete) (rule surjective_pairing)
  show ?thesis using r rejected_request_changes_nothing[OF s] by simp
qed

text \<open>The exception is real: deactivating a user can be answered with 500 and yet be done.\<close>

theorem failed_answer_after_commit:
  assumes "update_user_active_tx env (app_db app) uid active = Ok (was_active, db')"
    and "env_flt env 2 SelectUserRoles = Some e"
  shows "fst (update_user_active env app uid active) = InternalError \<and>
    app_db (snd (update_user_active env app uid active)) = db' \<and>
    db' = (app_db app)\<lparr>users := map (set_active uid active (env_now env)) (users (app_db app))\<rparr>"
proof -
  have "db' = (app_db app)\<lparr>users := map (set_active uid active (env_now env)) (users (app_db app))\<rparr>"
    using assms(1) by (auto simp: update_user_active_tx_def update_user_active_in_tx_def result_simps split: option.splits)
  then show ?thesis
    using assms by (simp add: update_user_active_def run_handler_def user_answer_def build_user_response_def)
qed

theorem failed_answer_after_commit_witness:
  "let env = sample_env\<lparr>env_flt := (\<lambda>_. no_faults)(2 := no_faults(SelectUserRoles := Some ''connection lost''))\<rparr> in
   fst (update_user_active env sample_two_users 6 False) = InternalError \<and>
   app_db (snd (update_user_active env sample_two_users 6 False)) \<noteq> app_db sample_two_users"
proof -
  let ?env = "sample_env\<lparr>env_flt := (\<lambda>_. no_faults)(2 := no_faults(SelectUserRoles := Some ''connection lost''))\<rparr>"
  let ?db' = "(app_db sample_two_users)\<lparr>users := map (set_active 6 False 100) (users (app_db sample_two_users))\<rparr>"
  have t: "update_user_active_tx ?env (app_db sample_two_users) 6 False = Ok (True, ?db')" by code_simp
  have "map (set_active 6 False 100) (users (app_db sample_two_users)) \<noteq> users (app_db sample_two_users)" by code_simp
  then have "?db' \<noteq> app_db sample_two_users" by (metis database.select_convs(8) database.surjective database.update_convs(8))
  then show ?thesis unfolding Let_def using failed_answer_after_commit[OF t] by simp
qed

text \<open>The gate over several actions passes exactly when one of them is allowed; otherwise it
  reports the first reason that is more specific than a missing grant, and a missing grant if
  there is none.\<close>

theorem authorize_any_exact:
  "authorize_any registry ctx as =
     (if list_ex (\<lambda>a. authorize registry ctx a = Allow) as then Ok ()
      else Err (first_specific (deny_reasons registry ctx as)))"
  using authorize_any_loop_Ok_iff[of registry ctx None as] authorize_any_loop_Err[of registry ctx as None]
  by (simp add: authorize_any_def)

end
