(* ===== verification/Workload_Claims.thy ===== *)
theory Workload_Claims
  imports Uptrakit_Prelude
begin

text \<open>
  The workload claim registry of a controller (\<open>crates/ui/controller-core/src/workload_claims.rs\<close>):
  which service instance owns which config key. The registry is one map from keys to owners and
  three derived maps: the keys of each service, the services of each tenant, and the keys a service
  asked for and did not get. The theory shows that the derived maps always say what the owner map
  says, that every operation implements a simple operation on the owner map alone, and that the
  conflict rule for announcements of other controllers does not depend on their order.
\<close>

section \<open>The registry\<close>

record claim_owner =
  own_service :: uuid
  own_controller :: uuid
  own_tenant :: uuid
  own_claimed_at :: instant

record claim_registry =
  claims :: "string \<rightharpoonup> claim_owner"
  by_service :: "uuid \<rightharpoonup> string set"
  tenant_services :: "uuid \<rightharpoonup> uuid set"
  pending_desires :: "uuid \<rightharpoonup> (string \<rightharpoonup> uuid)"

record claim_result =
  cr_granted :: "string set"
  cr_rejected :: "string set"
  cr_released :: "string \<rightharpoonup> uuid"
  cr_tenants_after :: "uuid set"
  cr_tenants_before :: "uuid set"

record revocation =
  rev_service :: uuid
  rev_keys :: "string set"

definition empty_registry :: claim_registry where
  "empty_registry = \<lparr>claims = Map.empty, by_service = Map.empty, tenant_services = Map.empty,
     pending_desires = Map.empty\<rparr>"

text \<open>\<open>get(k).cloned().unwrap_or_default()\<close> on a map of sets.\<close>

definition get_or_empty :: "('k \<rightharpoonup> 'v set) \<Rightarrow> 'k \<Rightarrow> 'v set" where
  "get_or_empty m k = (case m k of None \<Rightarrow> {} | Some S \<Rightarrow> S)"

text \<open>\<open>entry(k).or_default().insert(v)\<close> on a map of sets.\<close>

definition set_entry_insert :: "'k \<Rightarrow> 'v \<Rightarrow> ('k \<rightharpoonup> 'v set) \<Rightarrow> 'k \<rightharpoonup> 'v set" where
  "set_entry_insert k v m = m(k \<mapsto> insert v (get_or_empty m k))"

text \<open>\<open>if let Some(set) = m.get_mut(k) { set.remove(v) }\<close>.\<close>

definition set_entry_remove :: "'k \<Rightarrow> 'v \<Rightarrow> ('k \<rightharpoonup> 'v set) \<Rightarrow> 'k \<rightharpoonup> 'v set" where
  "set_entry_remove k v m = (case m k of None \<Rightarrow> m | Some S \<Rightarrow> m(k \<mapsto> S - {v}))"

definition retain_without :: "uuid \<Rightarrow> (uuid \<rightharpoonup> uuid set) \<Rightarrow> uuid \<rightharpoonup> uuid set" where
  "retain_without svc m = (\<lambda>t. case m t of None \<Rightarrow> None
     | Some S \<Rightarrow> if S - {svc} = {} then None else Some (S - {svc}))"

definition readd_tenant :: "uuid \<Rightarrow> string \<Rightarrow> claim_registry \<Rightarrow> claim_registry" where
  "readd_tenant svc key reg = (case claims reg key of
       None \<Rightarrow> reg
     | Some owner \<Rightarrow> reg\<lparr>tenant_services := set_entry_insert (own_tenant owner) svc (tenant_services reg)\<rparr>)"

definition rebuild_tenant_index_for_service :: "uuid \<Rightarrow> claim_registry \<Rightarrow> claim_registry" where
  "rebuild_tenant_index_for_service svc reg =
     (let reg1 = reg\<lparr>tenant_services := retain_without svc (tenant_services reg)\<rparr>
      in case by_service reg1 svc of
           None \<Rightarrow> reg1
         | Some keys \<Rightarrow> fold (readd_tenant svc) (btree_iter keys) reg1)"

section \<open>Queries\<close>

definition service_claims :: "claim_registry \<Rightarrow> uuid \<Rightarrow> string set" where
  "service_claims reg svc = get_or_empty (by_service reg) svc"

definition services_for_tenant :: "claim_registry \<Rightarrow> uuid \<Rightarrow> uuid set" where
  "services_for_tenant reg t = get_or_empty (tenant_services reg) t"

definition tenants_for_service :: "claim_registry \<Rightarrow> uuid \<Rightarrow> uuid set" where
  "tenants_for_service reg svc = (case by_service reg svc of
       None \<Rightarrow> {}
     | Some keys \<Rightarrow> own_tenant ` the ` (claims reg ` keys - {None}))"

definition tenant_for_key :: "claim_registry \<Rightarrow> string \<Rightarrow> uuid option" where
  "tenant_for_key reg key = map_option own_tenant (claims reg key)"

definition local_claims :: "claim_registry \<Rightarrow> uuid \<Rightarrow> string \<rightharpoonup> uuid \<times> uuid \<times> instant" where
  "local_claims reg ctrl = (\<lambda>key. case claims reg key of
       None \<Rightarrow> None
     | Some owner \<Rightarrow> if own_controller owner = ctrl
         then Some (own_service owner, own_tenant owner, own_claimed_at owner) else None)"

text \<open>The result only has the services with at least one of the keys.\<close>

definition find_pending_desires_for_keys :: "claim_registry \<Rightarrow> string set \<Rightarrow> uuid \<rightharpoonup> (string \<rightharpoonup> uuid)" where
  "find_pending_desires_for_keys reg keys = (\<lambda>svc. case pending_desires reg svc of
       None \<Rightarrow> None
     | Some desires \<Rightarrow> if dom desires \<inter> keys = {} then None else Some (desires |` keys))"

definition new_tenants :: "claim_result \<Rightarrow> uuid set" where
  "new_tenants r = cr_tenants_after r - cr_tenants_before r"

section \<open>Operations\<close>

definition insert_claim :: "string \<Rightarrow> claim_owner \<Rightarrow> claim_registry \<Rightarrow> claim_registry" where
  "insert_claim key owner reg =
     reg\<lparr>claims := (claims reg)(key \<mapsto> owner),
         by_service := set_entry_insert (own_service owner) key (by_service reg)\<rparr>"

definition remove_claim :: "uuid \<Rightarrow> string \<Rightarrow> claim_registry \<Rightarrow> claim_registry" where
  "remove_claim svc key reg =
     reg\<lparr>claims := (claims reg)(key := None), by_service := set_entry_remove svc key (by_service reg)\<rparr>"

subsection \<open>Claiming\<close>

definition release_undesired ::
  "uuid \<Rightarrow> string \<Rightarrow> claim_registry \<times> (string \<rightharpoonup> uuid) \<Rightarrow> claim_registry \<times> (string \<rightharpoonup> uuid)" where
  "release_undesired svc key st = (case st of (reg, released) \<Rightarrow>
     (remove_claim svc key reg,
      (case claims reg key of
         None \<Rightarrow> released
       | Some owner \<Rightarrow> released(key \<mapsto> own_tenant owner))))"

definition claim_desired ::
  "uuid \<Rightarrow> uuid \<Rightarrow> instant \<Rightarrow> (string \<rightharpoonup> uuid) \<Rightarrow> string
     \<Rightarrow> claim_registry \<times> string set \<times> string set \<Rightarrow> claim_registry \<times> string set \<times> string set" where
  "claim_desired svc ctrl now desired key st = (case st of (reg, granted, rejected) \<Rightarrow>
     (let taken = (case claims reg key of
          None \<Rightarrow> False | Some existing \<Rightarrow> own_service existing \<noteq> svc)
      in if taken then (reg, granted, insert key rejected)
         else (insert_claim key \<lparr>own_service = svc, own_controller = ctrl,
                 own_tenant = the (desired key), own_claimed_at = now\<rparr> reg,
               insert key granted, rejected)))"

definition update_desires :: "uuid \<Rightarrow> (string \<rightharpoonup> uuid) \<Rightarrow> string set \<Rightarrow> claim_registry \<Rightarrow> claim_registry" where
  "update_desires svc desired rejected reg =
     reg\<lparr>pending_desires :=
       (if rejected = {} then (pending_desires reg)(svc := None)
        else (pending_desires reg)(svc \<mapsto> desired |` rejected))\<rparr>"

definition try_claim ::
  "uuid \<Rightarrow> uuid \<Rightarrow> (string \<rightharpoonup> uuid) \<Rightarrow> instant \<Rightarrow> claim_registry \<Rightarrow> claim_result \<times> claim_registry" where
  "try_claim svc ctrl desired now reg =
     (let tenants_before = tenants_for_service reg svc;
          current_keys = get_or_empty (by_service reg) svc;
          desired_keys = dom desired;
          to_release = current_keys - desired_keys;
          (reg1, released) = fold (release_undesired svc) (btree_iter to_release) (reg, Map.empty);
          to_claim = desired_keys - current_keys;
          (reg2, granted, rejected) =
            fold (claim_desired svc ctrl now desired) (btree_iter to_claim) (reg1, {}, {});
          reg3 = update_desires svc desired rejected reg2;
          reg4 = rebuild_tenant_index_for_service svc reg3
      in (\<lparr>cr_granted = granted, cr_rejected = rejected, cr_released = released,
            cr_tenants_after = tenants_for_service reg4 svc, cr_tenants_before = tenants_before\<rparr>,
          reg4))"

subsection \<open>Releasing\<close>

definition release_claim ::
  "string \<Rightarrow> claim_registry \<times> (string \<rightharpoonup> uuid) \<Rightarrow> claim_registry \<times> (string \<rightharpoonup> uuid)" where
  "release_claim key st = (case st of (reg, released) \<Rightarrow>
     (reg\<lparr>claims := (claims reg)(key := None)\<rparr>,
      (case claims reg key of
         None \<Rightarrow> released
       | Some owner \<Rightarrow> released(key \<mapsto> own_tenant owner))))"

definition release :: "uuid \<Rightarrow> claim_registry \<Rightarrow> (string \<rightharpoonup> uuid) \<times> claim_registry" where
  "release svc reg =
     (let (reg1, released) =
            (case by_service reg svc of
               None \<Rightarrow> (reg, Map.empty)
             | Some keys \<Rightarrow> fold release_claim (btree_iter keys)
                 (reg\<lparr>by_service := (by_service reg)(svc := None)\<rparr>, Map.empty));
          reg2 = reg1\<lparr>pending_desires := (pending_desires reg1)(svc := None)\<rparr>
      in (released, rebuild_tenant_index_for_service svc reg2))"

definition owned_by :: "uuid \<Rightarrow> claim_owner option \<Rightarrow> bool" where
  "owned_by svc owner = (case owner of None \<Rightarrow> False | Some ow \<Rightarrow> own_service ow = svc)"

definition release_key ::
  "uuid \<Rightarrow> string \<Rightarrow> claim_registry \<times> (string \<rightharpoonup> uuid) \<Rightarrow> claim_registry \<times> (string \<rightharpoonup> uuid)" where
  "release_key svc key st = (case st of (reg, released) \<Rightarrow>
     (if owned_by svc (claims reg key)
      then (remove_claim svc key reg,
            released(key \<mapsto> own_tenant (the (claims reg key))))
      else (reg, released)))"

definition release_keys :: "uuid \<Rightarrow> string set \<Rightarrow> claim_registry \<Rightarrow> (string \<rightharpoonup> uuid) \<times> claim_registry" where
  "release_keys svc keys reg =
     (let (reg1, released) = fold (release_key svc) (btree_iter keys) (reg, Map.empty)
      in (released, if released \<noteq> Map.empty then rebuild_tenant_index_for_service svc reg1 else reg1))"

subsection \<open>Announcements of other controllers\<close>

definition remote_release :: "uuid \<Rightarrow> string \<Rightarrow> claim_registry \<Rightarrow> claim_registry" where
  "remote_release svc key reg =
     (if owned_by svc (claims reg key)
      then remove_claim svc key reg
      else reg)"

definition remote_wins :: "instant \<Rightarrow> uuid \<Rightarrow> claim_owner \<Rightarrow> bool" where
  "remote_wins claimed_at svc existing \<longleftrightarrow> claimed_at < own_claimed_at existing \<or>
     claimed_at = own_claimed_at existing \<and> svc < own_service existing"

definition remote_claim ::
  "uuid \<Rightarrow> uuid \<Rightarrow> (string \<rightharpoonup> uuid) \<Rightarrow> instant \<Rightarrow> string
     \<Rightarrow> claim_registry \<times> (uuid \<rightharpoonup> string set) \<Rightarrow> claim_registry \<times> (uuid \<rightharpoonup> string set)" where
  "remote_claim svc ctrl claimed claimed_at key st = (case st of (reg, revocations) \<Rightarrow>
     (let owner = \<lparr>own_service = svc, own_controller = ctrl, own_tenant = the (claimed key),
            own_claimed_at = claimed_at\<rparr>
      in case claims reg key of
           None \<Rightarrow> (insert_claim key owner reg, revocations)
         | Some existing \<Rightarrow>
             if own_service existing = svc then (insert_claim key owner reg, revocations)
             else if remote_wins claimed_at svc existing
             then (insert_claim key owner
                     (reg\<lparr>by_service := set_entry_remove (own_service existing) key (by_service reg)\<rparr>),
                   set_entry_insert (own_service existing) key revocations)
             else (reg, revocations)))"

text \<open>The revocations are a hash map; \<open>iter\<close> is the order in which it is walked.\<close>

definition apply_remote_announcement ::
  "(uuid set \<Rightarrow> uuid list) \<Rightarrow> uuid \<Rightarrow> uuid \<Rightarrow> (string \<rightharpoonup> uuid) \<Rightarrow> string set \<Rightarrow> instant
     \<Rightarrow> claim_registry \<Rightarrow> revocation list \<times> claim_registry" where
  "apply_remote_announcement iter svc ctrl claimed released claimed_at reg =
     (let reg1 = fold (remote_release svc) (btree_iter released) reg;
          (reg2, revocations) = fold (remote_claim svc ctrl claimed claimed_at)
             (btree_iter (dom claimed)) (reg1, Map.empty);
          reg3 = rebuild_tenant_index_for_service svc reg2;
          losers = iter (dom revocations)
      in (map (\<lambda>s. \<lparr>rev_service = s, rev_keys = get_or_empty revocations s\<rparr>) losers,
          fold rebuild_tenant_index_for_service losers reg3))"

definition sync_claim ::
  "uuid \<Rightarrow> (string \<rightharpoonup> uuid \<times> uuid \<times> instant) \<Rightarrow> string \<Rightarrow> claim_registry \<Rightarrow> claim_registry" where
  "sync_claim ctrl remote key reg =
     (if claims reg key \<noteq> None then reg
      else case the (remote key) of (svc, tenant, claimed_at) \<Rightarrow>
        (let reg1 = insert_claim key \<lparr>own_service = svc, own_controller = ctrl, own_tenant = tenant,
               own_claimed_at = claimed_at\<rparr> reg
         in reg1\<lparr>tenant_services := set_entry_insert tenant svc (tenant_services reg1)\<rparr>))"

definition apply_sync_response ::
  "uuid \<Rightarrow> (string \<rightharpoonup> uuid \<times> uuid \<times> instant) \<Rightarrow> claim_registry \<Rightarrow> claim_registry" where
  "apply_sync_response ctrl remote reg = fold (sync_claim ctrl remote) (btree_iter (dom remote)) reg"

section \<open>The invariant\<close>

definition serves :: "claim_registry \<Rightarrow> uuid \<Rightarrow> uuid \<Rightarrow> bool" where
  "serves reg svc t \<longleftrightarrow> (\<exists>key owner. claims reg key = Some owner \<and> own_service owner = svc \<and> own_tenant owner = t)"

definition keys_exact :: "claim_registry \<Rightarrow> bool" where
  "keys_exact reg \<longleftrightarrow> finite (dom (claims reg)) \<and>
     (\<forall>svc key. key \<in> service_claims reg svc \<longleftrightarrow> owned_by svc (claims reg key))"

text \<open>The tenant index is exact for the services outside \<open>X\<close>, and keeps no empty entry.\<close>

definition tenants_exact :: "uuid set \<Rightarrow> claim_registry \<Rightarrow> bool" where
  "tenants_exact X reg \<longleftrightarrow> (\<forall>t. tenant_services reg t \<noteq> Some {}) \<and>
     (\<forall>svc t. svc \<notin> X \<longrightarrow> (svc \<in> services_for_tenant reg t \<longleftrightarrow> serves reg svc t))"

definition desires_wf :: "claim_registry \<Rightarrow> bool" where
  "desires_wf reg \<longleftrightarrow> finite (dom (pending_desires reg)) \<and>
     (\<forall>svc d. pending_desires reg svc = Some d \<longrightarrow> finite (dom d) \<and> d \<noteq> Map.empty)"

definition registry_inv :: "claim_registry \<Rightarrow> bool" where
  "registry_inv reg \<longleftrightarrow> keys_exact reg \<and> tenants_exact {} reg \<and> desires_wf reg"

subsection \<open>Maps of sets\<close>

lemma get_or_empty_insert [simp]:
  "get_or_empty (set_entry_insert k v m) k' = (if k' = k then insert v (get_or_empty m k) else get_or_empty m k')"
  by (simp add: get_or_empty_def set_entry_insert_def)

lemma get_or_empty_remove [simp]:
  "get_or_empty (set_entry_remove k v m) k' = (if k' = k then get_or_empty m k - {v} else get_or_empty m k')"
  by (simp add: get_or_empty_def set_entry_remove_def split: option.splits)

lemma get_or_empty_retain [simp]: "get_or_empty (retain_without svc m) t = get_or_empty m t - {svc}"
  by (auto simp: get_or_empty_def retain_without_def split: option.splits)

lemma get_or_empty_upd [simp]:
  "get_or_empty (m(k := v)) k' = (if k' = k then case_option {} id v else get_or_empty m k')"
  by (simp add: get_or_empty_def split: option.split)

lemma set_entry_insert_not_empty: "m t \<noteq> Some {} \<Longrightarrow> set_entry_insert k v m t \<noteq> Some {}"
  by (simp add: set_entry_insert_def)

lemma retain_not_empty: "retain_without svc m t \<noteq> Some {}"
  by (simp add: retain_without_def split: option.splits)

lemma owned_by_simps [simp]:
  "\<not> owned_by svc None" "owned_by svc (Some ow) \<longleftrightarrow> own_service ow = svc"
  by (simp_all add: owned_by_def)

lemma owned_by_iff: "owned_by svc m \<longleftrightarrow> (\<exists>ow. m = Some ow \<and> own_service ow = svc)"
  by (cases m) simp_all

lemma owned_by_unique: "owned_by a m \<Longrightarrow> owned_by b m \<Longrightarrow> a = b"
  by (auto simp: owned_by_iff)

subsection \<open>Rebuilding the tenant index\<close>

lemma readd_tenant_frame [simp]:
  "claims (readd_tenant svc key reg) = claims reg"
  "by_service (readd_tenant svc key reg) = by_service reg"
  "pending_desires (readd_tenant svc key reg) = pending_desires reg"
  by (simp_all add: readd_tenant_def split: option.split)

lemma readd_tenants_frame [simp]:
  "claims (fold (readd_tenant svc) ks reg) = claims reg"
  "by_service (fold (readd_tenant svc) ks reg) = by_service reg"
  "pending_desires (fold (readd_tenant svc) ks reg) = pending_desires reg"
  by (induction ks arbitrary: reg) simp_all

lemma services_readd_tenants:
  "services_for_tenant (fold (readd_tenant svc) ks reg) t = services_for_tenant reg t \<union>
     (if \<exists>key \<in> set ks. tenant_for_key reg key = Some t then {svc} else {})"
proof (induction ks arbitrary: reg)
  case Nil
  then show ?case by simp
next
  case (Cons key ks)
  have "tenant_for_key (readd_tenant svc key reg) k = tenant_for_key reg k" for k
    by (simp add: tenant_for_key_def)
  moreover have "services_for_tenant (readd_tenant svc key reg) t = services_for_tenant reg t \<union>
      (if tenant_for_key reg key = Some t then {svc} else {})"
    by (cases "claims reg key") (auto simp: readd_tenant_def services_for_tenant_def tenant_for_key_def)
  ultimately show ?case using Cons by auto
qed

lemma readd_tenants_not_empty:
  "\<forall>t. tenant_services reg t \<noteq> Some {} \<Longrightarrow> tenant_services (fold (readd_tenant svc) ks reg) t \<noteq> Some {}"
proof (induction ks arbitrary: reg)
  case (Cons key ks)
  have "\<forall>t. tenant_services (readd_tenant svc key reg) t \<noteq> Some {}"
    using Cons.prems by (simp add: readd_tenant_def set_entry_insert_not_empty split: option.split)
  then show ?case using Cons.IH by simp
qed simp

lemma rebuild_frame [simp]:
  "claims (rebuild_tenant_index_for_service svc reg) = claims reg"
  "by_service (rebuild_tenant_index_for_service svc reg) = by_service reg"
  "pending_desires (rebuild_tenant_index_for_service svc reg) = pending_desires reg"
  by (simp_all add: rebuild_tenant_index_for_service_def Let_def split: option.split)

lemma rebuild_keys_exact [simp]: "keys_exact (rebuild_tenant_index_for_service svc reg) = keys_exact reg"
  by (simp add: keys_exact_def service_claims_def)

lemma rebuild_desires_wf [simp]: "desires_wf (rebuild_tenant_index_for_service svc reg) = desires_wf reg"
  by (simp add: desires_wf_def)

lemma serves_iff: "keys_exact reg \<Longrightarrow> serves reg svc t \<longleftrightarrow> (\<exists>key \<in> service_claims reg svc. tenant_for_key reg key = Some t)"
  unfolding keys_exact_def serves_def tenant_for_key_def by (auto simp: owned_by_iff) blast

lemma finite_service_claims: "keys_exact reg \<Longrightarrow> finite (service_claims reg svc)"
  unfolding keys_exact_def
  by (rule finite_subset[of _ "dom (claims reg)"]) (auto simp: owned_by_iff)

lemma services_rebuild:
  assumes "keys_exact reg"
  shows "services_for_tenant (rebuild_tenant_index_for_service svc reg) t =
    (services_for_tenant reg t - {svc}) \<union> (if serves reg svc t then {svc} else {})"
proof (cases "by_service reg svc")
  case None
  then have "service_claims reg svc = {}" by (simp add: service_claims_def get_or_empty_def)
  then show ?thesis using None serves_iff[OF assms]
    by (simp add: rebuild_tenant_index_for_service_def services_for_tenant_def)
next
  case (Some keys)
  then have k: "service_claims reg svc = keys" by (simp add: service_claims_def get_or_empty_def)
  then have i: "set (btree_iter keys) = keys" using finite_service_claims[OF assms, of svc] by simp
  have s: "serves reg svc t \<longleftrightarrow> (\<exists>key \<in> keys. tenant_for_key reg key = Some t)"
    using serves_iff[OF assms] k by simp
  let ?reg1 = "reg\<lparr>tenant_services := retain_without svc (tenant_services reg)\<rparr>"
  have "rebuild_tenant_index_for_service svc reg = fold (readd_tenant svc) (btree_iter keys) ?reg1"
    using Some by (simp add: rebuild_tenant_index_for_service_def)
  moreover have "services_for_tenant ?reg1 t = services_for_tenant reg t - {svc}"
    and "tenant_for_key ?reg1 key = tenant_for_key reg key" for key
    by (simp_all add: services_for_tenant_def tenant_for_key_def)
  ultimately show ?thesis by (simp only: services_readd_tenants i s)
qed

lemma rebuild_tenants_exact:
  assumes "keys_exact reg" "tenants_exact X reg"
  shows "tenants_exact (X - {svc}) (rebuild_tenant_index_for_service svc reg)"
proof -
  have "tenant_services (rebuild_tenant_index_for_service svc reg) t \<noteq> Some {}" for t
    unfolding rebuild_tenant_index_for_service_def Let_def
    by (cases "by_service reg svc") (simp_all add: retain_not_empty readd_tenants_not_empty)
  moreover have "serves (rebuild_tenant_index_for_service svc reg) s t = serves reg s t" for s t
    by (simp add: serves_def)
  ultimately show ?thesis
    using assms(2) unfolding tenants_exact_def services_rebuild[OF assms(1)] by auto
qed

lemma rebuilds_frame [simp]:
  "claims (fold rebuild_tenant_index_for_service ss reg) = claims reg"
  "by_service (fold rebuild_tenant_index_for_service ss reg) = by_service reg"
  "pending_desires (fold rebuild_tenant_index_for_service ss reg) = pending_desires reg"
  by (induction ss arbitrary: reg) simp_all

lemma rebuilds_tenants_exact:
  "keys_exact reg \<Longrightarrow> tenants_exact X reg \<Longrightarrow>
     tenants_exact (X - set ss) (fold rebuild_tenant_index_for_service ss reg)"
proof (induction ss arbitrary: X reg)
  case (Cons s ss)
  from Cons.IH[of "rebuild_tenant_index_for_service s reg" "X - {s}"] Cons.prems
  show ?case by (simp add: rebuild_tenants_exact Diff_insert2[symmetric])
qed simp

subsection \<open>Changes to the claims of some services\<close>

text \<open>\<open>touches X reg reg'\<close>: only claims of services in \<open>X\<close> come, go or change between the two
  registries, and the tenant index has not been updated yet.\<close>

definition touches :: "uuid set \<Rightarrow> claim_registry \<Rightarrow> claim_registry \<Rightarrow> bool" where
  "touches X reg reg' \<longleftrightarrow> tenant_services reg' = tenant_services reg \<and>
     (\<forall>key svc. svc \<notin> X \<longrightarrow> owned_by svc (claims reg key) \<or> owned_by svc (claims reg' key) \<longrightarrow>
        claims reg' key = claims reg key)"

lemma touches_serves:
  assumes "touches X reg reg'" "svc \<notin> X" shows "serves reg' svc t = serves reg svc t"
proof -
  have *: "claims reg' key = claims reg key"
    if "owned_by svc (claims reg key) \<or> owned_by svc (claims reg' key)" for key
    using assms that unfolding touches_def by blast
  have s: "serves r svc t \<longleftrightarrow> (\<exists>key. owned_by svc (claims r key) \<and> tenant_for_key r key = Some t)" for r
    by (auto simp: serves_def owned_by_iff tenant_for_key_def) blast
  show ?thesis unfolding s tenant_for_key_def using * by metis
qed

lemma touches_tenants_exact:
  assumes "touches X reg reg'" "tenants_exact {} reg" shows "tenants_exact X reg'"
proof -
  have "services_for_tenant reg' t = services_for_tenant reg t" for t
    using assms(1) by (simp add: touches_def services_for_tenant_def)
  then show ?thesis using assms touches_serves[OF assms(1)]
    by (simp add: tenants_exact_def touches_def)
qed

lemma rebuild_touched:
  assumes "touches {svc} reg reg'" "tenants_exact {} reg" "keys_exact reg'"
  shows "tenants_exact {} (rebuild_tenant_index_for_service svc reg')"
  using rebuild_tenants_exact[OF assms(3) touches_tenants_exact[OF assms(1,2)], of svc] by simp

lemma rebuilds_touched:
  assumes "touches X reg reg'" "tenants_exact {} reg" "keys_exact reg'" "X \<subseteq> set ss"
  shows "tenants_exact {} (fold rebuild_tenant_index_for_service ss reg')"
  using rebuilds_tenants_exact[OF assms(3) touches_tenants_exact[OF assms(1,2)], of ss] assms(4)
  by (simp add: Diff_eq_empty_iff[THEN iffD2])

lemma touchesI:
  assumes "tenant_services reg' = tenant_services reg"
    and "\<And>k s. claims reg' k \<noteq> claims reg k \<Longrightarrow> owned_by s (claims reg k) \<or> owned_by s (claims reg' k) \<Longrightarrow> s \<in> X"
  shows "touches X reg reg'"
  using assms unfolding touches_def by blast

lemma touches_refl [simp]: "touches X reg reg"
  by (simp add: touches_def)

lemma touches_trans: "touches X a b \<Longrightarrow> touches Y b c \<Longrightarrow> touches (X \<union> Y) a c"
  unfolding touches_def by (metis UnCI)

lemma touches_trans_same: "touches X a b \<Longrightarrow> touches X b c \<Longrightarrow> touches X a c"
  using touches_trans[of X a b X c] by simp

lemma keys_exact_finite: "keys_exact reg \<Longrightarrow> finite (dom (claims reg))"
  by (simp add: keys_exact_def)

lemma keys_exactD: "keys_exact reg \<Longrightarrow> key \<in> service_claims reg svc \<longleftrightarrow> owned_by svc (claims reg key)"
  by (simp add: keys_exact_def)

lemma remove_claim_frame [simp]:
  "claims (remove_claim svc key reg) = (claims reg)(key := None)"
  "tenant_services (remove_claim svc key reg) = tenant_services reg"
  "pending_desires (remove_claim svc key reg) = pending_desires reg"
  by (simp_all add: remove_claim_def)

lemma insert_claim_frame [simp]:
  "claims (insert_claim key ow reg) = (claims reg)(key \<mapsto> ow)"
  "tenant_services (insert_claim key ow reg) = tenant_services reg"
  "pending_desires (insert_claim key ow reg) = pending_desires reg"
  by (simp_all add: insert_claim_def)

lemma service_claims_remove [simp]:
  "service_claims (remove_claim svc key reg) s =
     (if s = svc then service_claims reg svc - {key} else service_claims reg s)"
  by (simp add: service_claims_def remove_claim_def)

lemma service_claims_insert [simp]:
  "service_claims (insert_claim key ow reg) s =
     (if s = own_service ow then insert key (service_claims reg s) else service_claims reg s)"
  by (simp add: service_claims_def insert_claim_def)

lemma remove_claim_exact:
  assumes k: "keys_exact reg" and o: "owned_by svc (claims reg key)"
  shows "keys_exact (remove_claim svc key reg)" and "touches {svc} reg (remove_claim svc key reg)"
proof -
  have u: "s = svc" if "owned_by s (claims reg key)" for s using owned_by_unique[OF that o] .
  have "k' \<in> service_claims (remove_claim svc key reg) s \<longleftrightarrow> owned_by s (((claims reg)(key := None)) k')" for k' s
    using keys_exactD[OF k] u[of s] by (cases "k' = key") auto
  then show "keys_exact (remove_claim svc key reg)"
    using keys_exact_finite[OF k] by (simp add: keys_exact_def del: service_claims_remove)
  show "touches {svc} reg (remove_claim svc key reg)"
    by (rule touchesI) (use u in \<open>auto split: if_splits\<close>)
qed

lemma insert_claim_exact:
  assumes k: "keys_exact reg" and o: "claims reg key = None \<or> owned_by (own_service ow) (claims reg key)"
  shows "keys_exact (insert_claim key ow reg)" and "touches {own_service ow} reg (insert_claim key ow reg)"
proof -
  have u: "s = own_service ow" if "owned_by s (claims reg key)" for s
    using o that owned_by_unique[OF that, of "own_service ow"] by force
  have "k' \<in> service_claims (insert_claim key ow reg) s \<longleftrightarrow> owned_by s (((claims reg)(key \<mapsto> ow)) k')" for k' s
    using keys_exactD[OF k] u[of s] by (cases "k' = key") auto
  then show "keys_exact (insert_claim key ow reg)"
    using keys_exact_finite[OF k] by (simp add: keys_exact_def del: service_claims_insert)
  show "touches {own_service ow} reg (insert_claim key ow reg)"
    by (rule touchesI) (use u in \<open>auto split: if_splits\<close>)
qed

subsection \<open>The loops\<close>

text \<open>What a loop that works on the claims of the services in \<open>X\<close> keeps and gives.\<close>

definition loop_effect :: "uuid set \<Rightarrow> (string \<rightharpoonup> claim_owner) \<Rightarrow> claim_registry \<Rightarrow> claim_registry \<Rightarrow> bool" where
  "loop_effect X m reg reg' \<longleftrightarrow> keys_exact reg' \<and> touches X reg reg' \<and> claims reg' = m \<and>
     pending_desires reg' = pending_desires reg"

lemma loop_effect_refl: "keys_exact reg \<Longrightarrow> loop_effect X (claims reg) reg reg"
  by (simp add: loop_effect_def)

lemma loop_effect_trans:
  "loop_effect X m a b \<Longrightarrow> loop_effect X m' b c \<Longrightarrow> loop_effect X m' a c"
  unfolding loop_effect_def using touches_trans_same by metis

lemma remove_effect:
  "keys_exact reg \<Longrightarrow> owned_by svc (claims reg key) \<Longrightarrow>
     loop_effect {svc} ((claims reg)(key := None)) reg (remove_claim svc key reg)"
  by (simp add: loop_effect_def remove_claim_exact)

lemma insert_effect:
  "keys_exact reg \<Longrightarrow> claims reg key = None \<or> owned_by (own_service ow) (claims reg key) \<Longrightarrow>
     loop_effect {own_service ow} ((claims reg)(key \<mapsto> ow)) reg (insert_claim key ow reg)"
  by (simp only: loop_effect_def insert_claim_exact insert_claim_frame simp_thms)

lemma restrict_insert_upd: "(m(k := None)) |` (- S) = m |` (- insert k S)"
  by (auto simp: restrict_map_def)

lemma restrict_UNIV: "m |` UNIV = m"
  by (simp add: restrict_map_def)

lemma release_undesired_loop:
  assumes "keys_exact reg" "\<forall>k \<in> set ks. owned_by svc (claims reg k)" "distinct ks"
  shows "loop_effect {svc} (claims reg |` (- set ks)) reg (fst (fold (release_undesired svc) ks (reg, rel))) \<and>
    snd (fold (release_undesired svc) ks (reg, rel)) = rel ++ (tenant_for_key reg |` set ks)"
  using assms
proof (induction ks arbitrary: reg rel)
  case Nil
  then show ?case by (simp add: loop_effect_refl)
next
  case (Cons k ks)
  obtain ow where ow: "claims reg k = Some ow" "own_service ow = svc"
    using Cons.prems(2) by (auto simp: owned_by_iff)
  let ?reg = "remove_claim svc k reg" and ?rel = "rel(k \<mapsto> own_tenant ow)"
  have st: "release_undesired svc k (reg, rel) = (?reg, ?rel)" using ow by (simp add: release_undesired_def)
  have e: "loop_effect {svc} ((claims reg)(k := None)) reg ?reg"
    by (rule remove_effect) (use Cons.prems in simp_all)
  have ih: "loop_effect {svc} (claims ?reg |` (- set ks)) ?reg (fst (fold (release_undesired svc) ks (?reg, ?rel))) \<and>
      snd (fold (release_undesired svc) ks (?reg, ?rel)) = ?rel ++ (tenant_for_key ?reg |` set ks)"
    by (rule Cons.IH) (use Cons.prems e in \<open>auto simp: loop_effect_def\<close>)
  have m: "claims ?reg |` (- set ks) = claims reg |` (- set (k # ks))"
    by (simp only: remove_claim_frame restrict_insert_upd list.set)
  have r: "?rel ++ (tenant_for_key ?reg |` set ks) = rel ++ (tenant_for_key reg |` set (k # ks))"
    using Cons.prems(3) ow
    by (auto simp: fun_eq_iff map_add_def restrict_map_def tenant_for_key_def split: option.split)
  show ?case
    using loop_effect_trans[OF e conjunct1[OF ih[unfolded m r]]] conjunct2[OF ih[unfolded m r]] st by simp
qed

definition claim_entry :: "uuid \<Rightarrow> uuid \<Rightarrow> instant \<Rightarrow> uuid \<Rightarrow> claim_owner" where
  "claim_entry svc ctrl now t = \<lparr>own_service = svc, own_controller = ctrl, own_tenant = t, own_claimed_at = now\<rparr>"

lemma claim_entry_simps [simp]:
  "own_service (claim_entry svc ctrl now t) = svc" "own_controller (claim_entry svc ctrl now t) = ctrl"
  "own_tenant (claim_entry svc ctrl now t) = t" "own_claimed_at (claim_entry svc ctrl now t) = now"
  by (simp_all add: claim_entry_def)

text \<open>A key is free for a service when nobody, or the service itself, owns it.\<close>

definition free_for :: "uuid \<Rightarrow> claim_owner option \<Rightarrow> bool" where
  "free_for svc m \<longleftrightarrow> m = None \<or> owned_by svc m"

definition claim_free :: "uuid \<Rightarrow> uuid \<Rightarrow> instant \<Rightarrow> (string \<rightharpoonup> uuid) \<Rightarrow> string set \<Rightarrow> (string \<rightharpoonup> claim_owner)
    \<Rightarrow> string \<rightharpoonup> claim_owner" where
  "claim_free svc ctrl now desired K m = (\<lambda>k. if k \<in> K \<and> free_for svc (m k)
     then Some (claim_entry svc ctrl now (the (desired k))) else m k)"

lemma claim_desired_step:
  "claim_desired svc ctrl now desired k (reg, g, r) =
     (if free_for svc (claims reg k)
      then (insert_claim k (claim_entry svc ctrl now (the (desired k))) reg, insert k g, r)
      else (reg, g, insert k r))"
  by (cases "claims reg k") (simp_all add: claim_desired_def free_for_def claim_entry_def)

lemma claim_desired_loop:
  assumes "keys_exact reg" "distinct ks"
  shows "\<exists>reg'. fold (claim_desired svc ctrl now desired) ks (reg, g, r) =
      (reg', g \<union> {k \<in> set ks. free_for svc (claims reg k)}, r \<union> {k \<in> set ks. \<not> free_for svc (claims reg k)}) \<and>
    loop_effect {svc} (claim_free svc ctrl now desired (set ks) (claims reg)) reg reg'"
  using assms
proof (induction ks arbitrary: reg g r)
  case Nil
  then show ?case by (simp add: loop_effect_refl claim_free_def)
next
  case (Cons k ks)
  let ?ow = "claim_entry svc ctrl now (the (desired k))"
  have d: "distinct ks" using Cons.prems(2) by simp
  show ?case
  proof (cases "free_for svc (claims reg k)")
    case True
    let ?reg = "insert_claim k ?ow reg"
    have e: "loop_effect {svc} ((claims reg)(k \<mapsto> ?ow)) reg ?reg"
      using insert_effect[OF Cons.prems(1), of k ?ow] True by (simp add: free_for_def)
    then have kx: "keys_exact ?reg" by (simp add: loop_effect_def)
    have same: "claims ?reg k' = claims reg k'" if "k' \<in> set ks" for k'
      using that Cons.prems(2) by auto
    obtain reg' where ih: "fold (claim_desired svc ctrl now desired) ks (?reg, insert k g, r) =
        (reg', insert k g \<union> {k \<in> set ks. free_for svc (claims ?reg k)}, r \<union> {k \<in> set ks. \<not> free_for svc (claims ?reg k)})"
      "loop_effect {svc} (claim_free svc ctrl now desired (set ks) (claims ?reg)) ?reg reg'"
      using Cons.IH[OF kx d, of "insert k g" r] by blast
    have m: "claim_free svc ctrl now desired (set ks) (claims ?reg) =
        claim_free svc ctrl now desired (set (k # ks)) (claims reg)"
      using True Cons.prems(2) by (auto simp: fun_eq_iff claim_free_def)
    show ?thesis using ih(1) loop_effect_trans[OF e ih(2)[unfolded m]] True same
      by (auto simp: claim_desired_step simp del: insert_claim_frame)
  next
    case False
    obtain reg' where ih: "fold (claim_desired svc ctrl now desired) ks (reg, g, insert k r) =
        (reg', g \<union> {k \<in> set ks. free_for svc (claims reg k)}, insert k r \<union> {k \<in> set ks. \<not> free_for svc (claims reg k)})"
      "loop_effect {svc} (claim_free svc ctrl now desired (set ks) (claims reg)) reg reg'"
      using Cons.IH[OF Cons.prems(1) d, of g "insert k r"] by blast
    have m: "claim_free svc ctrl now desired (set ks) (claims reg) =
        claim_free svc ctrl now desired (set (k # ks)) (claims reg)"
      using False by (auto simp: fun_eq_iff claim_free_def)
    show ?thesis using ih(1) ih(2)[unfolded m] False by (auto simp: claim_desired_step)
  qed
qed

subsection \<open>Claiming\<close>

text \<open>The owner map after a claim, as the protocol describes it: a desired key that nobody owns goes
  to the service, a desired key with an owner keeps it, and every other key of the service is free.\<close>

definition claim_spec ::
  "uuid \<Rightarrow> uuid \<Rightarrow> (string \<rightharpoonup> uuid) \<Rightarrow> instant \<Rightarrow> (string \<rightharpoonup> claim_owner) \<Rightarrow> string \<rightharpoonup> claim_owner" where
  "claim_spec svc ctrl desired now m = (\<lambda>k. case desired k of
       None \<Rightarrow> if owned_by svc (m k) then None else m k
     | Some t \<Rightarrow> (case m k of None \<Rightarrow> Some (claim_entry svc ctrl now t) | Some ow \<Rightarrow> Some ow))"

lemma tenants_for_service_exact: "keys_exact reg \<Longrightarrow> tenants_for_service reg svc = {t. serves reg svc t}"
proof -
  assume k: "keys_exact reg"
  have "t \<in> tenants_for_service reg svc \<longleftrightarrow> (\<exists>key \<in> service_claims reg svc. tenant_for_key reg key = Some t)" for t
    by (cases "by_service reg svc")
      (force simp: tenants_for_service_def service_claims_def get_or_empty_def tenant_for_key_def image_iff)+
  then show ?thesis using serves_iff[OF k] by blast
qed

lemma registry_inv_keys: "registry_inv reg \<Longrightarrow> keys_exact reg"
  by (simp add: registry_inv_def)

lemma claim_loops_spec:
  "claim_free svc ctrl now desired (dom desired - K) (m |` (- (K - dom desired))) = claim_spec svc ctrl desired now m"
  if "\<And>k. k \<in> K \<longleftrightarrow> owned_by svc (m k)"
proof
  fix k
  show "claim_free svc ctrl now desired (dom desired - K) (m |` (- (K - dom desired))) k =
      claim_spec svc ctrl desired now m k"
    using that[of k]
    by (cases "m k"; cases "desired k") (auto simp: claim_free_def claim_spec_def free_for_def restrict_map_def dom_def)
qed

lemma desires_wf_update:
  assumes "desires_wf reg" "finite (dom desired)" "rej \<subseteq> dom desired" "pending_desires reg' = pending_desires reg"
  shows "desires_wf (update_desires svc desired rej reg')"
proof -
  have "finite (dom desired \<inter> rej)" "rej \<noteq> {} \<Longrightarrow> desired |` rej \<noteq> Map.empty"
    using assms(2,3) by (simp, metis dom_empty dom_restrict inf.absorb_iff2)
  then show ?thesis using assms unfolding desires_wf_def update_desires_def
    by (cases "rej = {}") auto
qed

lemma update_desires_frame [simp]:
  "claims (update_desires svc desired rej reg) = claims reg"
  "by_service (update_desires svc desired rej reg) = by_service reg"
  "tenant_services (update_desires svc desired rej reg) = tenant_services reg"
  "service_claims (update_desires svc desired rej reg) = service_claims reg"
  "keys_exact (update_desires svc desired rej reg) = keys_exact reg"
  by (simp_all add: update_desires_def service_claims_def keys_exact_def fun_eq_iff)

lemma touches_update_desires [simp]: "touches X reg (update_desires svc desired rej reg') = touches X reg reg'"
  by (simp add: touches_def)

definition rejected_keys :: "uuid \<Rightarrow> (string \<rightharpoonup> uuid) \<Rightarrow> (string \<rightharpoonup> claim_owner) \<Rightarrow> string set" where
  "rejected_keys svc desired m = {k \<in> dom desired. m k \<noteq> None \<and> \<not> owned_by svc (m k)}"

definition granted_keys :: "(string \<rightharpoonup> uuid) \<Rightarrow> (string \<rightharpoonup> claim_owner) \<Rightarrow> string set" where
  "granted_keys desired m = {k \<in> dom desired. m k = None}"

definition released_keys :: "uuid \<Rightarrow> (string \<rightharpoonup> uuid) \<Rightarrow> (string \<rightharpoonup> claim_owner) \<Rightarrow> string set" where
  "released_keys svc desired m = {k. owned_by svc (m k) \<and> desired k = None}"

lemma try_claim_loops:
  assumes kx: "keys_exact reg" and fin: "finite (dom desired)"
  shows "\<exists>reg1 reg2.
     fold (release_undesired svc) (btree_iter (service_claims reg svc - dom desired)) (reg, Map.empty) =
       (reg1, tenant_for_key reg |` released_keys svc desired (claims reg)) \<and>
     fold (claim_desired svc ctrl now desired) (btree_iter (dom desired - service_claims reg svc)) (reg1, {}, {}) =
       (reg2, granted_keys desired (claims reg), rejected_keys svc desired (claims reg)) \<and>
     loop_effect {svc} (claim_spec svc ctrl desired now (claims reg)) reg reg2"
proof -
  let ?K = "service_claims reg svc"
  have K: "k \<in> ?K \<longleftrightarrow> owned_by svc (claims reg k)" for k by (rule keys_exactD[OF kx])
  have Kf: "finite ?K" by (rule finite_service_claims[OF kx])
  let ?rel = "btree_iter (?K - dom desired)" and ?cl = "btree_iter (dom desired - ?K)"
  have sr: "set ?rel = ?K - dom desired" and sc: "set ?cl = dom desired - ?K" using Kf fin by simp_all
  obtain reg1 rel where f1: "fold (release_undesired svc) ?rel (reg, Map.empty) = (reg1, rel)" by (meson surj_pair)
  have e1: "loop_effect {svc} (claims reg |` (- (?K - dom desired))) reg reg1"
    and rel: "rel = tenant_for_key reg |` (?K - dom desired)"
    using release_undesired_loop[OF kx, of ?rel svc Map.empty] K f1 sr by auto
  then have k1: "keys_exact reg1" and c1: "claims reg1 = claims reg |` (- (?K - dom desired))"
    by (simp_all add: loop_effect_def)
  obtain reg2 where f2: "fold (claim_desired svc ctrl now desired) ?cl (reg1, {}, {}) =
      (reg2, {k \<in> dom desired - ?K. free_for svc (claims reg1 k)}, {k \<in> dom desired - ?K. \<not> free_for svc (claims reg1 k)})"
    and e2: "loop_effect {svc} (claim_free svc ctrl now desired (dom desired - ?K) (claims reg1)) reg1 reg2"
    using claim_desired_loop[OF k1, of ?cl svc ctrl now desired "{}" "{}"] sc by auto
  have "{k \<in> dom desired - ?K. free_for svc (claims reg1 k)} = granted_keys desired (claims reg)"
    and "{k \<in> dom desired - ?K. \<not> free_for svc (claims reg1 k)} = rejected_keys svc desired (claims reg)"
    by (auto simp: c1 restrict_map_def free_for_def K rejected_keys_def granted_keys_def)
  moreover have "?K - dom desired = released_keys svc desired (claims reg)" by (auto simp: K released_keys_def)
  moreover have "loop_effect {svc} (claim_spec svc ctrl desired now (claims reg)) reg reg2"
    using loop_effect_trans[OF e1 e2] claim_loops_spec[of ?K svc "claims reg"] K by (simp add: c1)
  ultimately show ?thesis using f1 f2 rel by auto
qed

lemma try_claim_effect:
  assumes inv: "registry_inv reg" and fin: "finite (dom desired)"
  shows "\<exists>reg'. try_claim svc ctrl desired now reg =
     (\<lparr>cr_granted = granted_keys desired (claims reg), cr_rejected = rejected_keys svc desired (claims reg),
       cr_released = tenant_for_key reg |` released_keys svc desired (claims reg),
       cr_tenants_after = {t. serves reg' svc t}, cr_tenants_before = {t. serves reg svc t}\<rparr>, reg') \<and>
     registry_inv reg' \<and> claims reg' = claim_spec svc ctrl desired now (claims reg) \<and>
     pending_desires reg' = (pending_desires reg)(svc := if rejected_keys svc desired (claims reg) = {} then None
       else Some (desired |` rejected_keys svc desired (claims reg)))"
proof -
  let ?rej = "rejected_keys svc desired (claims reg)"
  have kx: "keys_exact reg" and tx: "tenants_exact {} reg" and dx: "desires_wf reg"
    using inv by (simp_all add: registry_inv_def)
  obtain reg1 reg2 where
    f: "fold (release_undesired svc) (btree_iter (service_claims reg svc - dom desired)) (reg, Map.empty) =
        (reg1, tenant_for_key reg |` released_keys svc desired (claims reg))"
      "fold (claim_desired svc ctrl now desired) (btree_iter (dom desired - service_claims reg svc)) (reg1, {}, {}) =
        (reg2, granted_keys desired (claims reg), ?rej)"
    and e: "loop_effect {svc} (claim_spec svc ctrl desired now (claims reg)) reg reg2"
    using try_claim_loops[OF kx fin, of svc ctrl now] by blast
  let ?reg3 = "update_desires svc desired ?rej reg2"
  let ?reg4 = "rebuild_tenant_index_for_service svc ?reg3"
  have k3: "keys_exact ?reg3" using e by (simp add: loop_effect_def)
  have "tenants_exact {} ?reg4"
    by (rule rebuild_touched[OF _ tx k3]) (use e in \<open>simp add: loop_effect_def\<close>)
  moreover have "desires_wf ?reg3"
    by (rule desires_wf_update[OF dx fin]) (use e in \<open>auto simp: rejected_keys_def loop_effect_def\<close>)
  ultimately have inv4: "registry_inv ?reg4" using k3 by (simp add: registry_inv_def)
  have "try_claim svc ctrl desired now reg =
     (\<lparr>cr_granted = granted_keys desired (claims reg), cr_rejected = ?rej,
       cr_released = tenant_for_key reg |` released_keys svc desired (claims reg),
       cr_tenants_after = {t. serves ?reg4 svc t}, cr_tenants_before = {t. serves reg svc t}\<rparr>, ?reg4)"
    using tenants_for_service_exact[OF kx] tenants_for_service_exact[OF registry_inv_keys[OF inv4]] f
    by (simp add: try_claim_def service_claims_def Let_def)
  moreover have "pending_desires ?reg4 = (pending_desires reg)(svc := if ?rej = {} then None else Some (desired |` ?rej))"
    using e by (simp add: loop_effect_def update_desires_def)
  ultimately show ?thesis using inv4 e by (auto simp: loop_effect_def)
qed

subsection \<open>Releasing\<close>

definition release_spec :: "uuid \<Rightarrow> string set \<Rightarrow> (string \<rightharpoonup> claim_owner) \<Rightarrow> string \<rightharpoonup> claim_owner" where
  "release_spec svc K m = (\<lambda>k. if k \<in> K \<and> owned_by svc (m k) then None else m k)"

lemma release_claim_loop:
  assumes "distinct ks"
  shows "fold release_claim ks (reg, rel) =
     (reg\<lparr>claims := claims reg |` (- set ks)\<rparr>, rel ++ (tenant_for_key reg |` set ks))"
  using assms
proof (induction ks arbitrary: reg rel)
  case Nil
  then show ?case by (simp add: restrict_map_def)
next
  case (Cons k ks)
  let ?reg = "reg\<lparr>claims := (claims reg)(k := None)\<rparr>"
  let ?rel = "snd (release_claim k (reg, rel))"
  have st: "release_claim k (reg, rel) = (?reg, ?rel)" by (simp add: release_claim_def)
  have r: "?rel ++ (tenant_for_key ?reg |` set ks) = rel ++ (tenant_for_key reg |` set (k # ks))"
    using Cons.prems
    by (auto simp: release_claim_def fun_eq_iff map_add_def restrict_map_def tenant_for_key_def split: option.split)
  have c: "claims ?reg |` (- set ks) = claims reg |` (- set (k # ks))"
    by (auto simp: restrict_map_def fun_eq_iff)
  have "fold release_claim (k # ks) (reg, rel) = fold release_claim ks (?reg, ?rel)" using st by simp
  also have "\<dots> = (?reg\<lparr>claims := claims ?reg |` (- set ks)\<rparr>, ?rel ++ (tenant_for_key ?reg |` set ks))"
    by (rule Cons.IH) (use Cons.prems in simp)
  also have "\<dots> = (reg\<lparr>claims := claims reg |` (- set (k # ks))\<rparr>, rel ++ (tenant_for_key reg |` set (k # ks)))"
    unfolding r c by simp
  finally show ?case .
qed

lemma release_keys_exact:
  assumes kx: "keys_exact reg" and c: "claims reg' = release_spec svc UNIV (claims reg)"
    and b: "by_service reg' = (by_service reg)(svc := None)" and t: "tenant_services reg' = tenant_services reg"
  shows "keys_exact reg'" and "touches {svc} reg reg'"
proof -
  have "dom (claims reg') \<subseteq> dom (claims reg)" by (auto simp: c release_spec_def split: if_splits)
  then have "finite (dom (claims reg'))" using keys_exact_finite[OF kx] finite_subset by blast
  moreover have "k \<in> service_claims reg' s \<longleftrightarrow> owned_by s (claims reg' k)" for k s
    using keys_exactD[OF kx, of k s] owned_by_unique[of svc "claims reg k" s]
    by (auto simp: service_claims_def b c release_spec_def)
  ultimately show "keys_exact reg'" by (simp add: keys_exact_def)
  show "touches {svc} reg reg'"
    by (rule touchesI[OF t]) (auto simp: c release_spec_def dest: owned_by_unique split: if_splits)
qed

lemma release_effect:
  assumes inv: "registry_inv reg"
  shows "\<exists>reg'. release svc reg = (tenant_for_key reg |` {k. owned_by svc (claims reg k)}, reg') \<and>
     registry_inv reg' \<and> claims reg' = release_spec svc UNIV (claims reg) \<and>
     pending_desires reg' = (pending_desires reg)(svc := None)"
proof -
  have kx: "keys_exact reg" and tx: "tenants_exact {} reg" and dx: "desires_wf reg"
    using inv by (simp_all add: registry_inv_def)
  let ?K = "service_claims reg svc"
  have K: "?K = {k. owned_by svc (claims reg k)}" using keys_exactD[OF kx] by blast
  have cm: "claims reg |` (- ?K) = release_spec svc UNIV (claims reg)"
    by (auto simp: K restrict_map_def release_spec_def fun_eq_iff)
  obtain reg1 where r1: "(case by_service reg svc of None \<Rightarrow> (reg, Map.empty)
      | Some keys \<Rightarrow> fold release_claim (btree_iter keys) (reg\<lparr>by_service := (by_service reg)(svc := None)\<rparr>, Map.empty)) =
      (reg1, tenant_for_key reg |` ?K)"
    and c: "claims reg1 = release_spec svc UNIV (claims reg)" and b: "by_service reg1 = (by_service reg)(svc := None)"
    and t: "tenant_services reg1 = tenant_services reg" and p: "pending_desires reg1 = pending_desires reg"
  proof (cases "by_service reg svc")
    case None
    then have "?K = {}" by (simp add: service_claims_def get_or_empty_def)
    then show ?thesis using that[of reg] None cm by (simp add: fun_upd_idem restrict_UNIV)
  next
    case (Some keys)
    then have k: "?K = keys" by (simp add: service_claims_def get_or_empty_def)
    then have "set (btree_iter keys) = keys" using finite_service_claims[OF kx, of svc] by simp
    then show ?thesis
      using that[of "reg\<lparr>by_service := (by_service reg)(svc := None), claims := claims reg |` (- keys)\<rparr>"] Some cm k
      by (simp add: release_claim_loop tenant_for_key_def[abs_def])
  qed
  let ?reg2 = "reg1\<lparr>pending_desires := (pending_desires reg1)(svc := None)\<rparr>"
  let ?reg3 = "rebuild_tenant_index_for_service svc ?reg2"
  have k2: "keys_exact ?reg2" and t2: "touches {svc} reg ?reg2"
    using release_keys_exact[OF kx, of ?reg2 svc] c b t by simp_all
  have "desires_wf ?reg2" using dx by (auto simp: desires_wf_def p)
  then have "registry_inv ?reg3" using k2 rebuild_touched[OF t2 tx k2] by (simp add: registry_inv_def)
  moreover have "release svc reg = (tenant_for_key reg |` {k. owned_by svc (claims reg k)}, ?reg3)"
    by (simp add: release_def r1 K)
  ultimately show ?thesis using c p by simp
qed

lemma release_spec_empty: "release_spec svc {} m = m"
  by (simp add: release_spec_def)

lemma release_spec_Cons: "release_spec svc K (release_spec svc {k} m) = release_spec svc (insert k K) m"
  by (auto simp: release_spec_def fun_eq_iff)

lemma remote_release_step:
  assumes "keys_exact reg"
  shows "loop_effect {svc} (release_spec svc {k} (claims reg)) reg (remote_release svc k reg)"
proof (cases "owned_by svc (claims reg k)")
  case True
  then have "(claims reg)(k := None) = release_spec svc {k} (claims reg)"
    by (auto simp: release_spec_def fun_eq_iff)
  then show ?thesis using remove_effect[OF assms True] True by (simp only: remote_release_def if_True)
next
  case False
  then have "claims reg = release_spec svc {k} (claims reg)" by (auto simp: release_spec_def fun_eq_iff)
  then show ?thesis using loop_effect_refl[OF assms, of "{svc}"] False by (simp only: remote_release_def if_False)
qed

lemma remote_release_loop:
  "keys_exact reg \<Longrightarrow> loop_effect {svc} (release_spec svc (set ks) (claims reg)) reg (fold (remote_release svc) ks reg)"
proof (induction ks arbitrary: reg)
  case Nil
  then show ?case by (simp add: release_spec_empty loop_effect_refl)
next
  case (Cons k ks)
  have e: "loop_effect {svc} (release_spec svc {k} (claims reg)) reg (remote_release svc k reg)"
    by (rule remote_release_step[OF Cons.prems])
  then have "keys_exact (remote_release svc k reg)"
    and c: "claims (remote_release svc k reg) = release_spec svc {k} (claims reg)"
    by (simp_all add: loop_effect_def)
  from loop_effect_trans[OF e Cons.IH[OF this(1)]] show ?case
    unfolding c release_spec_Cons by simp
qed

text \<open>The loop of \<open>release_keys\<close> is the loop over the released keys of an announcement, with a record
  of what it removed.\<close>

lemma release_key_step:
  "release_key svc k (reg, rel) = (remote_release svc k reg,
     if owned_by svc (claims reg k) then rel(k \<mapsto> own_tenant (the (claims reg k))) else rel)"
  by (simp add: release_key_def remote_release_def)

lemma remote_release_other: "k' \<noteq> k \<Longrightarrow> claims (remote_release svc k reg) k' = claims reg k'"
  by (simp add: remote_release_def)

lemma release_keys_loop:
  assumes "distinct ks"
  shows "fold (release_key svc) ks (reg, rel) = (fold (remote_release svc) ks reg,
     rel ++ (tenant_for_key reg |` {k \<in> set ks. owned_by svc (claims reg k)}))"
  using assms
proof (induction ks arbitrary: reg rel)
  case Nil
  then show ?case by simp
next
  case (Cons k ks)
  let ?reg = "remote_release svc k reg"
  let ?rel = "if owned_by svc (claims reg k) then rel(k \<mapsto> own_tenant (the (claims reg k))) else rel"
  have same: "claims ?reg k' = claims reg k'" if "k' \<in> set ks" for k'
    using that Cons.prems by (intro remote_release_other) auto
  have s: "tenant_for_key ?reg |` {k' \<in> set ks. owned_by svc (claims ?reg k')} =
      tenant_for_key reg |` {k' \<in> set ks. owned_by svc (claims reg k')}"
    using same by (auto simp: restrict_map_def fun_eq_iff tenant_for_key_def)
  have r: "?rel ++ (tenant_for_key reg |` {k' \<in> set ks. owned_by svc (claims reg k')}) =
      rel ++ (tenant_for_key reg |` {k' \<in> set (k # ks). owned_by svc (claims reg k')})"
    using Cons.prems
    by (cases "claims reg k") (auto simp: fun_eq_iff map_add_def restrict_map_def tenant_for_key_def split: option.split)
  have "fold (release_key svc) (k # ks) (reg, rel) = fold (release_key svc) ks (?reg, ?rel)"
    by (simp add: release_key_step)
  also have "\<dots> = (fold (remote_release svc) ks ?reg, ?rel ++ (tenant_for_key ?reg |` {k' \<in> set ks. owned_by svc (claims ?reg k')}))"
    by (rule Cons.IH) (use Cons.prems in simp)
  finally show ?case unfolding s r by simp
qed

lemma release_keys_effect:
  assumes inv: "registry_inv reg" and fin: "finite K"
  shows "\<exists>reg'. release_keys svc K reg = (tenant_for_key reg |` {k \<in> K. owned_by svc (claims reg k)}, reg') \<and>
     registry_inv reg' \<and> claims reg' = release_spec svc K (claims reg) \<and> pending_desires reg' = pending_desires reg"
proof -
  have kx: "keys_exact reg" and tx: "tenants_exact {} reg" and dx: "desires_wf reg"
    using inv by (simp_all add: registry_inv_def)
  let ?reg1 = "fold (remote_release svc) (btree_iter K) reg"
  let ?rel = "tenant_for_key reg |` {k \<in> K. owned_by svc (claims reg k)}"
  let ?reg2 = "if ?rel \<noteq> Map.empty then rebuild_tenant_index_for_service svc ?reg1 else ?reg1"
  have e: "loop_effect {svc} (release_spec svc K (claims reg)) reg ?reg1"
    using remote_release_loop[OF kx, of svc "btree_iter K"] fin by simp
  then have k1: "keys_exact ?reg1" and t1: "touches {svc} reg ?reg1"
    and c: "claims ?reg1 = release_spec svc K (claims reg)" and p: "pending_desires ?reg1 = pending_desires reg"
    by (simp_all add: loop_effect_def)
  have "tenants_exact {} ?reg2"
  proof (cases "?rel = Map.empty")
    case True
    have "\<not> owned_by svc (claims reg k)" if "k \<in> K" for k
    proof
      assume o: "owned_by svc (claims reg k)"
      then have "?rel k \<noteq> None" using that by (auto simp: tenant_for_key_def owned_by_iff)
      then show False using True by simp
    qed
    then have "claims ?reg1 = claims reg" unfolding c by (auto simp: release_spec_def fun_eq_iff)
    then show ?thesis using True tx t1
      by (simp add: tenants_exact_def touches_def services_for_tenant_def serves_def)
  next
    case False
    then show ?thesis using rebuild_touched[OF t1 tx k1] by (simp only: if_True simp_thms)
  qed
  moreover have "keys_exact ?reg2" "desires_wf ?reg2" using k1 dx p by (simp_all add: desires_wf_def)
  moreover have "release_keys svc K reg = (?rel, ?reg2)"
    using fin by (simp add: release_keys_def release_keys_loop)
  ultimately show ?thesis using c p by (simp add: registry_inv_def)
qed

subsection \<open>Announcements of other controllers\<close>

definition announce_entry :: "uuid \<Rightarrow> uuid \<Rightarrow> instant \<Rightarrow> uuid \<Rightarrow> claim_owner option \<Rightarrow> claim_owner option" where
  "announce_entry svc ctrl claimed_at t m = (case m of
       None \<Rightarrow> Some (claim_entry svc ctrl claimed_at t)
     | Some ex \<Rightarrow> if own_service ex = svc \<or> remote_wins claimed_at svc ex
         then Some (claim_entry svc ctrl claimed_at t) else Some ex)"

definition announce_spec ::
  "uuid \<Rightarrow> uuid \<Rightarrow> (string \<rightharpoonup> uuid) \<Rightarrow> string set \<Rightarrow> instant \<Rightarrow> (string \<rightharpoonup> claim_owner) \<Rightarrow> string \<rightharpoonup> claim_owner" where
  "announce_spec svc ctrl claimed released claimed_at m = (\<lambda>k. case claimed k of
       None \<Rightarrow> release_spec svc released m k
     | Some t \<Rightarrow> announce_entry svc ctrl claimed_at t (release_spec svc released m k))"

text \<open>The service whose claim on the key the announcement takes away.\<close>

definition loser :: "uuid \<Rightarrow> instant \<Rightarrow> claim_owner option \<Rightarrow> uuid option" where
  "loser svc claimed_at m = (case m of
       None \<Rightarrow> None
     | Some ex \<Rightarrow> if own_service ex \<noteq> svc \<and> remote_wins claimed_at svc ex then Some (own_service ex) else None)"

definition note_loser :: "uuid option \<Rightarrow> string \<Rightarrow> (uuid \<rightharpoonup> string set) \<Rightarrow> uuid \<rightharpoonup> string set" where
  "note_loser l k rv = (case l of None \<Rightarrow> rv | Some s \<Rightarrow> set_entry_insert s k rv)"

lemma loop_effect_mono: "loop_effect X m a b \<Longrightarrow> X \<subseteq> Y \<Longrightarrow> loop_effect Y m a b"
  unfolding loop_effect_def touches_def by blast

lemma note_loser_simps:
  "get_or_empty (note_loser l k rv) s = get_or_empty rv s \<union> (if l = Some s then {k} else {})"
  "dom (note_loser l k rv) = dom rv \<union> set_option l"
  by (cases l; auto simp: note_loser_def)
    (cases l; auto simp: note_loser_def set_entry_insert_def)

lemma insert_over_loser:
  assumes kx: "keys_exact reg" and o: "owned_by s (claims reg k)"
  shows "loop_effect {s, own_service ow} ((claims reg)(k \<mapsto> ow)) reg
     (insert_claim k ow (reg\<lparr>by_service := set_entry_remove s k (by_service reg)\<rparr>))"
proof -
  let ?reg = "remove_claim s k reg"
  have e: "loop_effect {s} ((claims reg)(k := None)) reg ?reg" by (rule remove_effect[OF kx o])
  then have "keys_exact ?reg" by (simp add: loop_effect_def)
  then have "loop_effect {own_service ow} ((claims ?reg)(k \<mapsto> ow)) ?reg (insert_claim k ow ?reg)"
    by (rule insert_effect) simp
  moreover have "insert_claim k ow ?reg = insert_claim k ow (reg\<lparr>by_service := set_entry_remove s k (by_service reg)\<rparr>)"
    by (simp add: insert_claim_def remove_claim_def)
  moreover have "(claims ?reg)(k \<mapsto> ow) = (claims reg)(k \<mapsto> ow)" by simp
  ultimately show ?thesis
    using loop_effect_trans[OF loop_effect_mono[OF e] loop_effect_mono] by (metis insert_subset subset_insertI empty_subsetI insertI1)
qed

lemma remote_claim_step:
  assumes kx: "keys_exact reg"
  shows "\<exists>reg'. remote_claim svc ctrl claimed claimed_at k (reg, rv) =
      (reg', note_loser (loser svc claimed_at (claims reg k)) k rv) \<and>
    loop_effect (insert svc (set_option (loser svc claimed_at (claims reg k))))
      ((claims reg)(k := announce_entry svc ctrl claimed_at (the (claimed k)) (claims reg k))) reg reg'"
proof -
  let ?ow = "claim_entry svc ctrl claimed_at (the (claimed k))"
  have plain: "loop_effect {svc} ((claims reg)(k \<mapsto> ?ow)) reg (insert_claim k ?ow reg)"
    if "claims reg k = None \<or> owned_by svc (claims reg k)"
    using insert_effect[OF kx, of k ?ow] that by simp
  show ?thesis
  proof (cases "claims reg k")
    case None
    then show ?thesis using plain
      by (simp add: remote_claim_def loser_def note_loser_def announce_entry_def claim_entry_def)
  next
    case (Some ex)
    have over: "loop_effect {own_service ex, svc} ((claims reg)(k \<mapsto> ?ow)) reg
        (insert_claim k ?ow (reg\<lparr>by_service := set_entry_remove (own_service ex) k (by_service reg)\<rparr>))"
      using insert_over_loser[OF kx, of "own_service ex" k ?ow] Some by simp
    have keep: "loop_effect {svc} (claims reg) reg reg" by (rule loop_effect_refl[OF kx])
    consider (same) "own_service ex = svc" | (win) "own_service ex \<noteq> svc" "remote_wins claimed_at svc ex"
      | (lose) "own_service ex \<noteq> svc" "\<not> remote_wins claimed_at svc ex" by blast
    then show ?thesis
    proof cases
      case same
      then show ?thesis using Some plain
        by (simp add: remote_claim_def loser_def note_loser_def announce_entry_def claim_entry_def)
    next
      case win
      then show ?thesis using Some over
        by (simp add: remote_claim_def loser_def note_loser_def announce_entry_def claim_entry_def insert_commute)
    next
      case lose
      then show ?thesis using Some keep fun_upd_triv[of "claims reg" k]
        by (simp add: remote_claim_def loser_def note_loser_def announce_entry_def)
    qed
  qed
qed

definition announce_keys :: "uuid \<Rightarrow> uuid \<Rightarrow> instant \<Rightarrow> (string \<rightharpoonup> uuid) \<Rightarrow> string set \<Rightarrow> (string \<rightharpoonup> claim_owner)
    \<Rightarrow> string \<rightharpoonup> claim_owner" where
  "announce_keys svc ctrl claimed_at claimed K m =
     (\<lambda>k. if k \<in> K then announce_entry svc ctrl claimed_at (the (claimed k)) (m k) else m k)"

lemma remote_claim_loop:
  assumes "keys_exact reg" "distinct ks"
  shows "\<exists>reg' rv'. fold (remote_claim svc ctrl claimed claimed_at) ks (reg, rv) = (reg', rv') \<and>
    loop_effect (insert svc (dom rv')) (announce_keys svc ctrl claimed_at claimed (set ks) (claims reg)) reg reg' \<and>
    (\<forall>s. get_or_empty rv' s = get_or_empty rv s \<union> {k \<in> set ks. loser svc claimed_at (claims reg k) = Some s}) \<and>
    dom rv' = dom rv \<union> {s. \<exists>k \<in> set ks. loser svc claimed_at (claims reg k) = Some s}"
  using assms
proof (induction ks arbitrary: reg rv)
  case Nil
  then show ?case by (simp add: loop_effect_refl announce_keys_def)
next
  case (Cons k ks)
  let ?l = "loser svc claimed_at (claims reg k)"
  let ?rv = "note_loser ?l k rv"
  let ?m = "(claims reg)(k := announce_entry svc ctrl claimed_at (the (claimed k)) (claims reg k))"
  obtain reg1 where st: "remote_claim svc ctrl claimed claimed_at k (reg, rv) = (reg1, ?rv)"
    and e: "loop_effect (insert svc (set_option ?l)) ?m reg reg1"
    using remote_claim_step[OF Cons.prems(1)] by blast
  then have k1: "keys_exact reg1" and c1: "claims reg1 = ?m" by (simp_all add: loop_effect_def)
  have d: "distinct ks" and same: "\<And>k'. k' \<in> set ks \<Longrightarrow> claims reg1 k' = claims reg k'" using Cons.prems(2) c1 by auto
  obtain reg' rv' where ih: "fold (remote_claim svc ctrl claimed claimed_at) ks (reg1, ?rv) = (reg', rv')"
    "loop_effect (insert svc (dom rv')) (announce_keys svc ctrl claimed_at claimed (set ks) (claims reg1)) reg1 reg'"
    "\<forall>s. get_or_empty rv' s = get_or_empty ?rv s \<union> {k \<in> set ks. loser svc claimed_at (claims reg1 k) = Some s}"
    "dom rv' = dom ?rv \<union> {s. \<exists>k \<in> set ks. loser svc claimed_at (claims reg1 k) = Some s}"
    using Cons.IH[OF k1 d, of ?rv] by blast
  have m: "announce_keys svc ctrl claimed_at claimed (set ks) (claims reg1) =
      announce_keys svc ctrl claimed_at claimed (set (k # ks)) (claims reg)"
    using Cons.prems(2) by (auto simp: announce_keys_def c1 fun_eq_iff)
  have "insert svc (set_option ?l) \<subseteq> insert svc (dom rv')" using ih(4) note_loser_simps(2) by auto
  from loop_effect_trans[OF loop_effect_mono[OF e this] ih(2)[unfolded m]]
  show ?case using ih(1,3,4) st same by (auto simp: note_loser_simps)
qed

text \<open>What is known of the order in which a hash map is walked: every key once.\<close>

definition hash_iteration :: "(uuid set \<Rightarrow> uuid list) \<Rightarrow> bool" where
  "hash_iteration iter \<longleftrightarrow> (\<forall>S. finite S \<longrightarrow> set (iter S) = S \<and> distinct (iter S))"

lemma hash_iteration_btree [simp]: "hash_iteration btree_iter"
  by (simp add: hash_iteration_def)

definition revoked_keys :: "uuid \<Rightarrow> (string \<rightharpoonup> uuid) \<Rightarrow> string set \<Rightarrow> instant \<Rightarrow> (string \<rightharpoonup> claim_owner) \<Rightarrow> uuid \<Rightarrow> string set" where
  "revoked_keys svc claimed released claimed_at m s =
     {k \<in> dom claimed. loser svc claimed_at (release_spec svc released m k) = Some s}"

lemma announce_keys_spec:
  "announce_keys svc ctrl claimed_at claimed (dom claimed) (release_spec svc released m) =
     announce_spec svc ctrl claimed released claimed_at m"
  by (auto simp: announce_keys_def announce_spec_def fun_eq_iff split: option.splits)

lemma finite_set_option: "finite (set_option x)"
  by (cases x) simp_all

lemma remote_claims_of_announcement:
  assumes "keys_exact reg" "finite (dom claimed)" and c: "claims reg = release_spec svc released m"
  shows "\<exists>reg' rv. fold (remote_claim svc ctrl claimed claimed_at) (btree_iter (dom claimed)) (reg, Map.empty) = (reg', rv) \<and>
    loop_effect (insert svc (dom rv)) (announce_spec svc ctrl claimed released claimed_at m) reg reg' \<and>
    (\<forall>s. get_or_empty rv s = revoked_keys svc claimed released claimed_at m s) \<and>
    dom rv = {s. revoked_keys svc claimed released claimed_at m s \<noteq> {}}"
proof -
  have s: "set (btree_iter (dom claimed)) = dom claimed" using assms(2) by simp
  have d: "{s. \<exists>k \<in> dom claimed. loser svc claimed_at (release_spec svc released m k) = Some s} =
      {s. revoked_keys svc claimed released claimed_at m s \<noteq> {}}"
    by (auto simp only: revoked_keys_def)
  show ?thesis
    using remote_claim_loop[OF assms(1), of "btree_iter (dom claimed)" svc ctrl claimed claimed_at Map.empty]
    unfolding s c d announce_keys_spec by (simp add: revoked_keys_def get_or_empty_def)
qed

lemma apply_remote_effect:
  assumes inv: "registry_inv reg" and fin: "finite (dom claimed)" "finite released" and it: "hash_iteration iter"
  shows "\<exists>revs reg'. apply_remote_announcement iter svc ctrl claimed released claimed_at reg = (revs, reg') \<and>
     registry_inv reg' \<and> claims reg' = announce_spec svc ctrl claimed released claimed_at (claims reg) \<and>
     pending_desires reg' = pending_desires reg \<and>
     set revs = {\<lparr>rev_service = s, rev_keys = revoked_keys svc claimed released claimed_at (claims reg) s\<rparr> | s.
       revoked_keys svc claimed released claimed_at (claims reg) s \<noteq> {}}"
proof -
  have kx: "keys_exact reg" and tx: "tenants_exact {} reg" and dx: "desires_wf reg"
    using inv by (simp_all add: registry_inv_def)
  let ?reg1 = "fold (remote_release svc) (btree_iter released) reg"
  have e1: "loop_effect {svc} (release_spec svc released (claims reg)) reg ?reg1"
    using remote_release_loop[OF kx, of svc "btree_iter released"] fin by simp
  then have k1: "keys_exact ?reg1" and c1: "claims ?reg1 = release_spec svc released (claims reg)"
    by (simp_all add: loop_effect_def)
  obtain reg2 rv where f2: "fold (remote_claim svc ctrl claimed claimed_at) (btree_iter (dom claimed)) (?reg1, Map.empty) = (reg2, rv)"
    and e2: "loop_effect (insert svc (dom rv)) (announce_spec svc ctrl claimed released claimed_at (claims reg)) ?reg1 reg2"
    and g: "\<And>s. get_or_empty rv s = revoked_keys svc claimed released claimed_at (claims reg) s"
    and d: "dom rv = {s. revoked_keys svc claimed released claimed_at (claims reg) s \<noteq> {}}"
    using remote_claims_of_announcement[OF k1 fin(1) c1, of ctrl claimed_at] by blast
  have "dom rv \<subseteq> (\<Union>k \<in> dom claimed. set_option (loser svc claimed_at (release_spec svc released (claims reg) k)))"
    unfolding d by (auto simp: revoked_keys_def)
  then have "finite (dom rv)" by (rule finite_subset) (use fin in \<open>auto simp: finite_set_option\<close>)
  then have its: "set (iter (dom rv)) = dom rv" using it by (simp add: hash_iteration_def)
  have "loop_effect (insert svc (dom rv)) (announce_spec svc ctrl claimed released claimed_at (claims reg)) reg reg2"
    by (rule loop_effect_trans[OF loop_effect_mono[OF e1] e2]) simp
  then have k2: "keys_exact reg2" and t2: "touches (insert svc (dom rv)) reg reg2"
    and c2: "claims reg2 = announce_spec svc ctrl claimed released claimed_at (claims reg)"
    and p2: "pending_desires reg2 = pending_desires reg" by (simp_all add: loop_effect_def)
  let ?reg4 = "fold rebuild_tenant_index_for_service (svc # iter (dom rv)) reg2"
  have "tenants_exact {} ?reg4" by (rule rebuilds_touched[OF t2 tx k2]) (simp add: its)
  moreover have "keys_exact ?reg4" using k2 by (simp add: keys_exact_def service_claims_def)
  moreover have "desires_wf ?reg4" using dx p2 by (simp add: desires_wf_def)
  moreover have "apply_remote_announcement iter svc ctrl claimed released claimed_at reg =
      (map (\<lambda>s. \<lparr>rev_service = s, rev_keys = get_or_empty rv s\<rparr>) (iter (dom rv)), ?reg4)"
    by (simp add: apply_remote_announcement_def f2 Let_def)
  moreover have "set (map (\<lambda>s. \<lparr>rev_service = s, rev_keys = get_or_empty rv s\<rparr>) (iter (dom rv))) =
      {\<lparr>rev_service = s, rev_keys = revoked_keys svc claimed released claimed_at (claims reg) s\<rparr> | s.
       revoked_keys svc claimed released claimed_at (claims reg) s \<noteq> {}}"
    unfolding set_map its unfolding d g setcompr_eq_image ..
  ultimately show ?thesis using c2 p2 by (simp add: registry_inv_def)
qed

subsection \<open>Synchronisation at start-up\<close>

definition sync_entry :: "uuid \<Rightarrow> uuid \<times> uuid \<times> instant \<Rightarrow> claim_owner" where
  "sync_entry ctrl c = (case c of (svc, t, claimed_at) \<Rightarrow> claim_entry svc ctrl claimed_at t)"

definition sync_spec ::
  "uuid \<Rightarrow> (string \<rightharpoonup> uuid \<times> uuid \<times> instant) \<Rightarrow> (string \<rightharpoonup> claim_owner) \<Rightarrow> string \<rightharpoonup> claim_owner" where
  "sync_spec ctrl remote m = (\<lambda>k. case m k of None \<Rightarrow> map_option (sync_entry ctrl) (remote k) | Some ow \<Rightarrow> Some ow)"

lemma sync_claim_step:
  assumes inv: "registry_inv reg" and r: "remote k = Some c"
  shows "registry_inv (sync_claim ctrl remote k reg) \<and>
    claims (sync_claim ctrl remote k reg) = sync_spec ctrl (remote |` {k}) (claims reg) \<and>
    pending_desires (sync_claim ctrl remote k reg) = pending_desires reg"
proof (cases "claims reg k")
  case (Some ow)
  then have "sync_spec ctrl (remote |` {k}) (claims reg) = claims reg"
    by (auto simp: sync_spec_def fun_eq_iff restrict_map_def split: option.split)
  then show ?thesis using Some inv by (simp add: sync_claim_def)
next
  case None
  obtain svc t at where c: "c = (svc, t, at)" by (cases c)
  let ?ow = "claim_entry svc ctrl at t"
  let ?reg1 = "insert_claim k ?ow reg"
  let ?reg2 = "?reg1\<lparr>tenant_services := set_entry_insert t svc (tenant_services ?reg1)\<rparr>"
  have kx: "keys_exact reg" and tx: "tenants_exact {} reg" and dx: "desires_wf reg"
    using inv by (simp_all add: registry_inv_def)
  have "keys_exact ?reg1" by (rule insert_claim_exact(1)[OF kx]) (simp add: None)
  then have "keys_exact ?reg2" by (simp add: keys_exact_def service_claims_def)
  moreover have "serves ?reg2 s t' \<longleftrightarrow> serves reg s t' \<or> s = svc \<and> t' = t" for s t'
    using None by (auto simp: serves_def) (metis option.distinct(1))
  then have "tenants_exact {} ?reg2" using tx
    by (auto simp: tenants_exact_def services_for_tenant_def set_entry_insert_not_empty)
  moreover have "desires_wf ?reg2" using dx by (simp add: desires_wf_def)
  moreover have "sync_claim ctrl remote k reg = ?reg2"
    using None r c by (simp add: sync_claim_def claim_entry_def Let_def)
  moreover have "claims ?reg2 = sync_spec ctrl (remote |` {k}) (claims reg)"
    using None r c by (auto simp: sync_spec_def sync_entry_def restrict_map_def fun_eq_iff split: option.split)
  ultimately show ?thesis by (simp add: registry_inv_def)
qed

lemma apply_sync_effect:
  assumes inv: "registry_inv reg" and fin: "finite (dom remote)"
  shows "registry_inv (apply_sync_response ctrl remote reg) \<and>
    claims (apply_sync_response ctrl remote reg) = sync_spec ctrl remote (claims reg) \<and>
    pending_desires (apply_sync_response ctrl remote reg) = pending_desires reg"
proof -
  have loop: "registry_inv (fold (sync_claim ctrl remote) ks r) \<and>
      claims (fold (sync_claim ctrl remote) ks r) = sync_spec ctrl (remote |` set ks) (claims r) \<and>
      pending_desires (fold (sync_claim ctrl remote) ks r) = pending_desires r"
    if "registry_inv r" "set ks \<subseteq> dom remote" for ks r
    using that
  proof (induction ks arbitrary: r)
    case Nil
    then show ?case by (auto simp: sync_spec_def fun_eq_iff split: option.split)
  next
    case (Cons k ks)
    then obtain c where c: "remote k = Some c" by auto
    note st = sync_claim_step[OF Cons.prems(1), of remote k c ctrl, OF c]
    have "sync_spec ctrl (remote |` set ks) (sync_spec ctrl (remote |` {k}) (claims r)) =
        sync_spec ctrl (remote |` set (k # ks)) (claims r)"
      using c by (auto simp: sync_spec_def restrict_map_def fun_eq_iff split: option.split)
    then show ?case using Cons.IH[of "sync_claim ctrl remote k r"] Cons.prems st by simp
  qed
  have "remote |` dom remote = remote" by (simp add: restrict_map_def fun_eq_iff domIff eq_commute del: not_None_eq)
  then show ?thesis using loop[OF inv, of "btree_iter (dom remote)"] fin by (simp add: apply_sync_response_def)
qed

section \<open>The registry as a state machine\<close>

text \<open>One step is one call of an operation, with any arguments and any clock reading. Keys and
  services come from finite collections of the source.\<close>

inductive claim_step :: "claim_registry \<Rightarrow> claim_registry \<Rightarrow> bool" where
  step_try_claim: "finite (dom desired) \<Longrightarrow> claim_step reg (snd (try_claim svc ctrl desired now reg))"
| step_release: "claim_step reg (snd (release svc reg))"
| step_release_keys: "finite K \<Longrightarrow> claim_step reg (snd (release_keys svc K reg))"
| step_announcement: "finite (dom claimed) \<Longrightarrow> finite released \<Longrightarrow> hash_iteration iter \<Longrightarrow>
    claim_step reg (snd (apply_remote_announcement iter svc ctrl claimed released claimed_at reg))"
| step_sync: "finite (dom remote) \<Longrightarrow> claim_step reg (apply_sync_response ctrl remote reg)"

text \<open>The same steps on the owner map alone.\<close>

inductive owner_step :: "(string \<rightharpoonup> claim_owner) \<Rightarrow> (string \<rightharpoonup> claim_owner) \<Rightarrow> bool" where
  own_claim: "owner_step m (claim_spec svc ctrl desired now m)"
| own_release: "owner_step m (release_spec svc K m)"
| own_announce: "owner_step m (announce_spec svc ctrl claimed released claimed_at m)"
| own_sync: "owner_step m (sync_spec ctrl remote m)"

lemma empty_registry_inv: "registry_inv empty_registry"
  by (simp add: registry_inv_def keys_exact_def tenants_exact_def desires_wf_def empty_registry_def
      service_claims_def services_for_tenant_def get_or_empty_def serves_def)

lemma claim_step_simulates:
  assumes "claim_step reg reg'" "registry_inv reg"
  shows "registry_inv reg' \<and> owner_step (claims reg) (claims reg')"
  using assms(1)
proof cases
  case (step_try_claim desired svc ctrl now)
  with try_claim_effect[OF assms(2) step_try_claim(2), of svc ctrl now] show ?thesis
    by (auto intro: owner_step.intros)
next
  case (step_release svc)
  with release_effect[OF assms(2), of svc] show ?thesis by (auto intro: owner_step.intros)
next
  case (step_release_keys K svc)
  with release_keys_effect[OF assms(2) step_release_keys(2), of svc] show ?thesis
    by (auto intro: owner_step.intros)
next
  case (step_announcement claimed released iter svc ctrl claimed_at)
  with apply_remote_effect[OF assms(2) step_announcement(2-4), of svc ctrl claimed_at] show ?thesis
    by (auto intro: owner_step.intros)
next
  case (step_sync remote ctrl)
  with apply_sync_effect[OF assms(2) step_sync(2), of ctrl] show ?thesis by (auto intro: owner_step.intros)
qed

interpretation claims_sm: state_machine "\<lambda>reg. reg = empty_registry" claim_step registry_inv
  by unfold_locales (auto simp: empty_registry_inv claim_step_simulates)

text \<open>An empty registry that merges the claims a peer granted holds them unchanged.\<close>

lemma sync_claims_exact:
  assumes "finite (dom (claims reg))"
  shows "claims (apply_sync_response ctrl (local_claims reg ctrl) empty_registry) =
    (\<lambda>k. case claims reg k of None \<Rightarrow> None | Some ow \<Rightarrow> if own_controller ow = ctrl then Some ow else None)"
proof -
  have "finite (dom (local_claims reg ctrl))"
    by (rule finite_subset[OF _ assms]) (auto simp: local_claims_def split: option.splits)
  then have "claims (apply_sync_response ctrl (local_claims reg ctrl) empty_registry) =
      sync_spec ctrl (local_claims reg ctrl) Map.empty"
    using apply_sync_effect[OF empty_registry_inv] by (simp add: empty_registry_def)
  also have "\<dots> = (\<lambda>k. case claims reg k of None \<Rightarrow> None | Some ow \<Rightarrow> if own_controller ow = ctrl then Some ow else None)"
    by (auto simp: sync_spec_def local_claims_def sync_entry_def claim_entry_def fun_eq_iff split: option.split)
  finally show ?thesis .
qed

subsection \<open>What the clients of the registry rely on\<close>

text \<open>The routing code asks the registry for the services of a tenant, the workload handlers for the
  keys and tenants of a service. The contract: the answers are views of one owner map.\<close>

locale claim_views =
  fixes valid :: "'r \<Rightarrow> bool"
    and owner_of :: "'r \<Rightarrow> 'k \<Rightarrow> (uuid \<times> uuid) option"
    and keys_of :: "'r \<Rightarrow> uuid \<Rightarrow> 'k set"
    and routed :: "'r \<Rightarrow> uuid \<Rightarrow> uuid set"
    and tenants_of :: "'r \<Rightarrow> uuid \<Rightarrow> uuid set"
  assumes keys_of: "valid r \<Longrightarrow> k \<in> keys_of r s \<longleftrightarrow> (\<exists>t. owner_of r k = Some (s, t))"
    and routed: "valid r \<Longrightarrow> s \<in> routed r t \<longleftrightarrow> (\<exists>k. owner_of r k = Some (s, t))"
    and tenants_of: "valid r \<Longrightarrow> t \<in> tenants_of r s \<longleftrightarrow> (\<exists>k. owner_of r k = Some (s, t))"
begin

lemma exclusive: "valid r \<Longrightarrow> k \<in> keys_of r a \<Longrightarrow> k \<in> keys_of r b \<Longrightarrow> a = b"
  by (auto simp: keys_of)

lemma routed_iff_tenant: "valid r \<Longrightarrow> s \<in> routed r t \<longleftrightarrow> t \<in> tenants_of r s"
  by (simp add: routed tenants_of)

lemma routed_has_key: "valid r \<Longrightarrow> s \<in> routed r t \<Longrightarrow> keys_of r s \<noteq> {}"
  using keys_of routed by blast

lemma idle_not_routed: "valid r \<Longrightarrow> keys_of r s = {} \<Longrightarrow> s \<notin> routed r t \<and> tenants_of r s = {}"
  using routed_has_key routed_iff_tenant by blast

end

definition key_owner :: "claim_registry \<Rightarrow> string \<Rightarrow> (uuid \<times> uuid) option" where
  "key_owner reg k = map_option (\<lambda>ow. (own_service ow, own_tenant ow)) (claims reg k)"

lemma serves_key_owner: "serves reg s t \<longleftrightarrow> (\<exists>k. key_owner reg k = Some (s, t))"
  by (auto simp: serves_def key_owner_def)

interpretation registry_views: claim_views registry_inv key_owner service_claims services_for_tenant tenants_for_service
proof unfold_locales
  fix reg :: claim_registry and k s t
  assume inv: "registry_inv reg"
  then have kx: "keys_exact reg" and tx: "tenants_exact {} reg" by (simp_all add: registry_inv_def)
  show "k \<in> service_claims reg s \<longleftrightarrow> (\<exists>t. key_owner reg k = Some (s, t))"
    unfolding keys_exactD[OF kx] by (auto simp: owned_by_iff key_owner_def)
  show "s \<in> services_for_tenant reg t \<longleftrightarrow> (\<exists>k. key_owner reg k = Some (s, t))"
    using tx by (simp add: tenants_exact_def serves_key_owner)
  show "t \<in> tenants_for_service reg s \<longleftrightarrow> (\<exists>k. key_owner reg k = Some (s, t))"
    using tenants_for_service_exact[OF kx] by (simp add: serves_key_owner)
qed

section \<open>The order of announcements\<close>

text \<open>\<open>WorkloadClaimAnnouncementPayload\<close>, with the time already parsed.\<close>

record announcement =
  ann_service :: uuid
  ann_controller :: uuid
  ann_claimed :: "string \<rightharpoonup> uuid"
  ann_released :: "string set"
  ann_claimed_at :: instant

definition ann_finite :: "announcement \<Rightarrow> bool" where
  "ann_finite a \<longleftrightarrow> finite (dom (ann_claimed a)) \<and> finite (ann_released a)"

definition apply_announcement ::
  "(uuid set \<Rightarrow> uuid list) \<Rightarrow> announcement \<Rightarrow> claim_registry \<Rightarrow> claim_registry" where
  "apply_announcement iter a reg = snd (apply_remote_announcement iter (ann_service a) (ann_controller a)
     (ann_claimed a) (ann_released a) (ann_claimed_at a) reg)"

definition ann_entry :: "announcement \<Rightarrow> string \<Rightarrow> claim_owner option" where
  "ann_entry a k = map_option (claim_entry (ann_service a) (ann_controller a) (ann_claimed_at a)) (ann_claimed a k)"

text \<open>The order of the conflict rule on owners: earlier claims first, then smaller service ids.\<close>

definition precedes :: "claim_owner \<Rightarrow> claim_owner \<Rightarrow> bool" where
  "precedes a b \<longleftrightarrow> own_claimed_at a < own_claimed_at b \<or>
     own_claimed_at a = own_claimed_at b \<and> own_service a < own_service b"

lemma precedes_trans: "precedes a b \<Longrightarrow> precedes b c \<Longrightarrow> precedes a c"
  unfolding precedes_def by auto

lemma precedes_asym: "precedes a b \<Longrightarrow> \<not> precedes b a"
  unfolding precedes_def by auto

lemma precedes_total: "own_service a \<noteq> own_service b \<Longrightarrow> precedes a b \<or> precedes b a"
  unfolding precedes_def by auto

definition first_of :: "claim_owner set \<Rightarrow> claim_owner option \<Rightarrow> bool" where
  "first_of S r \<longleftrightarrow> (case r of None \<Rightarrow> S = {} | Some ow \<Rightarrow> ow \<in> S \<and> (\<forall>c \<in> S. c = ow \<or> precedes ow c))"

lemma first_of_simps [simp]:
  "first_of S None \<longleftrightarrow> S = {}"
  "first_of S (Some ow) \<longleftrightarrow> ow \<in> S \<and> (\<forall>c \<in> S. c = ow \<or> precedes ow c)"
  by (simp_all add: first_of_def)

lemma first_of_unique:
  assumes "first_of S r" "first_of S r'" shows "r = r'"
proof (cases r; cases r')
  fix a b assume r: "r = Some a" "r' = Some b"
  then have "a = b \<or> precedes b a" "a = b \<or> precedes a b" using assms by auto
  then show ?thesis using r precedes_asym by blast
qed (use assms in auto)

lemma first_of_insert:
  assumes "first_of S r" "\<forall>c \<in> S. own_service c \<noteq> own_service n"
  shows "first_of (insert n S) (case r of None \<Rightarrow> Some n | Some ow \<Rightarrow> if precedes n ow then Some n else Some ow)"
proof (cases r)
  case None
  then show ?thesis using assms by (simp add: first_of_def)
next
  case (Some ow)
  then have o: "ow \<in> S" "\<forall>c \<in> S. c = ow \<or> precedes ow c" using assms(1) by (simp_all add: first_of_def)
  have "precedes ow n" if "\<not> precedes n ow" using precedes_total[of n ow] assms(2) o(1) that by auto
  then show ?thesis using Some o precedes_trans[of n ow] by (auto simp: first_of_def)
qed

text \<open>The claims that compete for a key: the one in the registry and those announced.\<close>

definition contenders :: "(string \<rightharpoonup> claim_owner) \<Rightarrow> announcement list \<Rightarrow> string \<Rightarrow> claim_owner set" where
  "contenders m anns k = set_option (m k) \<union> (\<Union>a \<in> set anns. set_option (ann_entry a k))"

lemma apply_announcement_effect:
  assumes "registry_inv reg" "ann_finite a" "hash_iteration iter"
  shows "registry_inv (apply_announcement iter a reg)"
    and "claims (apply_announcement iter a reg) = announce_spec (ann_service a) (ann_controller a)
      (ann_claimed a) (ann_released a) (ann_claimed_at a) (claims reg)"
  using apply_remote_effect[OF assms(1) _ _ assms(3), of "ann_claimed a" "ann_released a"] assms(2)
  unfolding apply_announcement_def ann_finite_def by (metis snd_conv)+

text \<open>For a service that owns nothing yet, an announcement is one comparison per key.\<close>

lemma announce_newcomer:
  assumes "\<And>k. \<not> owned_by svc (m k)"
  shows "announce_spec svc ctrl claimed released at m k = (case claimed k of
       None \<Rightarrow> m k
     | Some t \<Rightarrow> (case m k of
          None \<Rightarrow> Some (claim_entry svc ctrl at t)
        | Some ow \<Rightarrow> if precedes (claim_entry svc ctrl at t) ow then Some (claim_entry svc ctrl at t) else Some ow))"
  using assms[of k]
  by (auto simp: announce_spec_def announce_entry_def release_spec_def remote_wins_def precedes_def split: option.split)

lemma contenders_owner:
  assumes "owned_by s (r k)" "first_of (contenders m anns k) (r k)"
  shows "owned_by s (m k) \<or> s \<in> ann_service ` set anns"
proof -
  obtain ow where "r k = Some ow" "own_service ow = s" using assms(1) by (auto simp: owned_by_iff)
  then have "ow \<in> contenders m anns k" using assms(2) by simp
  then show ?thesis using \<open>own_service ow = s\<close> by (auto simp: contenders_def ann_entry_def)
qed

lemma announcements_inv:
  "registry_inv reg \<Longrightarrow> \<forall>a \<in> set anns. ann_finite a \<Longrightarrow> hash_iteration iter \<Longrightarrow>
     registry_inv (fold (apply_announcement iter) anns reg)"
  by (induction anns arbitrary: reg) (auto simp: apply_announcement_effect)

lemma announcements_first:
  assumes "registry_inv reg" "\<forall>a \<in> set anns. ann_finite a" "hash_iteration iter"
    and "distinct (map ann_service anns)" "\<forall>a \<in> set anns. \<forall>k. \<not> owned_by (ann_service a) (claims reg k)"
  shows "first_of (contenders (claims reg) anns k) (claims (fold (apply_announcement iter) anns reg) k)"
  using assms
proof (induction anns arbitrary: k rule: rev_induct)
  case Nil
  then show ?case by (cases "claims reg k") (simp_all add: contenders_def)
next
  case (snoc a anns)
  let ?m = "claims (fold (apply_announcement iter) anns reg)"
  have inv: "registry_inv (fold (apply_announcement iter) anns reg)"
    using announcements_inv[OF snoc.prems(1) _ snoc.prems(3)] snoc.prems(2) by simp
  have ih: "first_of (contenders (claims reg) anns k) (?m k)" for k
    by (rule snoc.IH) (use snoc.prems in auto)
  have new: "\<not> owned_by (ann_service a) (?m k)" for k
    using contenders_owner[of "ann_service a" ?m k "claims reg" anns, OF _ ih] snoc.prems(4,5) by auto
  have step: "claims (fold (apply_announcement iter) (anns @ [a]) reg) k = (case ann_entry a k of
      None \<Rightarrow> ?m k
    | Some n \<Rightarrow> (case ?m k of None \<Rightarrow> Some n | Some ow \<Rightarrow> if precedes n ow then Some n else Some ow))"
    using apply_announcement_effect(2)[OF inv _ snoc.prems(3), of a] snoc.prems(2) announce_newcomer[OF new]
    by (simp add: ann_entry_def split: option.split)
  show ?case
  proof (cases "ann_entry a k")
    case None
    then show ?thesis using ih[of k] step by (simp add: contenders_def)
  next
    case (Some n)
    then have n: "own_service n = ann_service a" by (auto simp: ann_entry_def)
    have "contenders (claims reg) (anns @ [a]) k = insert n (contenders (claims reg) anns k)"
      using Some by (auto simp: contenders_def)
    moreover have "\<forall>c \<in> contenders (claims reg) anns k. own_service c \<noteq> own_service n"
      using snoc.prems(4,5) n by (auto simp: contenders_def ann_entry_def owned_by_iff) (metis imageI)
    ultimately show ?thesis using first_of_insert[OF ih[of k], of n] Some step by simp
  qed
qed

section \<open>Properties\<close>

definition sample_registry :: claim_registry where
  "sample_registry = snd (try_claim 7 1 [''a'' \<mapsto> 20, ''b'' \<mapsto> 21] 100 empty_registry)"

lemma sample_registry_inv: "registry_inv sample_registry"
  using try_claim_effect[OF empty_registry_inv, of "[''a'' \<mapsto> 20, ''b'' \<mapsto> 21]" 7 1 100]
  by (auto simp: sample_registry_def)

lemma sample_registry_claims:
  "claims sample_registry = [''a'' \<mapsto> claim_entry 7 1 100 20, ''b'' \<mapsto> claim_entry 7 1 100 21]"
  using try_claim_effect[OF empty_registry_inv, of "[''a'' \<mapsto> 20, ''b'' \<mapsto> 21]" 7 1 100]
  by (auto simp: sample_registry_def claim_spec_def empty_registry_def fun_eq_iff)

lemma sample_reachable: "claim_step\<^sup>*\<^sup>* empty_registry sample_registry"
  unfolding sample_registry_def by (rule r_into_rtranclp, rule step_try_claim) simp

text \<open>C10. Every config key has at most one owner, and what the registry tells its clients is what the
  owner map says: the keys of a service, the services a tenant's events are routed to, and the
  tenants of a service, after any sequence of claims, releases, announcements and
  synchronisations.\<close>

theorem registry_views_exact:
  assumes "claim_step\<^sup>*\<^sup>* empty_registry reg"
  shows "(k \<in> service_claims reg a \<and> k \<in> service_claims reg b \<longrightarrow> a = b) \<and>
    (k \<in> service_claims reg a \<longleftrightarrow> (\<exists>t. key_owner reg k = Some (a, t))) \<and>
    (a \<in> services_for_tenant reg t \<longleftrightarrow> (\<exists>k. key_owner reg k = Some (a, t))) \<and>
    (t \<in> tenants_for_service reg a \<longleftrightarrow> (\<exists>k. key_owner reg k = Some (a, t)))"
proof -
  have "registry_inv reg" using claims_sm.inv_reachable[OF refl assms] .
  then show ?thesis
    using registry_views.exclusive registry_views.keys_of registry_views.routed registry_views.tenants_of by blast
qed

theorem registry_views_exact_witness:
  "''a'' \<in> service_claims sample_registry 7 \<and> ''a'' \<notin> service_claims sample_registry 8 \<and> 7 \<in> services_for_tenant sample_registry 20"
  using registry_views_exact[OF sample_reachable, of "''a''" 7 8 20]
  by (auto simp: key_owner_def sample_registry_claims)

text \<open>C11. The registry with its indexes implements plain operations on the owner map: a claim hands
  over the free desired keys and drops the undesired ones, a release removes the keys of the service,
  an announcement replaces exactly the owners it precedes, and a synchronisation only adds.\<close>

theorem registry_refines_owner_map:
  assumes "registry_inv reg" "finite (dom desired)" "finite (dom claimed)" "finite K" "finite (dom remote)"
    and "hash_iteration iter"
  shows "claims (snd (try_claim svc ctrl desired now reg)) = claim_spec svc ctrl desired now (claims reg) \<and>
    claims (snd (release svc reg)) = release_spec svc UNIV (claims reg) \<and>
    claims (snd (release_keys svc K reg)) = release_spec svc K (claims reg) \<and>
    claims (snd (apply_remote_announcement iter svc ctrl claimed K now reg)) =
      announce_spec svc ctrl claimed K now (claims reg) \<and>
    claims (apply_sync_response ctrl remote reg) = sync_spec ctrl remote (claims reg)"
  using try_claim_effect[OF assms(1,2), of svc ctrl now] release_effect[OF assms(1), of svc]
    release_keys_effect[OF assms(1,4), of svc] apply_remote_effect[OF assms(1,3,4,6), of svc ctrl now]
    apply_sync_effect[OF assms(1,5), of ctrl]
  by auto

theorem registry_refines_owner_map_witness:
  "claims (snd (try_claim 8 1 [''a'' \<mapsto> 20, ''c'' \<mapsto> 20] 105 sample_registry)) =
     claim_spec 8 1 [''a'' \<mapsto> 20, ''c'' \<mapsto> 20] 105 (claims sample_registry) \<and>
   claims (snd (release_keys 7 {''a''} sample_registry)) = release_spec 7 {''a''} (claims sample_registry)"
  using registry_refines_owner_map[OF sample_registry_inv, of "[''a'' \<mapsto> 20, ''c'' \<mapsto> 20]" Map.empty "{''a''}"
      Map.empty btree_iter]
  by simp

text \<open>The reply to a claim: granted are the desired keys nobody owned, rejected those another service
  owns, released (with their tenants) the held keys that are no longer desired; kept keys appear in
  none of the three. Afterwards the service owns exactly the desired keys that were not rejected, and
  the rejected ones are remembered with their tenants.\<close>

theorem try_claim_outcome:
  assumes "registry_inv reg" "finite (dom desired)" "try_claim svc ctrl desired now reg = (res, reg')"
  shows "cr_granted res = {k \<in> dom desired. claims reg k = None} \<and>
    cr_rejected res = {k \<in> dom desired. \<exists>s t. s \<noteq> svc \<and> key_owner reg k = Some (s, t)} \<and>
    cr_released res = tenant_for_key reg |` (service_claims reg svc - dom desired) \<and>
    service_claims reg' svc = dom desired - cr_rejected res \<and>
    new_tenants res = tenants_for_service reg' svc - tenants_for_service reg svc \<and>
    (s \<noteq> svc \<longrightarrow> service_claims reg' s = service_claims reg s) \<and>
    pending_desires reg' svc =
      (if cr_rejected res = {} then None else Some (desired |` cr_rejected res))"
proof -
  have inv': "registry_inv reg'" and c: "claims reg' = claim_spec svc ctrl desired now (claims reg)"
    and p: "pending_desires reg' svc = (if rejected_keys svc desired (claims reg) = {} then None
      else Some (desired |` rejected_keys svc desired (claims reg)))"
    and r: "res = \<lparr>cr_granted = granted_keys desired (claims reg), cr_rejected = rejected_keys svc desired (claims reg),
       cr_released = tenant_for_key reg |` released_keys svc desired (claims reg),
       cr_tenants_after = {t. serves reg' svc t}, cr_tenants_before = {t. serves reg svc t}\<rparr>"
    using try_claim_effect[OF assms(1,2), of svc ctrl now] assms(3) by auto
  note k = keys_exactD[OF registry_inv_keys[OF assms(1)]] keys_exactD[OF registry_inv_keys[OF inv']]
  have g: "cr_granted res = {k \<in> dom desired. claims reg k = None}" by (simp add: r granted_keys_def)
  have rj: "cr_rejected res = {k \<in> dom desired. \<exists>s t. s \<noteq> svc \<and> key_owner reg k = Some (s, t)}"
    by (auto simp: r rejected_keys_def key_owner_def)
  have "released_keys svc desired (claims reg) = service_claims reg svc - dom desired"
    by (auto simp: released_keys_def k)
  then have rl: "cr_released res = tenant_for_key reg |` (service_claims reg svc - dom desired)" by (simp add: r)
  have sc: "service_claims reg' svc = dom desired - cr_rejected res"
    by (auto simp: k c r claim_spec_def rejected_keys_def split: option.splits if_splits)
  have nt: "new_tenants res = tenants_for_service reg' svc - tenants_for_service reg svc"
    using tenants_for_service_exact[OF registry_inv_keys] assms(1) inv' by (simp add: new_tenants_def r)
  have fr: "service_claims reg' s = service_claims reg s" if "s \<noteq> svc"
    using that by (auto simp: k c claim_spec_def dest: owned_by_unique split: option.splits if_splits)
  have pd: "pending_desires reg' svc = (if cr_rejected res = {} then None else Some (desired |` cr_rejected res))"
    by (simp add: p r)
  show ?thesis by (intro conjI impI g rj rl sc nt fr pd)
qed

text \<open>C12. Controllers that receive the same announcements of newly connected services in different
  orders agree on the owner of every key: the earliest claim, ties going to the smaller service id.\<close>

theorem announcement_order_irrelevant:
  assumes "registry_inv reg" "\<forall>a \<in> set anns. ann_finite a" "hash_iteration iter" "hash_iteration iter'"
    and "distinct (map ann_service anns)" "\<forall>a \<in> set anns. service_claims reg (ann_service a) = {}"
    and "set anns' = set anns" "distinct (map ann_service anns')"
  shows "claims (fold (apply_announcement iter) anns reg) = claims (fold (apply_announcement iter') anns' reg) \<and>
    first_of (contenders (claims reg) anns k) (claims (fold (apply_announcement iter) anns reg) k)"
proof -
  have n: "\<forall>a \<in> set anns. \<forall>k. \<not> owned_by (ann_service a) (claims reg k)"
    using assms(6) keys_exactD[OF registry_inv_keys[OF assms(1)]] by blast
  have f: "first_of (contenders (claims reg) anns k) (claims (fold (apply_announcement iter) anns reg) k)" for k
    by (rule announcements_first[OF assms(1,2,3,5) n])
  have "first_of (contenders (claims reg) anns' k) (claims (fold (apply_announcement iter') anns' reg) k)" for k
    by (rule announcements_first[OF assms(1) _ assms(4,8)]) (use assms(2,7) n in auto)
  moreover have "contenders (claims reg) anns' k = contenders (claims reg) anns k" for k
    by (simp add: contenders_def assms(7))
  ultimately show ?thesis using f first_of_unique by (metis ext)
qed

definition sample_ann :: "uuid \<Rightarrow> instant \<Rightarrow> announcement" where
  "sample_ann svc at = \<lparr>ann_service = svc, ann_controller = 2, ann_claimed = [''a'' \<mapsto> 20], ann_released = {},
     ann_claimed_at = at\<rparr>"

lemma sample_service_claims: "service_claims sample_registry s = (if s = 7 then {''a'', ''b''} else {})"
  using keys_exactD[OF registry_inv_keys[OF sample_registry_inv]]
  by (auto simp: sample_registry_claims split: if_splits)

theorem announcement_order_irrelevant_witness:
  "claims (fold (apply_announcement btree_iter) [sample_ann 8 90, sample_ann 9 80] sample_registry) =
     claims (fold (apply_announcement btree_iter) [sample_ann 9 80, sample_ann 8 90] sample_registry)"
  using announcement_order_irrelevant[OF sample_registry_inv, of "[sample_ann 8 90, sample_ann 9 80]" btree_iter btree_iter
      "[sample_ann 9 80, sample_ann 8 90]"]
  by (auto simp: sample_ann_def ann_finite_def sample_service_claims)

end
