(* ===== verification/Workload_Handlers.thy ===== *)
theory Workload_Handlers
  imports Workload_Claims
begin

text \<open>
  The controller's side of the workload claim protocol: the handlers of a service's claim and release
  messages and of its disconnect (\<open>crates/ui/web-api/src/routes/service_ws/handler/workload.rs\<close>), and
  the delivery of announcements and synchronisation messages of other controllers
  (\<open>crates/ui/web-api/src/event_delivery.rs\<close>). A handler returns what it sends, publishes and audits,
  in order, and the registry it leaves. Each reading of the clock is a parameter of its own, and so
  are the RFC 3339 printer and parser of the \<open>time\<close> crate. Display names of audit entries are left
  out, and a handler runs without interruption by another one.
\<close>

section \<open>Messages and effects\<close>

record time_lib =
  format_ts :: "instant \<Rightarrow> string option"
  parse_ts :: "string \<Rightarrow> instant option"

definition format_or_default :: "time_lib \<Rightarrow> instant \<Rightarrow> string" where
  "format_or_default tm t = (case format_ts tm t of None \<Rightarrow> [] | Some s \<Rightarrow> s)"

definition parse_or_now :: "time_lib \<Rightarrow> instant \<Rightarrow> string \<Rightarrow> instant" where
  "parse_or_now tm now s = (case parse_ts tm s of None \<Rightarrow> now | Some t \<Rightarrow> t)"

text \<open>What the code relies on: a printed time is read back.\<close>

definition rfc3339_round_trip :: "time_lib \<Rightarrow> bool" where
  "rfc3339_round_trip tm \<longleftrightarrow> (\<forall>t. \<exists>s. format_ts tm t = Some s \<and> parse_ts tm s = Some t)"

lemma parse_format [simp]: "rfc3339_round_trip tm \<Longrightarrow> parse_or_now tm now (format_or_default tm t) = t"
  unfolding rfc3339_round_trip_def parse_or_now_def format_or_default_def by (metis option.simps(5))

record wire_announcement =
  wa_service :: uuid
  wa_controller :: uuid
  wa_claimed :: "string \<rightharpoonup> uuid"
  wa_released :: "string set"
  wa_claimed_at :: string

record sync_entry_payload =
  se_service :: uuid
  se_tenant :: uuid
  se_claimed_at :: string

datatype audit_outcome = AuditSuccess | AuditDenied | AuditPartial

record claim_audit =
  ca_service :: uuid
  ca_scope :: "uuid option"
  ca_outcome :: audit_outcome
  ca_source :: string
  ca_requested :: nat
  ca_granted :: nat
  ca_rejected :: nat
  ca_released :: nat
  ca_tenants :: nat
  ca_reason :: "string option"
  ca_trigger :: "uuid option"

record release_audit =
  ra_service :: uuid
  ra_scope :: "uuid option"
  ra_source :: string
  ra_released :: nat
  ra_tenants :: nat

datatype claim_effect =
    SendClaimResult uuid "string set" "string set"
  | PublishAnnouncement wire_announcement
  | PublishSyncResponse uuid "string \<rightharpoonup> sync_entry_payload"
  | PushSoftwareStates uuid
  | PushAgentStates uuid
  | AuditClaim claim_audit
  | AuditRelease release_audit

section \<open>Audit entries\<close>

definition workload_scope_for_tenants :: "uuid set \<Rightarrow> uuid option" where
  "workload_scope_for_tenants ts = (if card ts = 1 then Some (the_elem ts) else None)"

definition emit_workload_claim_audit_event ::
  "uuid \<Rightarrow> (string \<rightharpoonup> uuid) \<Rightarrow> string set \<Rightarrow> string set \<Rightarrow> (string \<rightharpoonup> uuid) \<Rightarrow> string \<Rightarrow> uuid option
     \<Rightarrow> claim_effect list" where
  "emit_workload_claim_audit_event svc requested granted rejected released source trigger =
     (if granted = {} \<and> rejected = {} then []
      else [AuditClaim
        \<lparr>ca_service = svc, ca_scope = workload_scope_for_tenants (ran requested),
         ca_outcome = (if rejected = {} then AuditSuccess else if granted = {} then AuditDenied else AuditPartial),
         ca_source = source, ca_requested = card (dom requested), ca_granted = card granted,
         ca_rejected = card rejected, ca_released = card (dom released), ca_tenants = card (ran requested),
         ca_reason = (if rejected \<noteq> {} then Some ''already_claimed'' else None), ca_trigger = trigger\<rparr>])"

definition emit_workload_release_audit_event ::
  "uuid \<Rightarrow> (string \<rightharpoonup> uuid) \<Rightarrow> string \<Rightarrow> claim_effect list" where
  "emit_workload_release_audit_event svc released source =
     (if released = Map.empty then []
      else [AuditRelease
        \<lparr>ra_service = svc, ra_scope = workload_scope_for_tenants (ran released), ra_source = source,
         ra_released = card (dom released), ra_tenants = card (ran released)\<rparr>])"

section \<open>Handlers\<close>

definition push_tenants :: "uuid set \<Rightarrow> claim_effect list" where
  "push_tenants ts = concat (map (\<lambda>t. [PushSoftwareStates t, PushAgentStates t]) (btree_iter ts))"

definition handle_workload_claim ::
  "time_lib \<Rightarrow> uuid \<Rightarrow> uuid \<Rightarrow> (string \<rightharpoonup> uuid) \<Rightarrow> instant \<Rightarrow> instant \<Rightarrow> claim_registry
     \<Rightarrow> (string set \<times> string set) \<times> claim_effect list \<times> claim_registry" where
  "handle_workload_claim tm ctrl svc desired t_claim t_announce reg =
     (let (res, reg') = try_claim svc ctrl desired t_claim reg;
          audits = emit_workload_claim_audit_event svc desired (cr_granted res) (cr_rejected res) (cr_released res)
              ''request'' None
            @ emit_workload_release_audit_event svc (cr_released res) ''claim_replacement'';
          publish = (if cr_granted res \<noteq> {} \<or> cr_released res \<noteq> Map.empty
            then [PublishAnnouncement
              \<lparr>wa_service = svc, wa_controller = ctrl, wa_claimed = tenant_for_key reg' |` cr_granted res,
               wa_released = dom (cr_released res), wa_claimed_at = format_or_default tm t_announce\<rparr>]
            else [])
      in ((cr_granted res, cr_rejected res), audits @ publish @ push_tenants (new_tenants res), reg'))"

text \<open>One turn of the loop that hands released keys to a service that waits for them. \<open>released\<close> is
  what the triggering service gave up; \<open>clk\<close> has the two clock readings of the turn.\<close>

definition regrant_one ::
  "time_lib \<Rightarrow> uuid \<Rightarrow> uuid \<Rightarrow> (string \<rightharpoonup> uuid) \<Rightarrow> (uuid \<Rightarrow> instant \<times> instant) \<Rightarrow> (uuid \<rightharpoonup> (string \<rightharpoonup> uuid)) \<Rightarrow> uuid
     \<Rightarrow> claim_effect list \<times> claim_registry \<Rightarrow> claim_effect list \<times> claim_registry" where
  "regrant_one tm ctrl trigger released clk re_grantable svc st = (case st of (effs, reg) \<Rightarrow>
     (let desired = the (re_grantable svc);
          (res, reg') = try_claim svc ctrl desired (fst (clk svc)) reg
      in if cr_granted res = {} then (effs, reg')
         else (effs
             @ emit_workload_claim_audit_event svc
                 ((tenant_for_key reg' |` cr_granted res) ++ (released |` cr_rejected res))
                 (cr_granted res) (cr_rejected res) Map.empty ''regrant'' (Some trigger)
             @ [SendClaimResult svc (cr_granted res) (cr_rejected res),
                PublishAnnouncement
                  \<lparr>wa_service = svc, wa_controller = ctrl, wa_claimed = tenant_for_key reg' |` cr_granted res,
                   wa_released = {}, wa_claimed_at = format_or_default tm (snd (clk svc))\<rparr>]
             @ push_tenants (new_tenants res), reg')))"

definition regrant_loop ::
  "time_lib \<Rightarrow> (uuid set \<Rightarrow> uuid list) \<Rightarrow> uuid \<Rightarrow> uuid \<Rightarrow> (string \<rightharpoonup> uuid) \<Rightarrow> (uuid \<Rightarrow> instant \<times> instant)
     \<Rightarrow> claim_registry \<Rightarrow> claim_effect list \<times> claim_registry" where
  "regrant_loop tm iter ctrl trigger released clk reg =
     (let re_grantable = find_pending_desires_for_keys reg (dom released)
      in fold (regrant_one tm ctrl trigger released clk re_grantable) (iter (dom re_grantable)) ([], reg))"

definition release_announcement :: "time_lib \<Rightarrow> uuid \<Rightarrow> uuid \<Rightarrow> (string \<rightharpoonup> uuid) \<Rightarrow> instant \<Rightarrow> wire_announcement" where
  "release_announcement tm ctrl svc released t_announce =
     \<lparr>wa_service = svc, wa_controller = ctrl, wa_claimed = Map.empty, wa_released = dom released,
      wa_claimed_at = format_or_default tm t_announce\<rparr>"

text \<open>What both kinds of release do with the keys they freed.\<close>

definition finish_release ::
  "time_lib \<Rightarrow> (uuid set \<Rightarrow> uuid list) \<Rightarrow> uuid \<Rightarrow> uuid \<Rightarrow> (string \<rightharpoonup> uuid) \<Rightarrow> string \<Rightarrow> instant
     \<Rightarrow> (uuid \<Rightarrow> instant \<times> instant) \<Rightarrow> claim_registry \<Rightarrow> claim_effect list \<times> claim_registry" where
  "finish_release tm iter ctrl svc released source t_announce clk reg =
     (if released = Map.empty then ([], reg)
      else (let (effs, reg') = regrant_loop tm iter ctrl svc released clk reg
            in (emit_workload_release_audit_event svc released source
                  @ PublishAnnouncement (release_announcement tm ctrl svc released t_announce) # effs, reg')))"

definition handle_workload_release ::
  "time_lib \<Rightarrow> (uuid set \<Rightarrow> uuid list) \<Rightarrow> uuid \<Rightarrow> uuid \<Rightarrow> string set \<Rightarrow> instant \<Rightarrow> (uuid \<Rightarrow> instant \<times> instant)
     \<Rightarrow> claim_registry \<Rightarrow> claim_effect list \<times> claim_registry" where
  "handle_workload_release tm iter ctrl svc keys t_announce clk reg =
     (let (released, reg1) = release_keys svc keys reg
      in finish_release tm iter ctrl svc released ''request'' t_announce clk reg1)"

definition release_all_claims_on_disconnect ::
  "time_lib \<Rightarrow> (uuid set \<Rightarrow> uuid list) \<Rightarrow> uuid \<Rightarrow> uuid \<Rightarrow> instant \<Rightarrow> (uuid \<Rightarrow> instant \<times> instant)
     \<Rightarrow> claim_registry \<Rightarrow> claim_effect list \<times> claim_registry" where
  "release_all_claims_on_disconnect tm iter ctrl svc t_announce clk reg =
     (let (released, reg1) = release svc reg
      in finish_release tm iter ctrl svc released ''disconnect'' t_announce clk reg1)"

section \<open>Messages of other controllers\<close>

text \<open>\<open>claim_registry\<close> and \<open>notification_service\<close> are optional; the latter stands for its controller id.\<close>

record delivery_resources =
  dr_claims :: "claim_registry option"
  dr_notification :: "uuid option"

definition remote_regrant_one ::
  "time_lib \<Rightarrow> uuid \<Rightarrow> (uuid \<Rightarrow> instant \<times> instant) \<Rightarrow> (uuid \<rightharpoonup> (string \<rightharpoonup> uuid)) \<Rightarrow> uuid
     \<Rightarrow> claim_effect list \<times> claim_registry \<Rightarrow> claim_effect list \<times> claim_registry" where
  "remote_regrant_one tm ctrl clk re_grantable svc st = (case st of (effs, reg) \<Rightarrow>
     (let desired = the (re_grantable svc);
          (res, reg') = try_claim svc ctrl desired (fst (clk svc)) reg
      in if cr_granted res = {} then (effs, reg')
         else (effs
             @ [SendClaimResult svc (cr_granted res) (cr_rejected res),
                PublishAnnouncement
                  \<lparr>wa_service = svc, wa_controller = ctrl, wa_claimed = tenant_for_key reg' |` cr_granted res,
                   wa_released = {}, wa_claimed_at = format_or_default tm (snd (clk svc))\<rparr>]
             @ push_tenants (new_tenants res), reg')))"

definition deliver_claim_announcement ::
  "time_lib \<Rightarrow> (uuid set \<Rightarrow> uuid list) \<Rightarrow> wire_announcement \<Rightarrow> instant \<Rightarrow> (uuid \<Rightarrow> instant \<times> instant)
     \<Rightarrow> delivery_resources \<Rightarrow> claim_effect list \<times> delivery_resources" where
  "deliver_claim_announcement tm iter payload now clk dr = (case dr_claims dr of
       None \<Rightarrow> ([], dr)
     | Some reg \<Rightarrow>
         (let claimed_at = parse_or_now tm now (wa_claimed_at payload);
              (revocations, reg1) = apply_remote_announcement iter (wa_service payload) (wa_controller payload)
                (wa_claimed payload) (wa_released payload) claimed_at reg;
              sends = (case dr_notification dr of None \<Rightarrow> []
                | Some _ \<Rightarrow> map (\<lambda>rv. SendClaimResult (rev_service rv) {} (rev_keys rv)) revocations);
              re_grantable = find_pending_desires_for_keys reg1 (wa_released payload)
          in case dr_notification dr of
               Some ctrl \<Rightarrow>
                 if wa_released payload \<noteq> {} \<and> re_grantable \<noteq> Map.empty
                 then (let (effs, reg2) = fold (remote_regrant_one tm ctrl clk re_grantable)
                            (iter (dom re_grantable)) (sends, reg1)
                       in (effs, dr\<lparr>dr_claims := Some reg2\<rparr>))
                 else (sends, dr\<lparr>dr_claims := Some reg1\<rparr>)
             | None \<Rightarrow> (sends, dr\<lparr>dr_claims := Some reg1\<rparr>)))"

definition build_sync_response ::
  "time_lib \<Rightarrow> (string \<rightharpoonup> uuid \<times> uuid \<times> instant) \<Rightarrow> string \<rightharpoonup> sync_entry_payload" where
  "build_sync_response tm loc = (\<lambda>key. case loc key of
       None \<Rightarrow> None
     | Some (svc, t, claimed_at) \<Rightarrow>
         Some \<lparr>se_service = svc, se_tenant = t, se_claimed_at = format_or_default tm claimed_at\<rparr>)"

definition parse_sync_claims ::
  "time_lib \<Rightarrow> instant \<Rightarrow> (string \<rightharpoonup> sync_entry_payload) \<Rightarrow> string \<rightharpoonup> uuid \<times> uuid \<times> instant" where
  "parse_sync_claims tm now wire_claims = (\<lambda>key. case wire_claims key of
       None \<Rightarrow> None
     | Some e \<Rightarrow> Some (se_service e, se_tenant e, parse_or_now tm now (se_claimed_at e)))"

definition deliver_sync_request :: "time_lib \<Rightarrow> delivery_resources \<Rightarrow> claim_effect list" where
  "deliver_sync_request tm dr = (case (dr_claims dr, dr_notification dr) of
       (Some reg, Some ctrl) \<Rightarrow> [PublishSyncResponse ctrl (build_sync_response tm (local_claims reg ctrl))]
     | _ \<Rightarrow> [])"

definition deliver_sync_response ::
  "time_lib \<Rightarrow> uuid \<Rightarrow> (string \<rightharpoonup> sync_entry_payload) \<Rightarrow> instant \<Rightarrow> delivery_resources \<Rightarrow> delivery_resources" where
  "deliver_sync_response tm ctrl wire_claims now dr = (case dr_claims dr of
       None \<Rightarrow> dr
     | Some reg \<Rightarrow> dr\<lparr>dr_claims := Some (apply_sync_response ctrl (parse_sync_claims tm now wire_claims) reg)\<rparr>)"

section \<open>The re-grant loop\<close>

definition regrants :: "uuid \<Rightarrow> (uuid \<Rightarrow> instant \<times> instant) \<Rightarrow> (uuid \<rightharpoonup> (string \<rightharpoonup> uuid)) \<Rightarrow> uuid list
    \<Rightarrow> claim_registry \<Rightarrow> claim_registry" where
  "regrants ctrl clk rg svcs reg =
     fold (\<lambda>svc r. snd (try_claim svc ctrl (the (rg svc)) (fst (clk svc)) r)) svcs reg"

definition published :: "claim_effect list \<Rightarrow> wire_announcement set" where
  "published effs = {a. PublishAnnouncement a \<in> set effs}"

lemma published_simps [simp]:
  "published [] = {}" "published (xs @ ys) = published xs \<union> published ys"
  "published (PublishAnnouncement a # xs) = insert a (published xs)"
  "published (SendClaimResult u g r # xs) = published xs"
  "published (push_tenants ts) = {}"
  "published (emit_workload_claim_audit_event svc rq g r rl src tr) = {}"
  "published (emit_workload_release_audit_event svc rl src) = {}"
  by (auto simp: published_def push_tenants_def emit_workload_claim_audit_event_def
      emit_workload_release_audit_event_def)

definition announces_no_release :: "claim_effect list \<Rightarrow> bool" where
  "announces_no_release effs \<longleftrightarrow> (\<forall>a \<in> published effs. wa_released a = {})"

text \<open>A turn of either loop changes the registry by one claim and never announces a released key.\<close>

lemma regrant_one_step:
  "snd (regrant_one tm ctrl trigger released clk rg svc st) =
     snd (try_claim svc ctrl (the (rg svc)) (fst (clk svc)) (snd st))"
  "announces_no_release (fst st) \<Longrightarrow>
     announces_no_release (fst (regrant_one tm ctrl trigger released clk rg svc st))"
  by (cases st; simp add: regrant_one_def announces_no_release_def Let_def split: prod.split)+

lemma remote_regrant_one_step:
  "snd (remote_regrant_one tm ctrl clk rg svc st) =
     snd (try_claim svc ctrl (the (rg svc)) (fst (clk svc)) (snd st))"
  by (cases st) (simp add: remote_regrant_one_def Let_def split: prod.split)

lemma regrant_fold:
  "snd (fold (regrant_one tm ctrl trigger released clk rg) svcs st) = regrants ctrl clk rg svcs (snd st)"
  by (induction svcs arbitrary: st) (simp_all add: regrants_def regrant_one_step)

lemma regrant_fold_announces:
  "announces_no_release (fst st) \<Longrightarrow>
     announces_no_release (fst (fold (regrant_one tm ctrl trigger released clk rg) svcs st))"
  by (induction svcs arbitrary: st) (simp_all add: regrant_one_step)

lemma remote_regrant_fold:
  "snd (fold (remote_regrant_one tm ctrl clk rg) svcs st) = regrants ctrl clk rg svcs (snd st)"
  by (induction svcs arbitrary: st) (simp_all add: regrants_def remote_regrant_one_step)

definition regrantable :: "(uuid \<rightharpoonup> (string \<rightharpoonup> uuid)) \<Rightarrow> uuid list \<Rightarrow> bool" where
  "regrantable rg svcs \<longleftrightarrow> distinct svcs \<and> (\<forall>s \<in> set svcs. finite (dom (the (rg s))))"

lemma regrantable_Cons:
  "regrantable rg (s # svcs) \<longleftrightarrow> s \<notin> set svcs \<and> finite (dom (the (rg s))) \<and> regrantable rg svcs"
  by (auto simp: regrantable_def)

lemma regrants_Cons:
  assumes "registry_inv reg" "regrantable rg (s # svcs)"
  obtains reg1 where "regrants ctrl clk rg (s # svcs) reg = regrants ctrl clk rg svcs reg1" "registry_inv reg1"
    "claims reg1 = claim_spec s ctrl (the (rg s)) (fst (clk s)) (claims reg)" "regrantable rg svcs" "s \<notin> set svcs"
  using try_claim_effect[OF assms(1), of "the (rg s)" s ctrl "fst (clk s)"] assms(2)
  by (fastforce simp: regrants_def regrantable_Cons)

lemma regrants_inv: "registry_inv reg \<Longrightarrow> regrantable rg svcs \<Longrightarrow> registry_inv (regrants ctrl clk rg svcs reg)"
proof (induction svcs arbitrary: reg)
  case (Cons s svcs)
  from Cons.prems show ?case by (rule regrants_Cons[of _ _ _ _ ctrl clk]) (simp add: Cons.IH)
qed (simp add: regrants_def)

text \<open>The claims of a service that takes no turn stay, and it gets no new ones.\<close>

lemma claim_spec_other:
  assumes "s \<noteq> svc"
  shows "owned_by s (claim_spec svc ctrl desired now m k) \<longleftrightarrow> owned_by s (m k)"
    and "owned_by s (m k) \<Longrightarrow> claim_spec svc ctrl desired now m k = m k"
  using assms by (auto simp: claim_spec_def owned_by_iff split: option.split)

lemma regrants_other:
  assumes "registry_inv reg" "regrantable rg svcs" "s \<notin> set svcs"
  shows "owned_by s (claims (regrants ctrl clk rg svcs reg) k) \<longleftrightarrow> owned_by s (claims reg k)"
    and "owned_by s (claims reg k) \<Longrightarrow> claims (regrants ctrl clk rg svcs reg) k = claims reg k"
proof -
  have "(owned_by s (claims (regrants ctrl clk rg svcs reg) k) \<longleftrightarrow> owned_by s (claims reg k)) \<and>
    (owned_by s (claims reg k) \<longrightarrow> claims (regrants ctrl clk rg svcs reg) k = claims reg k)"
    using assms
  proof (induction svcs arbitrary: reg)
    case (Cons x svcs)
    from Cons.prems(1,2) show ?case
    proof (rule regrants_Cons[of _ _ _ _ ctrl clk])
      fix reg1 assume r: "regrants ctrl clk rg (x # svcs) reg = regrants ctrl clk rg svcs reg1" "registry_inv reg1"
        "claims reg1 = claim_spec x ctrl (the (rg x)) (fst (clk x)) (claims reg)" "regrantable rg svcs"
      have "s \<noteq> x" using Cons.prems(3) by auto
      note o = claim_spec_other[OF this]
      have "s \<notin> set svcs" using Cons.prems(3) by simp
      from Cons.IH[OF r(2,4) this] show ?thesis unfolding r(1,3) using o by simp
    qed
  qed (simp add: regrants_def)
  then show "owned_by s (claims (regrants ctrl clk rg svcs reg) k) \<longleftrightarrow> owned_by s (claims reg k)"
    and "owned_by s (claims reg k) \<Longrightarrow> claims (regrants ctrl clk rg svcs reg) k = claims reg k" by auto
qed

text \<open>A free key somebody waits for has an owner after the loop.\<close>

lemma regrants_fill:
  assumes "registry_inv reg" "regrantable rg svcs" "b \<in> set svcs" "k \<in> dom (the (rg b))"
    and "\<forall>s \<in> set svcs. \<not> owned_by s (claims reg k)"
  shows "\<exists>ow. claims (regrants ctrl clk rg svcs reg) k = Some ow"
  using assms
proof (induction svcs arbitrary: reg)
  case (Cons x svcs)
  from Cons.prems(1,2) show ?case
  proof (rule regrants_Cons[of _ _ _ _ ctrl clk])
    fix reg1 assume r: "regrants ctrl clk rg (x # svcs) reg = regrants ctrl clk rg svcs reg1" "registry_inv reg1"
      "claims reg1 = claim_spec x ctrl (the (rg x)) (fst (clk x)) (claims reg)" "regrantable rg svcs" "x \<notin> set svcs"
    show ?thesis
    proof (cases "the (rg x) k")
      case None
      then have "claims reg1 k = claims reg k" using Cons.prems(5) by (simp add: r(3) claim_spec_def)
      moreover have "b \<in> set svcs" using None Cons.prems(3,4) by auto
      ultimately show ?thesis using Cons.IH[OF r(2,4)] Cons.prems(4,5) r(1) by auto
    next
      case (Some t)
      then obtain ow where ow: "claims reg1 k = Some ow" "claims reg k = Some ow \<or> own_service ow = x"
        by (cases "claims reg k") (auto simp: r(3) claim_spec_def)
      then have "own_service ow \<notin> set svcs" using Cons.prems(5) r(5) by auto
      then show ?thesis using regrants_other(2)[OF r(2,4), of "own_service ow" k] ow(1) r(1) by simp
    qed
  qed
qed simp

text \<open>A key that nobody in the loop waits for is lost when its owner takes a turn.\<close>

lemma regrants_drop:
  assumes "registry_inv reg" "regrantable rg svcs" "\<forall>s \<in> set svcs. the (rg s) k = None"
    and "claims reg k = None \<or> (\<exists>b \<in> set svcs. owned_by b (claims reg k))"
  shows "claims (regrants ctrl clk rg svcs reg) k = None"
  using assms
proof (induction svcs arbitrary: reg)
  case (Cons x svcs)
  from Cons.prems(1,2) show ?case
  proof (rule regrants_Cons[of _ _ _ _ ctrl clk])
    fix reg1 assume r: "regrants ctrl clk rg (x # svcs) reg = regrants ctrl clk rg svcs reg1" "registry_inv reg1"
      "claims reg1 = claim_spec x ctrl (the (rg x)) (fst (clk x)) (claims reg)" "regrantable rg svcs"
    have "claims reg1 k = (if owned_by x (claims reg k) then None else claims reg k)"
      using Cons.prems(3) by (simp add: r(3) claim_spec_def)
    then show ?thesis using Cons.IH[OF r(2,4)] Cons.prems(3,4) r(1)
      by (cases "owned_by x (claims reg k)") auto
  qed
qed (simp add: regrants_def)

lemma find_pending_simps:
  "svc \<in> dom (find_pending_desires_for_keys reg K) \<longleftrightarrow> (\<exists>d. pending_desires reg svc = Some d \<and> dom d \<inter> K \<noteq> {})"
  "pending_desires reg svc = Some d \<Longrightarrow> dom d \<inter> K \<noteq> {} \<Longrightarrow>
     the (find_pending_desires_for_keys reg K svc) = d |` K"
  by (auto simp: find_pending_desires_for_keys_def dom_def split: option.splits)

text \<open>What the loop gets: finitely many waiting services, each once, with desires among the keys.\<close>

lemma find_pending_regrantable:
  fixes K :: "string set"
  assumes inv: "registry_inv reg" and it: "hash_iteration iter"
  defines "rg \<equiv> find_pending_desires_for_keys reg K"
  shows "set (iter (dom rg)) = dom rg" and "regrantable rg (iter (dom rg))"
    and "s \<in> dom rg \<Longrightarrow> k \<notin> K \<Longrightarrow> the (rg s) k = None"
proof -
  have w: "finite (dom (pending_desires reg))" "\<And>s d. pending_desires reg s = Some d \<Longrightarrow> finite (dom d)"
    using inv by (auto simp: registry_inv_def desires_wf_def)
  have "finite (dom rg)"
    by (rule finite_subset[OF _ w(1)]) (auto simp: rg_def find_pending_desires_for_keys_def split: option.splits)
  then show i: "set (iter (dom rg)) = dom rg" using it by (simp add: hash_iteration_def)
  have "finite (dom (the (rg s)))" if "s \<in> dom rg" for s
    using that w(2)[of s] by (auto simp: rg_def find_pending_desires_for_keys_def split: option.splits if_splits)
  then show "regrantable rg (iter (dom rg))"
    using i it \<open>finite (dom rg)\<close> by (simp add: regrantable_def hash_iteration_def)
  show "the (rg s) k = None" if "s \<in> dom rg" "k \<notin> K"
    using that by (auto simp: rg_def find_pending_desires_for_keys_def split: option.splits if_splits)
qed

lemma regrant_loop_effect:
  assumes inv: "registry_inv reg" and it: "hash_iteration iter"
    and r: "regrant_loop tm iter ctrl trigger released clk reg = (effs, reg')"
  defines "waiting \<equiv> dom (find_pending_desires_for_keys reg (dom released))"
  shows "registry_inv reg'" and "announces_no_release effs"
    and "s \<notin> waiting \<Longrightarrow> owned_by s (claims reg' k) \<longleftrightarrow> owned_by s (claims reg k)"
    and "claims reg k = None \<Longrightarrow> pending_desires reg b = Some d \<Longrightarrow> k \<in> dom d \<Longrightarrow> k \<in> dom released \<Longrightarrow>
      \<exists>ow. claims reg' k = Some ow"
    and "k \<notin> dom released \<Longrightarrow> b \<in> waiting \<Longrightarrow> owned_by b (claims reg k) \<Longrightarrow> claims reg' k = None"
proof -
  let ?rg = "find_pending_desires_for_keys reg (dom released)"
  let ?it = "iter (dom ?rg)"
  note f = find_pending_regrantable[OF inv it, where K = "dom released"]
  have reg': "reg' = regrants ctrl clk ?rg ?it reg" and effs: "effs = fst (fold (regrant_one tm ctrl trigger released clk ?rg) ?it ([], reg))"
    using r regrant_fold[of tm ctrl trigger released clk ?rg ?it "([], reg)"]
    by (simp_all add: regrant_loop_def Let_def)
  show "registry_inv reg'" unfolding reg' by (rule regrants_inv[OF inv f(2)])
  show "announces_no_release effs" unfolding effs
    by (rule regrant_fold_announces) (simp add: announces_no_release_def)
  show "owned_by s (claims reg' k) \<longleftrightarrow> owned_by s (claims reg k)" if "s \<notin> waiting"
    unfolding reg' by (rule regrants_other(1)[OF inv f(2)]) (use that f(1) in \<open>simp add: waiting_def\<close>)
  show "\<exists>ow. claims reg' k = Some ow"
    if "claims reg k = None" "pending_desires reg b = Some d" "k \<in> dom d" "k \<in> dom released"
  proof -
    have "dom d \<inter> dom released \<noteq> {}" using that(3,4) by blast
    then have "b \<in> dom ?rg" "k \<in> dom (the (?rg b))"
      using find_pending_simps[where K = "dom released"] that(2,3,4) by (blast, simp)
    then show ?thesis unfolding reg' using regrants_fill[OF inv f(2)] f(1) that(1) by simp
  qed
  show "claims reg' k = None" if "k \<notin> dom released" "b \<in> waiting" "owned_by b (claims reg k)"
    unfolding reg'
    by (rule regrants_drop[OF inv f(2)]) (use that f(1) f(3) in \<open>auto simp: waiting_def\<close>)
qed

lemma finish_release_effect:
  assumes inv: "registry_inv reg" and it: "hash_iteration iter"
    and r: "finish_release tm iter ctrl svc released source t clk reg = (effs, reg')"
  shows "registry_inv reg'"
    and "pending_desires reg s = None \<Longrightarrow> owned_by s (claims reg' k) \<longleftrightarrow> owned_by s (claims reg k)"
    and "claims reg k = None \<Longrightarrow> pending_desires reg b = Some d \<Longrightarrow> k \<in> dom d \<Longrightarrow> k \<in> dom released \<Longrightarrow>
      \<exists>ow. claims reg' k = Some ow"
    and "k \<notin> dom released \<Longrightarrow> pending_desires reg b = Some d \<Longrightarrow> dom d \<inter> dom released \<noteq> {} \<Longrightarrow>
      owned_by b (claims reg k) \<Longrightarrow> claims reg' k = None"
    and "a \<in> published effs \<Longrightarrow> wa_released a \<subseteq> dom released"
    and "released \<noteq> Map.empty \<Longrightarrow> release_announcement tm ctrl svc released t \<in> published effs"
proof -
  obtain effs1 reg1 where l: "regrant_loop tm iter ctrl svc released clk reg = (effs1, reg1)" by (meson surj_pair)
  note e = regrant_loop_effect[OF inv it l]
  note w = find_pending_simps(1)
  have c: "released = Map.empty \<and> effs = [] \<and> reg' = reg \<or> released \<noteq> Map.empty \<and> reg' = reg1 \<and>
      effs = emit_workload_release_audit_event svc released source
        @ PublishAnnouncement (release_announcement tm ctrl svc released t) # effs1"
    using r l by (auto simp: finish_release_def split: if_splits)
  show "registry_inv reg'" using c inv e(1) by blast
  show "owned_by s (claims reg' k) \<longleftrightarrow> owned_by s (claims reg k)" if "pending_desires reg s = None"
    using c e(3)[of s k] that by (auto simp: w)
  show "\<exists>ow. claims reg' k = Some ow"
    if "claims reg k = None" "pending_desires reg b = Some d" "k \<in> dom d" "k \<in> dom released"
    using c e(4)[OF that] that(4) by auto
  show "claims reg' k = None"
    if "k \<notin> dom released" "pending_desires reg b = Some d" "dom d \<inter> dom released \<noteq> {}" "owned_by b (claims reg k)"
  proof -
    have "b \<in> dom (find_pending_desires_for_keys reg (dom released))" unfolding w using that(2,3) by blast
    from e(5)[OF that(1) this that(4)] show ?thesis using c that(3) by auto
  qed
  show "wa_released a \<subseteq> dom released" if "a \<in> published effs"
    using c e(2) that by (auto simp: announces_no_release_def release_announcement_def)
  show "release_announcement tm ctrl svc released t \<in> published effs" if "released \<noteq> Map.empty"
    using c that by auto
qed

section \<open>Properties\<close>

text \<open>A printer and parser of times, for concrete runs.\<close>

definition unary_time :: time_lib where
  "unary_time = \<lparr>format_ts = (\<lambda>t. Some ((if t < 0 then ''-'' else []) @ replicate (nat \<bar>t\<bar>) CHR ''i'')),
     parse_ts = (\<lambda>s. Some (case s of [] \<Rightarrow> 0 | c # cs \<Rightarrow> if c = CHR ''-'' then - int (length cs) else int (length s)))\<rparr>"

lemma unary_round_trip: "rfc3339_round_trip unary_time"
proof -
  have "parse_ts unary_time ((if t < 0 then ''-'' else []) @ replicate (nat \<bar>t\<bar>) CHR ''i'') = Some t" for t
    by (cases "nat \<bar>t\<bar>") (auto simp: unary_time_def)
  then show ?thesis by (auto simp: rfc3339_round_trip_def unary_time_def)
qed

text \<open>Service 7 holds \<open>a\<close> and \<open>b\<close>; service 8 holds \<open>c\<close> and waits for \<open>a\<close>.\<close>

definition contended_registry :: claim_registry where
  "contended_registry = snd (try_claim 8 1 [''a'' \<mapsto> 20, ''c'' \<mapsto> 20] 105 sample_registry)"

lemma contended_registry_facts:
  "registry_inv contended_registry"
  "claims contended_registry ''a'' = Some (claim_entry 7 1 100 20)"
  "claims contended_registry ''c'' = Some (claim_entry 8 1 105 20)"
  "pending_desires contended_registry 8 = Some [''a'' \<mapsto> 20]"
proof -
  have r: "rejected_keys 8 [''a'' \<mapsto> 20, ''c'' \<mapsto> 20] (claims sample_registry) = {''a''}"
    by (auto simp: rejected_keys_def sample_registry_claims)
  have d: "[''a'' \<mapsto> (20::nat), ''c'' \<mapsto> 20] |` {''a''} = [''a'' \<mapsto> 20]" by (auto simp: restrict_map_def fun_eq_iff)
  obtain reg' res where t: "try_claim 8 1 [''a'' \<mapsto> 20, ''c'' \<mapsto> 20] 105 sample_registry = (res, reg')"
    and i: "registry_inv reg'"
    and c: "claims reg' = claim_spec 8 1 [''a'' \<mapsto> 20, ''c'' \<mapsto> 20] 105 (claims sample_registry)"
    and p: "pending_desires reg' = (pending_desires sample_registry)(8 := if {''a''} = ({} :: string set) then None else
      Some [''a'' \<mapsto> 20])"
    using try_claim_effect[OF sample_registry_inv, of "[''a'' \<mapsto> 20, ''c'' \<mapsto> 20]" 8 1 105]
    unfolding r d by fastforce
  have reg': "contended_registry = reg'" by (simp only: contended_registry_def t snd_conv)
  show "registry_inv contended_registry" "pending_desires contended_registry 8 = Some [''a'' \<mapsto> 20]"
    unfolding reg' using i p by simp_all
  show "claims contended_registry ''a'' = Some (claim_entry 7 1 100 20)"
    "claims contended_registry ''c'' = Some (claim_entry 8 1 105 20)"
    unfolding reg' c by (simp_all add: claim_spec_def sample_registry_claims)
qed

text \<open>C13. Failover: when a service disconnects it owns nothing and no tenant's events are routed to it
  any more, its keys are announced as released, and every one of them that another local service
  waits for has a new owner at once.\<close>

theorem disconnect_fails_over:
  assumes inv: "registry_inv reg" and it: "hash_iteration iter"
    and r: "release_all_claims_on_disconnect tm iter ctrl svc t clk reg = (effs, reg')"
    and k: "k \<in> service_claims reg svc"
  shows "registry_inv reg' \<and> service_claims reg' svc = {} \<and> svc \<notin> services_for_tenant reg' tenant \<and>
    (\<exists>a \<in> published effs. wa_service a = svc \<and> wa_released a = service_claims reg svc) \<and>
    (b \<noteq> svc \<and> pending_desires reg b = Some d \<and> k \<in> dom d \<longrightarrow>
       (\<exists>s t. s \<noteq> svc \<and> key_owner reg' k = Some (s, t)))"
proof -
  let ?rel = "tenant_for_key reg |` {k. owned_by svc (claims reg k)}"
  obtain reg1 where r1: "release svc reg = (?rel, reg1)" and i1: "registry_inv reg1"
    and c1: "claims reg1 = release_spec svc UNIV (claims reg)" and p1: "pending_desires reg1 = (pending_desires reg)(svc := None)"
    using release_effect[OF inv, of svc] by blast
  have K: "service_claims reg svc = {k. owned_by svc (claims reg k)}"
    using keys_exactD[OF registry_inv_keys[OF inv]] by blast
  have dom: "dom ?rel = service_claims reg svc"
    unfolding K by (auto simp: tenant_for_key_def owned_by_iff restrict_map_def split: if_splits)
  have fr: "finish_release tm iter ctrl svc ?rel ''disconnect'' t clk reg1 = (effs, reg')"
    using r by (simp add: release_all_claims_on_disconnect_def r1)
  note e = finish_release_effect[OF i1 it fr]
  have none: "\<not> owned_by svc (claims reg' k)" for k
    using e(2)[of svc k] by (simp add: p1 c1 release_spec_def)
  then have "service_claims reg' svc = {}" using keys_exactD[OF registry_inv_keys[OF e(1)]] by blast
  moreover have "?rel \<noteq> Map.empty" using dom k by (metis dom_empty empty_iff)
  then have "\<exists>a \<in> published effs. wa_service a = svc \<and> wa_released a = service_claims reg svc"
    using e(6) dom
    by (intro bexI[of _ "release_announcement tm ctrl svc ?rel t"])
      (simp_all only: release_announcement_def wire_announcement.simps simp_thms)
  moreover have "\<exists>s t. s \<noteq> svc \<and> key_owner reg' k = Some (s, t)"
    if "b \<noteq> svc" "pending_desires reg b = Some d" "k \<in> dom d"
    using e(3)[of k b d] none[of k] that k unfolding dom by (auto simp: c1 p1 K release_spec_def key_owner_def)
  ultimately show ?thesis using e(1) registry_views.idle_not_routed[OF e(1), of svc tenant] by blast
qed

theorem disconnect_fails_over_witness:
  "\<exists>s t. s \<noteq> 7 \<and> key_owner (snd (release_all_claims_on_disconnect unary_time btree_iter 1 7 110 (\<lambda>_. (111, 112))
     contended_registry)) ''a'' = Some (s, t)"
proof -
  have "''a'' \<in> service_claims contended_registry 7"
    using keys_exactD[OF registry_inv_keys[OF contended_registry_facts(1)]] contended_registry_facts(2) by simp
  from disconnect_fails_over[OF contended_registry_facts(1) hash_iteration_btree prod.collapse[symmetric] this,
      of unary_time 1 110 "\<lambda>_. (111, 112)" 20 8 "[''a'' \<mapsto> 20]"]
  show ?thesis using contended_registry_facts(4) by auto
qed

text \<open>C14. The proactive re-grant takes keys away: it claims the released keys for a waiting service with
  an operation that replaces the service's whole set, so every other key the service holds is freed,
  and no announcement tells the other controllers.\<close>

theorem regrant_forgets_held_keys:
  assumes inv: "registry_inv reg" and it: "hash_iteration iter" and fin: "finite keys"
    and r: "handle_workload_release tm iter ctrl svc keys t clk reg = (effs, reg')"
    and k: "k \<in> keys" "k \<in> service_claims reg svc"
    and b: "b \<noteq> svc" "pending_desires reg b = Some d" "k \<in> dom d"
    and h: "h \<in> service_claims reg b"
  shows "key_owner reg' h = None \<and> (\<forall>a \<in> published effs. h \<notin> wa_released a)"
proof -
  let ?rel = "tenant_for_key reg |` {k \<in> keys. owned_by svc (claims reg k)}"
  obtain reg1 where r1: "release_keys svc keys reg = (?rel, reg1)" and i1: "registry_inv reg1"
    and c1: "claims reg1 = release_spec svc keys (claims reg)" and p1: "pending_desires reg1 = pending_desires reg"
    using release_keys_effect[OF inv fin, of svc] by blast
  note x = keys_exactD[OF registry_inv_keys[OF inv]]
  have dom: "dom ?rel = {k \<in> keys. owned_by svc (claims reg k)}"
    by (auto simp: tenant_for_key_def owned_by_iff restrict_map_def split: if_splits)
  have fr: "finish_release tm iter ctrl svc ?rel ''request'' t clk reg1 = (effs, reg')"
    using r by (simp add: handle_workload_release_def r1)
  note e = finish_release_effect[OF i1 it fr]
  have ob: "owned_by b (claims reg h)" using h x by blast
  have ns: "\<not> owned_by svc (claims reg h)" using owned_by_unique[OF ob, of svc] b(1) by blast
  then have nh: "h \<notin> dom ?rel" unfolding dom by blast
  have "owned_by b (claims reg1 h)" using ob ns by (simp add: c1 release_spec_def)
  moreover have "dom d \<inter> dom ?rel \<noteq> {}" unfolding dom using k x b(3) by blast
  ultimately have "claims reg' h = None" using e(4)[OF nh, of b d] b(2) p1 by simp
  then show ?thesis using e(5) nh by (auto simp: key_owner_def)
qed

theorem regrant_forgets_held_keys_witness:
  "key_owner contended_registry ''c'' = Some (8, 20) \<and>
   key_owner (snd (handle_workload_release unary_time btree_iter 1 7 {''a''} 110 (\<lambda>_. (111, 112)) contended_registry)) ''c'' = None"
proof -
  note x = keys_exactD[OF registry_inv_keys[OF contended_registry_facts(1)]]
  have "''a'' \<in> service_claims contended_registry 7" "''c'' \<in> service_claims contended_registry 8"
    using contended_registry_facts(2,3) by (simp_all add: x)
  from regrant_forgets_held_keys[OF contended_registry_facts(1) hash_iteration_btree _ prod.collapse[symmetric] _ this(1)
      _ contended_registry_facts(4) _ this(2), of "{''a''}"]
  show ?thesis using contended_registry_facts(3) by (simp add: key_owner_def)
qed

text \<open>A first claim on an otherwise empty registry, and the announcement it publishes.\<close>

definition first_announcement :: "time_lib \<Rightarrow> uuid \<Rightarrow> uuid \<Rightarrow> string \<Rightarrow> uuid \<Rightarrow> instant \<Rightarrow> wire_announcement" where
  "first_announcement tm ctrl svc k t t_announce =
     \<lparr>wa_service = svc, wa_controller = ctrl, wa_claimed = [k \<mapsto> t], wa_released = {},
      wa_claimed_at = format_or_default tm t_announce\<rparr>"

lemma first_claim_effect:
  assumes "handle_workload_claim tm ctrl svc [k \<mapsto> t] t_claim t_announce empty_registry = (rep, effs, reg)"
  shows "registry_inv reg" and "claims reg = [k \<mapsto> claim_entry svc ctrl t_claim t]"
    and "published effs = {first_announcement tm ctrl svc k t t_announce}"
proof -
  have e: "claims empty_registry = Map.empty" by (simp add: empty_registry_def)
  have sets: "granted_keys [k \<mapsto> t] Map.empty = {k}" "rejected_keys svc [k \<mapsto> t] Map.empty = {}"
    "released_keys svc [k \<mapsto> t] Map.empty = {}"
    by (auto simp: granted_keys_def rejected_keys_def released_keys_def)
  have cs: "claim_spec svc ctrl [k \<mapsto> t] t_claim Map.empty = [k \<mapsto> claim_entry svc ctrl t_claim t]"
    by (simp add: claim_spec_def fun_eq_iff)
  obtain reg1 where t: "try_claim svc ctrl [k \<mapsto> t] t_claim empty_registry =
      (\<lparr>cr_granted = {k}, cr_rejected = {}, cr_released = Map.empty,
        cr_tenants_after = {t. serves reg1 svc t}, cr_tenants_before = {t. serves empty_registry svc t}\<rparr>, reg1)"
    and i: "registry_inv reg1" and c: "claims reg1 = [k \<mapsto> claim_entry svc ctrl t_claim t]"
    using try_claim_effect[OF empty_registry_inv, of "[k \<mapsto> t]" svc ctrl t_claim] unfolding e sets cs by auto
  have r: "reg = reg1" using assms by (simp add: handle_workload_claim_def t Let_def)
  show "registry_inv reg" "claims reg = [k \<mapsto> claim_entry svc ctrl t_claim t]" using i c r by simp_all
  have "tenant_for_key reg1 |` {k} = [k \<mapsto> t]"
    by (auto simp: restrict_map_def tenant_for_key_def c fun_eq_iff)
  then show "published effs = {first_announcement tm ctrl svc k t t_announce}"
    using assms by (auto simp: handle_workload_claim_def t Let_def first_announcement_def)
qed

lemma deliver_first_announcement:
  assumes rt: "rfc3339_round_trip tm" and it: "hash_iteration iter" and inv: "registry_inv reg"
    and c: "claims reg = [k \<mapsto> claim_entry s c0 at0 t]" and n: "s \<noteq> svc"
    and d: "deliver_claim_announcement tm iter (first_announcement tm ctrl svc k t t_announce) now clk
      \<lparr>dr_claims = Some reg, dr_notification = ns\<rparr> = (effs, dr)"
  shows "\<exists>reg'. dr_claims dr = Some reg' \<and> claims reg' k =
     (if t_announce < at0 \<or> t_announce = at0 \<and> svc < s then Some (claim_entry svc ctrl t_announce t)
      else Some (claim_entry s c0 at0 t))"
proof -
  obtain revs reg' where a: "apply_remote_announcement iter svc ctrl [k \<mapsto> t] {} t_announce reg = (revs, reg')"
    and c': "claims reg' = announce_spec svc ctrl [k \<mapsto> t] {} t_announce (claims reg)"
    using apply_remote_effect[OF inv _ _ it, of "[k \<mapsto> t]" "{}" svc ctrl t_announce] by auto
  have "dr_claims dr = Some reg'"
    using d a rt by (cases ns) (auto simp: deliver_claim_announcement_def first_announcement_def Let_def)
  moreover have "claims reg' k = (if t_announce < at0 \<or> t_announce = at0 \<and> svc < s
      then Some (claim_entry svc ctrl t_announce t) else Some (claim_entry s c0 at0 t))"
    using n by (simp add: c' c announce_spec_def announce_entry_def release_spec_def remote_wins_def)
  ultimately show ?thesis by blast
qed

text \<open>C15. Two controllers that grant the same key to different services at overlapping times both keep
  their own claim: a grant is recorded with one reading of the clock and announced with a later one,
  so when the second grant falls between the two readings of the first, each controller finds its own
  claim older than the announced one.\<close>

theorem concurrent_grants_split:
  assumes "rfc3339_round_trip tm" "hash_iteration iter" "a \<noteq> b"
    and "handle_workload_claim tm cx a [k \<mapsto> t] t0 t1 empty_registry = (repx, effx, regx)"
    and "handle_workload_claim tm cy b [k \<mapsto> t] s0 s1 empty_registry = (repy, effy, regy)"
    and "t0 < s0" "s0 < t1" "s0 \<le> s1" "ax \<in> published effx" "ay \<in> published effy"
    and "deliver_claim_announcement tm iter ay now clk \<lparr>dr_claims = Some regx, dr_notification = Some cx\<rparr> = (ex, drx)"
    and "deliver_claim_announcement tm iter ax now clk \<lparr>dr_claims = Some regy, dr_notification = Some cy\<rparr> = (ey, dry)"
  shows "map_option (\<lambda>r. key_owner r k) (dr_claims drx) = Some (Some (a, t)) \<and>
    map_option (\<lambda>r. key_owner r k) (dr_claims dry) = Some (Some (b, t))"
proof -
  note x = first_claim_effect[OF assms(4)] and y = first_claim_effect[OF assms(5)]
  have ax: "ax = first_announcement tm cx a k t t1" and ay: "ay = first_announcement tm cy b k t s1"
    using assms(9,10) x(3) y(3) by simp_all
  obtain rx where rx: "dr_claims drx = Some rx" "claims rx k = Some (claim_entry a cx t0 t)"
    using deliver_first_announcement[OF assms(1,2) x(1,2) assms(3) assms(11)[unfolded ay]] assms(6-8) by auto
  obtain ry where ry: "dr_claims dry = Some ry" "claims ry k = Some (claim_entry b cy s0 t)"
    using deliver_first_announcement[OF assms(1,2) y(1,2) assms(3)[symmetric] assms(12)[unfolded ax]] assms(6-8) by auto
  show ?thesis using rx ry by (simp add: key_owner_def)
qed

theorem concurrent_grants_split_witness:
  "map_option (\<lambda>r. key_owner r ''k'') (dr_claims (snd (deliver_claim_announcement unary_time btree_iter
       (first_announcement unary_time 2 8 ''k'' 20 103) 110 (\<lambda>_. (0, 0))
       \<lparr>dr_claims = Some (snd (snd (handle_workload_claim unary_time 1 7 [''k'' \<mapsto> 20] 100 104 empty_registry))),
        dr_notification = Some 1\<rparr>))) = Some (Some (7, 20)) \<and>
   map_option (\<lambda>r. key_owner r ''k'') (dr_claims (snd (deliver_claim_announcement unary_time btree_iter
       (first_announcement unary_time 1 7 ''k'' 20 104) 110 (\<lambda>_. (0, 0))
       \<lparr>dr_claims = Some (snd (snd (handle_workload_claim unary_time 2 8 [''k'' \<mapsto> 20] 102 103 empty_registry))),
        dr_notification = Some 2\<rparr>))) = Some (Some (8, 20))"
proof -
  obtain repx effx regx where x: "handle_workload_claim unary_time 1 7 [''k'' \<mapsto> 20] 100 104 empty_registry = (repx, effx, regx)"
    using prod_cases3 by blast
  obtain repy effy regy where y: "handle_workload_claim unary_time 2 8 [''k'' \<mapsto> 20] 102 103 empty_registry = (repy, effy, regy)"
    using prod_cases3 by blast
  have ax: "first_announcement unary_time 1 7 ''k'' 20 104 \<in> published effx" using first_claim_effect(3)[OF x] by simp
  have ay: "first_announcement unary_time 2 8 ''k'' 20 103 \<in> published effy" using first_claim_effect(3)[OF y] by simp
  show ?thesis
    unfolding x y snd_conv
    by (rule concurrent_grants_split[OF unary_round_trip hash_iteration_btree _ x y _ _ _ ax ay
          prod.collapse[symmetric] prod.collapse[symmetric]]) simp_all
qed

text \<open>A controller that starts with an empty registry and asks a peer for its claims holds the
  peer's own claims unchanged, owner, tenant and time included, after the answer has travelled in its
  wire form.\<close>

theorem sync_exchange_round_trip:
  assumes "rfc3339_round_trip tm" "registry_inv reg" "dr_claims dr = Some reg" "dr_notification dr = Some ctrl"
    and "PublishSyncResponse c wire \<in> set (deliver_sync_request tm dr)"
    and "dr_claims dr0 = Some empty_registry"
    and "dr_claims (deliver_sync_response tm c wire now dr0) = Some reg'"
  shows "claims reg' k = (case claims reg k of
      None \<Rightarrow> None | Some ow \<Rightarrow> if own_controller ow = ctrl then Some ow else None)"
proof -
  have w: "c = ctrl" "wire = build_sync_response tm (local_claims reg ctrl)"
    using assms(3-5) by (simp_all add: deliver_sync_request_def)
  have "parse_sync_claims tm now (build_sync_response tm (local_claims reg ctrl)) = local_claims reg ctrl"
    using assms(1) by (auto simp: parse_sync_claims_def build_sync_response_def fun_eq_iff split: option.split)
  then have "reg' = apply_sync_response ctrl (local_claims reg ctrl) empty_registry"
    using assms(6,7) w by (simp add: deliver_sync_response_def)
  then show ?thesis
    using sync_claims_exact[OF keys_exact_finite[OF registry_inv_keys[OF assms(2)]], of ctrl] by simp
qed

end
