(* ===== verification/Task_Claims.thy ===== *)
theory Task_Claims
  imports Uptrakit_Prelude "HOL-Library.Word"
begin

text \<open>
  The database-backed task scheduler (\<open>crates/core/scheduler-runtime\<close>): the claim protocol on the
  table of scheduled tasks (\<open>claim.rs\<close>), the heartbeat and the poll cycle (\<open>scheduler.rs\<close>). Several
  controllers share the table. A statement that fails is a parameter, and so are the readings of the
  clock, the random jitter, the outcomes of the executors and the order in which they finish. Tick
  executors are only counted; log output is left out.
\<close>

section \<open>Tasks\<close>

datatype scheduled_task_type =
    AuthCleanup | StaleLeaseCleanup | CaRotationCheck | FetchReleases | DetectVersion
  | ServiceCertCheck | CrlRenewal | AuditLogCleanup | DiscoverSoftware

text \<open>The column value of each variant.\<close>

fun task_type_value :: "scheduled_task_type \<Rightarrow> string" where
  "task_type_value AuthCleanup = ''auth_cleanup''"
| "task_type_value StaleLeaseCleanup = ''stale_lease_cleanup''"
| "task_type_value CaRotationCheck = ''ca_rotation_check''"
| "task_type_value FetchReleases = ''fetch_releases''"
| "task_type_value DetectVersion = ''detect_version''"
| "task_type_value ServiceCertCheck = ''service_cert_check''"
| "task_type_value CrlRenewal = ''crl_renewal''"
| "task_type_value AuditLogCleanup = ''audit_log_cleanup''"
| "task_type_value DiscoverSoftware = ''discover_software''"

definition task_types :: "scheduled_task_type list" where
  "task_types = [AuthCleanup, StaleLeaseCleanup, CaRotationCheck, FetchReleases, DetectVersion,
     ServiceCertCheck, CrlRenewal, AuditLogCleanup, DiscoverSoftware]"

definition is_internal :: "scheduled_task_type \<Rightarrow> bool" where
  "is_internal t \<longleftrightarrow> t \<in> {CrlRenewal, CaRotationCheck, ServiceCertCheck}"

record task_row =
  tr_id :: uuid
  tr_tenant_id :: uuid
  tr_task_type :: string
  tr_interval_seconds :: "32 word"
  tr_jitter_seconds :: "32 word"
  tr_enabled :: bool
  tr_last_run_at :: "instant option"
  tr_next_run_at :: instant
  tr_locked_by :: "uuid option"
  tr_locked_at :: "instant option"
  tr_last_error :: "string option"
  tr_run_count :: int
  tr_updated_at :: instant

type_synonym task_table = "task_row list"

datatype scheduler_error =
    Database string
  | Execution string
  | TaskTimedOut scheduled_task_type

datatype task_stmt =
    ClaimTask uuid | ReleaseTask uuid | RecoverStale | RefreshTasks | ReleaseAll | SelectDue

type_synonym task_faults = "task_stmt \<Rightarrow> string option"

text \<open>\<open>UPDATE ... WHERE p\<close>: the number of matching rows and the new table, or the driver's error.\<close>

definition update_many ::
  "task_faults \<Rightarrow> task_stmt \<Rightarrow> (task_row \<Rightarrow> bool) \<Rightarrow> (task_row \<Rightarrow> task_row) \<Rightarrow> task_table
     \<Rightarrow> scheduler_error + nat \<times> task_table" where
  "update_many flt st p f tbl = (case flt st of
       Some e \<Rightarrow> Err (Database e)
     | None \<Rightarrow> Ok (length (filter p tbl), map (\<lambda>r. if p r then f r else r) tbl))"

section \<open>The claim protocol\<close>

definition STALE_CLAIM_SECONDS :: int where "STALE_CLAIM_SECONDS = 600"

definition try_claim_task ::
  "task_faults \<Rightarrow> uuid \<Rightarrow> uuid \<Rightarrow> instant \<Rightarrow> task_table \<Rightarrow> scheduler_error + bool \<times> task_table" where
  "try_claim_task flt task_id ctrl now tbl =
     and_then (update_many flt (ClaimTask task_id) (\<lambda>r. tr_id r = task_id \<and> tr_locked_by r = None)
         (\<lambda>r. r\<lparr>tr_locked_by := Some ctrl, tr_locked_at := Some now\<rparr>) tbl)
       (\<lambda>(n, tbl'). Ok (n = 1, tbl'))"

definition released_row :: "instant \<Rightarrow> instant \<Rightarrow> (string + unit) \<Rightarrow> task_row \<Rightarrow> task_row" where
  "released_row now next_run_at result r =
     (let r1 = r\<lparr>tr_locked_by := None, tr_locked_at := None, tr_next_run_at := next_run_at, tr_updated_at := now,
            tr_last_error := (case result of Inr _ \<Rightarrow> None | Inl e \<Rightarrow> Some e)\<rparr>
      in if is_ok result then r1\<lparr>tr_last_run_at := Some now, tr_run_count := tr_run_count r + 1\<rparr> else r1)"

definition release_task_claim ::
  "task_faults \<Rightarrow> uuid \<Rightarrow> uuid \<Rightarrow> instant \<Rightarrow> (string + unit) \<Rightarrow> instant \<Rightarrow> task_table
     \<Rightarrow> scheduler_error + nat \<times> task_table" where
  "release_task_claim flt task_id ctrl next_run_at result now tbl =
     update_many flt (ReleaseTask task_id) (\<lambda>r. tr_id r = task_id \<and> tr_locked_by r = Some ctrl)
       (released_row now next_run_at result) tbl"

definition stale :: "instant \<Rightarrow> task_row \<Rightarrow> bool" where
  "stale now r \<longleftrightarrow> (case tr_locked_at r of None \<Rightarrow> False | Some t \<Rightarrow> t < now - STALE_CLAIM_SECONDS)"

definition recover_stale_claims :: "task_faults \<Rightarrow> instant \<Rightarrow> task_table \<Rightarrow> scheduler_error + nat \<times> task_table" where
  "recover_stale_claims flt now tbl =
     update_many flt RecoverStale (stale now)
       (\<lambda>r. r\<lparr>tr_locked_by := None, tr_locked_at := None,
             tr_last_error := Some ''released: stale claim (controller may have crashed)''\<rparr>) tbl"

definition refresh_claims ::
  "task_faults \<Rightarrow> uuid \<Rightarrow> uuid list \<Rightarrow> instant \<Rightarrow> task_table \<Rightarrow> scheduler_error + nat \<times> task_table" where
  "refresh_claims flt ctrl live_ids now tbl =
     (if live_ids = [] then Ok (0, tbl)
      else update_many flt RefreshTasks (\<lambda>r. tr_locked_by r = Some ctrl \<and> tr_id r \<in> set live_ids)
             (\<lambda>r. r\<lparr>tr_locked_at := Some now\<rparr>) tbl)"

definition release_all_claims :: "task_faults \<Rightarrow> uuid \<Rightarrow> task_table \<Rightarrow> scheduler_error + nat \<times> task_table" where
  "release_all_claims flt ctrl tbl =
     update_many flt ReleaseAll (\<lambda>r. tr_locked_by r = Some ctrl)
       (\<lambda>r. r\<lparr>tr_locked_by := None, tr_locked_at := None\<rparr>) tbl"

text \<open>The rows come back with their type decoded; rows of an unknown type are not selected.\<close>

definition known_type :: "string \<Rightarrow> scheduled_task_type option" where
  "known_type s = find (\<lambda>t. task_type_value t = s) task_types"

definition due :: "instant \<Rightarrow> task_row \<Rightarrow> bool" where
  "due now r \<longleftrightarrow> tr_task_type r \<in> task_type_value ` set task_types \<and> tr_enabled r \<and>
     tr_locked_by r = None \<and> tr_next_run_at r \<le> now"

definition find_due_tasks :: "task_faults \<Rightarrow> instant \<Rightarrow> task_table \<Rightarrow> scheduler_error + task_row list" where
  "find_due_tasks flt now tbl = (case flt SelectDue of
       Some e \<Rightarrow> Err (Database e)
     | None \<Rightarrow> Ok (filter (due now) tbl))"

text \<open>\<open>rnd\<close> is the random number of seconds that \<open>random_range(0..=jitter)\<close> returns.\<close>

definition compute_next_run_at :: "instant \<Rightarrow> 32 word \<Rightarrow> 32 word \<Rightarrow> int \<Rightarrow> instant" where
  "compute_next_run_at now interval_seconds jitter_seconds rnd =
     now + (sint interval_seconds + (if sint jitter_seconds > 0 then rnd else 0))"

section \<open>Heartbeat and poll cycle\<close>

definition run_heartbeat_beat :: "task_faults \<Rightarrow> uuid \<Rightarrow> uuid list \<Rightarrow> instant \<Rightarrow> task_table \<Rightarrow> task_table" where
  "run_heartbeat_beat flt ctrl live now tbl = (case refresh_claims flt ctrl live now tbl of
       Inl _ \<Rightarrow> tbl
     | Inr (_, tbl') \<Rightarrow> tbl')"

text \<open>How the execution of a claimed task ends.\<close>

datatype task_outcome =
    Completed "scheduler_error + unit"
  | TimedOut
  | Aborted
  | Panicked

text \<open>What a poll cycle reads from its surroundings: cancellation and yield flags at the turns of the
  claim loop, the registered executors, clock readings and jitter per task, outcomes, the order in
  which the spawned tasks end, how the \<open>rootcause\<close> crate prints an error report, and whether a
  shutdown was requested by the end.\<close>

record poll_env =
  pe_controller :: uuid
  pe_shutdown :: "uuid \<Rightarrow> bool"
  pe_yield :: "uuid \<Rightarrow> bool"
  pe_executors :: "scheduled_task_type set"
  pe_now_recover :: instant
  pe_now_due :: instant
  pe_now_claim :: "uuid \<Rightarrow> instant"
  pe_outcome :: "uuid \<Rightarrow> task_outcome"
  pe_now_next :: "uuid \<Rightarrow> instant"
  pe_jitter :: "uuid \<Rightarrow> int"
  pe_now_release :: "uuid \<Rightarrow> instant"
  pe_finish_order :: "task_row list \<Rightarrow> task_row list"
  pe_render :: "scheduler_error \<Rightarrow> string"
  pe_shutdown_after :: bool
  pe_tick_executors :: nat

text \<open>The result a spawned task reports to \<open>release_claim\<close>; a panicking task reports nothing.\<close>

definition outcome_result :: "poll_env \<Rightarrow> scheduled_task_type \<Rightarrow> task_outcome \<Rightarrow> (string + unit) option" where
  "outcome_result env t out = (case out of
       Completed r \<Rightarrow> Some (map_err (pe_render env) r)
     | TimedOut \<Rightarrow> Some (Err (pe_render env (TaskTimedOut t)))
     | Aborted \<Rightarrow> Some (Err ''scheduler shutdown during execution'')
     | Panicked \<Rightarrow> None)"

definition finish_task :: "task_faults \<Rightarrow> poll_env \<Rightarrow> task_row \<Rightarrow> task_table \<Rightarrow> task_table" where
  "finish_task flt env task tbl =
     (case outcome_result env (the (known_type (tr_task_type task))) (pe_outcome env (tr_id task)) of
        None \<Rightarrow> tbl
      | Some result \<Rightarrow>
          (let next_run_at = compute_next_run_at (pe_now_next env (tr_id task)) (tr_interval_seconds task)
                 (tr_jitter_seconds task) (pe_jitter env (tr_id task))
           in case release_task_claim flt (tr_id task) (pe_controller env) next_run_at result
                     (pe_now_release env (tr_id task)) tbl of
                Inl _ \<Rightarrow> tbl
              | Inr (_, tbl') \<Rightarrow> tbl'))"

text \<open>The claim loop: the table after the claims and the tasks spawned, in order.\<close>

fun claim_loop :: "task_faults \<Rightarrow> poll_env \<Rightarrow> task_row list \<Rightarrow> task_table \<Rightarrow> task_row list \<times> task_table" where
  "claim_loop flt env [] tbl = ([], tbl)"
| "claim_loop flt env (task # tasks) tbl =
     (let ty = the (known_type (tr_task_type task)) in
      if pe_shutdown env (tr_id task) then ([], tbl)
      else if pe_yield env (tr_id task) \<and> \<not> is_internal ty then claim_loop flt env tasks tbl
      else if ty \<notin> pe_executors env then claim_loop flt env tasks tbl
      else case try_claim_task flt (tr_id task) (pe_controller env) (pe_now_claim env (tr_id task)) tbl of
             Inl _ \<Rightarrow> claim_loop flt env tasks tbl
           | Inr (claimed, tbl') \<Rightarrow>
               (if \<not> claimed then claim_loop flt env tasks tbl'
                else (let (spawned, tbl'') = claim_loop flt env tasks tbl' in (task # spawned, tbl''))))"

text \<open>A poll cycle: the tasks it executed, the number of tick executors it ran, and the table.\<close>

definition poll_cycle :: "task_faults \<Rightarrow> poll_env \<Rightarrow> task_table \<Rightarrow> task_row list \<times> nat \<times> task_table" where
  "poll_cycle flt env tbl =
     (let tbl1 = (case recover_stale_claims flt (pe_now_recover env) tbl of Inl _ \<Rightarrow> tbl | Inr (_, t) \<Rightarrow> t)
      in case find_due_tasks flt (pe_now_due env) tbl1 of
           Inl _ \<Rightarrow> ([], 0, tbl1)
         | Inr due_tasks \<Rightarrow>
             (let (spawned, tbl2) = claim_loop flt env due_tasks tbl1;
                  tbl3 = fold (finish_task flt env) (pe_finish_order env spawned) tbl2
              in (spawned, if pe_shutdown_after env then 0 else pe_tick_executors env, tbl3)))"

text \<open>The loop of \<open>run\<close>: what wakes it, cancellation first, and what it does until it stops. A tick finds
  the heartbeat task alive or not.\<close>

datatype scheduler_event =
    AbortCancelled
  | DrainCancelled
  | Tick bool bool poll_env

fun run_scheduler :: "task_faults \<Rightarrow> uuid \<Rightarrow> scheduler_event list \<Rightarrow> task_table \<Rightarrow> bool \<times> task_table" where
  "run_scheduler flt ctrl [] tbl = (True, tbl)"
| "run_scheduler flt ctrl (e # es) tbl =
     (let released = (case release_all_claims flt ctrl tbl of Inl _ \<Rightarrow> tbl | Inr (_, t) \<Rightarrow> t) in
      case e of
        AbortCancelled \<Rightarrow> (False, released)
      | DrainCancelled \<Rightarrow> (False, released)
      | Tick heartbeat_finished cancelled env \<Rightarrow>
          if \<not> cancelled \<and> heartbeat_finished then (False, released)
          else run_scheduler flt ctrl es (snd (snd (poll_cycle flt (env\<lparr>pe_controller := ctrl\<rparr>) tbl))))"

lemma known_type_value [simp]: "known_type (task_type_value ty) = Some ty"
  by (cases ty) (simp_all add: known_type_def task_types_def)

section \<open>Rows and identifiers\<close>

lemma update_many_Ok_iff [result_simps]:
  "update_many flt st p f tbl = Ok (n, tbl') \<longleftrightarrow> flt st = None \<and> n = length (filter p tbl) \<and>
     tbl' = map (\<lambda>r. if p r then f r else r) tbl"
  by (auto simp: update_many_def split: option.splits)

definition unique_ids :: "task_table \<Rightarrow> bool" where
  "unique_ids tbl \<longleftrightarrow> distinct (map tr_id tbl)"

lemma unique_idsD: "unique_ids tbl \<Longrightarrow> r \<in> set tbl \<Longrightarrow> r' \<in> set tbl \<Longrightarrow> tr_id r = tr_id r' \<Longrightarrow> r = r'"
  unfolding unique_ids_def by (metis distinct_map inj_onD)

lemma unique_ids_map: "(\<And>r. tr_id (f r) = tr_id r) \<Longrightarrow> unique_ids (map f tbl) = unique_ids tbl"
  by (simp add: unique_ids_def comp_def)

lemma released_row_simps [simp]:
  "tr_id (released_row now nx res r) = tr_id r"
  "tr_locked_by (released_row now nx res r) = None"
  "tr_locked_at (released_row now nx res r) = None"
  "tr_next_run_at (released_row now nx res r) = nx"
  "tr_task_type (released_row now nx res r) = tr_task_type r"
  "tr_enabled (released_row now nx res r) = tr_enabled r"
  by (simp_all add: released_row_def Let_def)

text \<open>With unique identifiers a filter on one identifier finds the row or nothing.\<close>

lemma distinct_singleton: "distinct xs \<Longrightarrow> set xs = {x} \<Longrightarrow> xs = [x]"
  by (cases xs; cases "tl xs") auto

lemma filter_id:
  assumes "unique_ids tbl" "r \<in> set tbl" "Q r"
  shows "filter (\<lambda>x. tr_id x = tr_id r \<and> Q x) tbl = [r]"
proof (rule distinct_singleton)
  show "distinct (filter (\<lambda>x. tr_id x = tr_id r \<and> Q x) tbl)"
    using assms(1) by (simp add: unique_ids_def distinct_map)
  show "set (filter (\<lambda>x. tr_id x = tr_id r \<and> Q x) tbl) = {r}"
    using assms(2,3) unique_idsD[OF assms(1)] by fastforce
qed

lemma try_claim_Ok_iff:
  assumes "unique_ids tbl"
  shows "try_claim_task flt t c now tbl = Ok (True, tbl') \<longleftrightarrow>
    flt (ClaimTask t) = None \<and> (\<exists>r \<in> set tbl. tr_id r = t \<and> tr_locked_by r = None) \<and>
    tbl' = map (\<lambda>r. if tr_id r = t then r\<lparr>tr_locked_by := Some c, tr_locked_at := Some now\<rparr> else r) tbl"
    (is "?l \<longleftrightarrow> ?f \<and> ?e \<and> tbl' = map ?g tbl")
proof -
  let ?p = "\<lambda>r. tr_id r = t \<and> tr_locked_by r = None"
  have l: "?l \<longleftrightarrow> ?f \<and> length (filter ?p tbl) = 1 \<and>
      tbl' = map (\<lambda>r. if ?p r then r\<lparr>tr_locked_by := Some c, tr_locked_at := Some now\<rparr> else r) tbl"
    unfolding try_claim_task_def and_then_Ok_iff by (auto simp: update_many_Ok_iff)
  have n: "length (filter ?p tbl) = 1 \<longleftrightarrow> ?e"
  proof
    assume "length (filter ?p tbl) = 1"
    then have "filter ?p tbl \<noteq> []" by auto
    then show ?e by (auto simp: filter_empty_conv)
  next
    assume ?e
    then obtain r where "r \<in> set tbl" "tr_id r = t" "tr_locked_by r = None" by blast
    then show "length (filter ?p tbl) = 1" using filter_id[OF assms, of r "\<lambda>x. tr_locked_by x = None"] by simp
  qed
  have m: "map (\<lambda>r. if ?p r then r\<lparr>tr_locked_by := Some c, tr_locked_at := Some now\<rparr> else r) tbl = map ?g tbl" if ?e
  proof (rule map_cong[OF refl])
    fix r assume r: "r \<in> set tbl"
    obtain q where "q \<in> set tbl" "tr_id q = t" "tr_locked_by q = None" using \<open>?e\<close> by blast
    then have "tr_id r = t \<Longrightarrow> tr_locked_by r = None" using unique_idsD[OF assms r, of q] by simp
    then show "(if ?p r then r\<lparr>tr_locked_by := Some c, tr_locked_at := Some now\<rparr> else r) = ?g r" by auto
  qed
  show ?thesis unfolding l n by (metis (no_types, lifting) m)
qed

section \<open>Several controllers on one table\<close>

text \<open>The state of a cluster: the time, the shared table, and for every task a controller is executing
  the moment of the last successful claim or heartbeat for it. Controller \<open>c\<close> reads its clock as
  \<open>now + off c\<close>.\<close>

record cluster =
  cl_now :: instant
  cl_table :: task_table
  cl_running :: "uuid \<times> uuid \<rightharpoonup> instant"

definition skew_within :: "(uuid \<Rightarrow> int) \<Rightarrow> int \<Rightarrow> bool" where
  "skew_within off skew \<longleftrightarrow> (\<forall>c. \<bar>off c\<bar> \<le> skew)"

text \<open>Time passes only as far as the heartbeats keep up: between two successful refreshes of a running
  task lie at most the staleness window less the clock difference of two controllers. Everything else
  may happen at any moment and in any order: claims, beats over a possibly outdated snapshot of the
  live set, stale-claim recovery by any controller, ends of executions with or without a successful
  release, the release of all claims between poll cycles, and crashes.\<close>

inductive cluster_step :: "(uuid \<Rightarrow> int) \<Rightarrow> int \<Rightarrow> cluster \<Rightarrow> cluster \<Rightarrow> bool" for off skew where
  time_passes: "cl_now s \<le> now' \<Longrightarrow>
     \<forall>c t l. cl_running s (c, t) = Some l \<longrightarrow> now' - l \<le> STALE_CLAIM_SECONDS - 2 * skew \<Longrightarrow>
     cluster_step off skew s (s\<lparr>cl_now := now'\<rparr>)"
| claims: "try_claim_task flt t c (cl_now s + off c) (cl_table s) = Ok (True, tbl) \<Longrightarrow>
     cluster_step off skew s (s\<lparr>cl_table := tbl, cl_running := (cl_running s)((c, t) \<mapsto> cl_now s)\<rparr>)"
| beats: "refresh_claims flt c live (cl_now s + off c) (cl_table s) = Ok (n, tbl) \<Longrightarrow>
     cluster_step off skew s (s\<lparr>cl_table := tbl,
       cl_running := (\<lambda>ct. if fst ct = c \<and> snd ct \<in> set live \<and> cl_running s ct \<noteq> None
         then Some (cl_now s) else cl_running s ct)\<rparr>)"
| recovers: "recover_stale_claims flt (cl_now s + off c) (cl_table s) = Ok (n, tbl) \<Longrightarrow>
     cluster_step off skew s (s\<lparr>cl_table := tbl\<rparr>)"
| finishes: "cl_running s (c, t) \<noteq> None \<Longrightarrow>
     release_task_claim flt t c nx result (cl_now s + off c) (cl_table s) = Ok (n, tbl) \<Longrightarrow>
     cluster_step off skew s (s\<lparr>cl_table := tbl, cl_running := (cl_running s)((c, t) := None)\<rparr>)"
| ends_unreleased: "cluster_step off skew s (s\<lparr>cl_running := (cl_running s)((c, t) := None)\<rparr>)"
| releases_all: "\<forall>t. cl_running s (c, t) = None \<Longrightarrow> release_all_claims flt c (cl_table s) = Ok (n, tbl) \<Longrightarrow>
     cluster_step off skew s (s\<lparr>cl_table := tbl\<rparr>)"
| crashes: "cluster_step off skew s (s\<lparr>cl_running := (\<lambda>ct. if fst ct = c then None else cl_running s ct)\<rparr>)"

text \<open>The claim of a running task: held by the controller that runs it, as old as its last beat.\<close>

definition holds_claim :: "(uuid \<Rightarrow> int) \<Rightarrow> task_table \<Rightarrow> uuid \<Rightarrow> uuid \<Rightarrow> instant \<Rightarrow> bool" where
  "holds_claim off tbl c t l \<longleftrightarrow> (\<exists>r \<in> set tbl. tr_id r = t \<and> tr_locked_by r = Some c \<and> tr_locked_at r = Some (l + off c))"

definition cluster_inv :: "(uuid \<Rightarrow> int) \<Rightarrow> int \<Rightarrow> cluster \<Rightarrow> bool" where
  "cluster_inv off skew s \<longleftrightarrow> skew_within off skew \<and> 2 * skew \<le> STALE_CLAIM_SECONDS \<and> unique_ids (cl_table s) \<and>
     (\<forall>c t l. cl_running s (c, t) = Some l \<longrightarrow>
        l \<le> cl_now s \<and> cl_now s - l \<le> STALE_CLAIM_SECONDS - 2 * skew \<and> holds_claim off (cl_table s) c t l)"

definition cluster_init :: "(uuid \<Rightarrow> int) \<Rightarrow> int \<Rightarrow> cluster \<Rightarrow> bool" where
  "cluster_init off skew s \<longleftrightarrow> skew_within off skew \<and> 2 * skew \<le> STALE_CLAIM_SECONDS \<and> unique_ids (cl_table s) \<and>
     cl_running s = Map.empty"

text \<open>A claim survives every row update that keeps its row.\<close>

lemma holds_claim_update:
  assumes "holds_claim off tbl c t l"
    and "\<And>r. r \<in> set tbl \<Longrightarrow> tr_id r = t \<Longrightarrow> tr_locked_by r = Some c \<Longrightarrow> tr_locked_at r = Some (l + off c) \<Longrightarrow>
      tr_id (f r) = t \<and> tr_locked_by (f r) = Some c \<and> tr_locked_at (f r) = Some (l' + off c)"
  shows "holds_claim off (map f tbl) c t l'"
  using assms unfolding holds_claim_def by fastforce

lemma holds_claim_unique:
  "unique_ids tbl \<Longrightarrow> holds_claim off tbl c t l \<Longrightarrow> holds_claim off tbl c' t l' \<Longrightarrow> c = c'"
  unfolding holds_claim_def using unique_idsD by fastforce

lemma cluster_inv_running:
  "cluster_inv off skew s \<Longrightarrow> cl_running s (c, t) = Some l \<Longrightarrow>
     l \<le> cl_now s \<and> cl_now s - l \<le> STALE_CLAIM_SECONDS - 2 * skew \<and> holds_claim off (cl_table s) c t l"
  by (simp add: cluster_inv_def)

lemma cluster_inv_update:
  assumes "cluster_inv off skew s" "unique_ids (cl_table s')"
    and "\<And>c t l. cl_running s' (c, t) = Some l \<Longrightarrow>
      l \<le> cl_now s' \<and> cl_now s' - l \<le> STALE_CLAIM_SECONDS - 2 * skew \<and> holds_claim off (cl_table s') c t l"
  shows "cluster_inv off skew s'"
  using assms by (simp add: cluster_inv_def)

lemma live_claim_not_stale:
  assumes "skew_within off skew" "now - l \<le> STALE_CLAIM_SECONDS - 2 * skew" "tr_locked_at r = Some (l + off c)"
  shows "\<not> stale (now + off d) r"
proof -
  have "\<bar>off c\<bar> \<le> skew" "\<bar>off d\<bar> \<le> skew" using assms(1) by (simp_all add: skew_within_def)
  then show ?thesis using assms(2,3) by (simp add: stale_def)
qed

lemma claims_inv:
  assumes inv: "cluster_inv off skew s"
    and c: "try_claim_task flt t c (cl_now s + off c) (cl_table s) = Ok (True, tbl)"
  shows "cluster_inv off skew (s\<lparr>cl_table := tbl, cl_running := (cl_running s)((c, t) \<mapsto> cl_now s)\<rparr>)"
proof (rule cluster_inv_update[OF inv])
  have u: "unique_ids (cl_table s)" and b: "2 * skew \<le> STALE_CLAIM_SECONDS" using inv by (simp_all add: cluster_inv_def)
  obtain r where r: "r \<in> set (cl_table s)" "tr_id r = t" "tr_locked_by r = None"
    and tbl: "tbl = map (\<lambda>r. if tr_id r = t then r\<lparr>tr_locked_by := Some c, tr_locked_at := Some (cl_now s + off c)\<rparr> else r) (cl_table s)"
    using c unfolding try_claim_Ok_iff[OF u] by blast
  have other: "t' \<noteq> t" if "holds_claim off (cl_table s) c' t' l'" for c' t' l'
    using that r unique_idsD[OF u] by (fastforce simp: holds_claim_def)
  let ?s = "s\<lparr>cl_table := tbl, cl_running := (cl_running s)((c, t) \<mapsto> cl_now s)\<rparr>"
  show "unique_ids (cl_table ?s)" using u by (simp add: tbl unique_ids_map)
  fix c' t' l assume run: "cl_running ?s (c', t') = Some l"
  show "l \<le> cl_now ?s \<and> cl_now ?s - l \<le> STALE_CLAIM_SECONDS - 2 * skew \<and> holds_claim off (cl_table ?s) c' t' l"
  proof (cases "(c', t') = (c, t)")
    case True
    let ?r = "r\<lparr>tr_locked_by := Some c, tr_locked_at := Some (cl_now s + off c)\<rparr>"
    have "?r \<in> set tbl" unfolding tbl set_map by (rule image_eqI[OF _ r(1)]) (simp add: r(2))
    then have "holds_claim off tbl c t (cl_now s)" unfolding holds_claim_def by (rule bexI[rotated]) (simp add: r(2))
    moreover have "l = cl_now s" using True run by simp
    ultimately show ?thesis using True b by simp
  next
    case False
    then have "cl_running s (c', t') = Some l" using run by auto
    from cluster_inv_running[OF inv this] have *: "l \<le> cl_now s" "cl_now s - l \<le> STALE_CLAIM_SECONDS - 2 * skew"
      "holds_claim off (cl_table s) c' t' l" by simp_all
    have "holds_claim off tbl c' t' l"
      unfolding tbl by (rule holds_claim_update[OF *(3)]) (use other[OF *(3)] in auto)
    then show ?thesis using * by simp
  qed
qed

text \<open>The steps that update rows by a condition, in one lemma: rows of running tasks keep their claim.\<close>

lemma table_update_inv:
  assumes inv: "cluster_inv off skew s"
    and n: "cl_now s' = cl_now s" and tb: "cl_table s' = map f (cl_table s)" and id: "\<And>r. tr_id (f r) = tr_id r"
    and run: "\<And>c t l. cl_running s' (c, t) = Some l \<Longrightarrow> \<exists>l0. cl_running s (c, t) = Some l0 \<and> (l = l0 \<or> l = cl_now s)"
    and keep: "\<And>c t l l0 r. cl_running s' (c, t) = Some l \<Longrightarrow> cl_running s (c, t) = Some l0 \<Longrightarrow>
      r \<in> set (cl_table s) \<Longrightarrow> tr_id r = t \<Longrightarrow> tr_locked_by r = Some c \<Longrightarrow> tr_locked_at r = Some (l0 + off c) \<Longrightarrow>
      tr_locked_by (f r) = Some c \<and> tr_locked_at (f r) = Some (l + off c)"
  shows "cluster_inv off skew s'"
proof (rule cluster_inv_update[OF inv])
  show "unique_ids (cl_table s')" using inv by (simp add: tb unique_ids_map[OF id] cluster_inv_def)
  fix c t l assume r: "cl_running s' (c, t) = Some l"
  then obtain l0 where l0: "cl_running s (c, t) = Some l0" "l = l0 \<or> l = cl_now s" using run by blast
  from cluster_inv_running[OF inv l0(1)] have *: "l0 \<le> cl_now s" "cl_now s - l0 \<le> STALE_CLAIM_SECONDS - 2 * skew"
    "holds_claim off (cl_table s) c t l0" by simp_all
  have "holds_claim off (cl_table s') c t l"
    unfolding tb by (rule holds_claim_update[OF *(3)]) (use keep[OF r l0(1)] id in auto)
  moreover have "2 * skew \<le> STALE_CLAIM_SECONDS" using inv by (simp add: cluster_inv_def)
  ultimately show "l \<le> cl_now s' \<and> cl_now s' - l \<le> STALE_CLAIM_SECONDS - 2 * skew \<and> holds_claim off (cl_table s') c t l"
    using * l0(2) n by auto
qed

lemma cluster_step_inv:
  assumes "cluster_step off skew s s'" "cluster_inv off skew s" shows "cluster_inv off skew s'"
  using assms(1)
proof cases
  case (time_passes now')
  show ?thesis
  proof (rule cluster_inv_update[OF assms(2)])
    show "unique_ids (cl_table s')" using assms(2) time_passes(1) by (simp add: cluster_inv_def)
    fix c t l assume "cl_running s' (c, t) = Some l"
    then have r: "cl_running s (c, t) = Some l" using time_passes(1) by simp
    show "l \<le> cl_now s' \<and> cl_now s' - l \<le> STALE_CLAIM_SECONDS - 2 * skew \<and> holds_claim off (cl_table s') c t l"
      using cluster_inv_running[OF assms(2) r] time_passes r by simp
  qed
next
  case (claims flt t c tbl)
  then show ?thesis using claims_inv[OF assms(2)] by simp
next
  case (beats flt c live n tbl)
  let ?f = "\<lambda>r. if tr_locked_by r = Some c \<and> tr_id r \<in> set live then r\<lparr>tr_locked_at := Some (cl_now s + off c)\<rparr> else r"
  have tbl: "tbl = map ?f (cl_table s)"
    using beats(2) by (auto simp: refresh_claims_def update_many_Ok_iff split: if_splits)
  show ?thesis
    by (rule table_update_inv[OF assms(2), of _ ?f]) (auto simp: beats(1) tbl split: if_splits)
next
  case (recovers flt c n tbl)
  let ?f = "\<lambda>r. if stale (cl_now s + off c) r then r\<lparr>tr_locked_by := None, tr_locked_at := None,
      tr_last_error := Some ''released: stale claim (controller may have crashed)''\<rparr> else r"
  have tbl: "tbl = map ?f (cl_table s)" using recovers(2) by (simp add: recover_stale_claims_def update_many_Ok_iff)
  have "\<not> stale (cl_now s + off c) r" if "cl_running s (c', t) = Some l" "tr_locked_at r = Some (l + off c')" for c' t l r
    using live_claim_not_stale[of off skew "cl_now s" l r c' c] cluster_inv_running[OF assms(2) that(1)] that(2) assms(2)
    by (simp add: cluster_inv_def)
  then show ?thesis
    by (intro table_update_inv[OF assms(2), of _ ?f]) (auto simp: recovers(1) tbl)
next
  case (finishes c t flt nx result n tbl)
  let ?f = "\<lambda>r. if tr_id r = t \<and> tr_locked_by r = Some c then released_row (cl_now s + off c) nx result r else r"
  have tbl: "tbl = map ?f (cl_table s)" using finishes(3) by (simp add: release_task_claim_def update_many_Ok_iff)
  show ?thesis
    by (rule table_update_inv[OF assms(2), of _ ?f]) (auto simp: finishes(1) tbl split: if_splits)
next
  case (ends_unreleased c t)
  show ?thesis
    by (rule table_update_inv[OF assms(2), of _ id]) (auto simp: ends_unreleased split: if_splits)
next
  case (releases_all c flt n tbl)
  let ?f = "\<lambda>r. if tr_locked_by r = Some c then r\<lparr>tr_locked_by := None, tr_locked_at := None\<rparr> else r"
  have tbl: "tbl = map ?f (cl_table s)" using releases_all(3) by (simp add: release_all_claims_def update_many_Ok_iff)
  show ?thesis
    by (rule table_update_inv[OF assms(2), of _ ?f]) (use releases_all(2) in \<open>auto simp: releases_all(1) tbl\<close>)
next
  case (crashes c)
  show ?thesis
    by (rule table_update_inv[OF assms(2), of _ id]) (auto simp: crashes split: if_splits)
qed

interpretation cluster_sm: state_machine "cluster_init off skew" "cluster_step off skew" "cluster_inv off skew" for off skew
proof unfold_locales
  show "cluster_inv off skew s" if "cluster_init off skew s" for s
    using that by (simp add: cluster_init_def cluster_inv_def)
  show "cluster_inv off skew t" if "cluster_inv off skew s" "cluster_step off skew s t" for s t
    using cluster_step_inv[OF that(2,1)] .
qed

section \<open>One poll cycle, row by row\<close>

definition recovered_row :: "instant \<Rightarrow> task_row \<Rightarrow> task_row" where
  "recovered_row now r = (if stale now r then r\<lparr>tr_locked_by := None, tr_locked_at := None,
     tr_last_error := Some ''released: stale claim (controller may have crashed)''\<rparr> else r)"

definition eligible :: "poll_env \<Rightarrow> task_row \<Rightarrow> bool" where
  "eligible env r \<longleftrightarrow> (let ty = the (known_type (tr_task_type r)) in
     \<not> (pe_yield env (tr_id r) \<and> \<not> is_internal ty) \<and> ty \<in> pe_executors env)"

definition claimed_row :: "poll_env \<Rightarrow> task_row \<Rightarrow> task_row" where
  "claimed_row env r = r\<lparr>tr_locked_by := Some (pe_controller env), tr_locked_at := Some (pe_now_claim env (tr_id r))\<rparr>"

definition finished_row :: "poll_env \<Rightarrow> task_row \<Rightarrow> task_row" where
  "finished_row env r =
     (case outcome_result env (the (known_type (tr_task_type r))) (pe_outcome env (tr_id r)) of
        None \<Rightarrow> r
      | Some result \<Rightarrow> released_row (pe_now_release env (tr_id r))
          (compute_next_run_at (pe_now_next env (tr_id r)) (tr_interval_seconds r) (tr_jitter_seconds r)
             (pe_jitter env (tr_id r))) result r)"

text \<open>What the surroundings of an undisturbed cycle are: every statement succeeds, no shutdown is
  requested during the claim loop, and every spawned task ends once.\<close>

definition undisturbed :: "task_faults \<Rightarrow> poll_env \<Rightarrow> bool" where
  "undisturbed flt env \<longleftrightarrow> (\<forall>st. flt st = None) \<and> (\<forall>t. \<not> pe_shutdown env t) \<and>
     (\<forall>ts. set (pe_finish_order env ts) = set ts \<and> (distinct ts \<longrightarrow> distinct (pe_finish_order env ts)))"

lemma claim_row_simps [simp]:
  "tr_id (claimed_row env r) = tr_id r" "tr_locked_by (claimed_row env r) = Some (pe_controller env)"
  "tr_task_type (claimed_row env r) = tr_task_type r" "tr_interval_seconds (claimed_row env r) = tr_interval_seconds r"
  "tr_jitter_seconds (claimed_row env r) = tr_jitter_seconds r"
  "tr_id (finished_row env r) = tr_id r" "tr_id (recovered_row now r) = tr_id r"
  by (simp_all add: claimed_row_def finished_row_def recovered_row_def split: option.split)

definition on_ids :: "uuid set \<Rightarrow> (task_row \<Rightarrow> task_row) \<Rightarrow> task_row \<Rightarrow> task_row" where
  "on_ids I f r = (if tr_id r \<in> I then f r else r)"

lemma claim_loop_exact:
  assumes "undisturbed flt env" "unique_ids tbl" "distinct (map tr_id ds)"
    and "\<forall>d \<in> set ds. d \<in> set tbl \<and> tr_locked_by d = None"
  shows "claim_loop flt env ds tbl =
    (filter (eligible env) ds, map (on_ids (tr_id ` set (filter (eligible env) ds)) (claimed_row env)) tbl)"
  using assms(2-)
proof (induction ds arbitrary: tbl)
  case Nil
  then show ?case by (simp add: on_ids_def)
next
  case (Cons d ds)
  have nf: "flt st = None" and ns: "\<not> pe_shutdown env t" for st t using assms(1) by (simp_all add: undisturbed_def)
  show ?case
  proof (cases "eligible env d")
    case False
    have "claim_loop flt env (d # ds) tbl = claim_loop flt env ds tbl"
      using False ns by (auto simp: eligible_def Let_def)
    then show ?thesis using Cons.IH[of tbl] Cons.prems False by simp
  next
    case True
    let ?tbl = "map (on_ids {tr_id d} (claimed_row env)) tbl"
    have "try_claim_task flt (tr_id d) (pe_controller env) (pe_now_claim env (tr_id d)) tbl = Ok (True, ?tbl)"
      unfolding try_claim_Ok_iff[OF Cons.prems(1)]
      using nf Cons.prems(3) by (auto simp: on_ids_def claimed_row_def)
    then have l: "claim_loop flt env (d # ds) tbl =
        (let (sp, t) = claim_loop flt env ds ?tbl in (d # sp, t))"
      using True ns by (auto simp: eligible_def Let_def)
    have u: "unique_ids ?tbl" using Cons.prems(1) by (simp add: unique_ids_map on_ids_def)
    have m: "\<forall>x \<in> set ds. x \<in> set ?tbl \<and> tr_locked_by x = None"
    proof
      fix x assume x: "x \<in> set ds"
      then have "tr_id x \<noteq> tr_id d" using Cons.prems(2) by (auto simp: image_iff)
      then have "x = on_ids {tr_id d} (claimed_row env) x" by (simp add: on_ids_def)
      then show "x \<in> set ?tbl \<and> tr_locked_by x = None" using Cons.prems(3) x by (metis imageI list.set_intros(2) set_map)
    qed
    have "on_ids (tr_id ` set (filter (eligible env) ds)) (claimed_row env) (on_ids {tr_id d} (claimed_row env) r) =
        on_ids (tr_id ` set (filter (eligible env) (d # ds))) (claimed_row env) r" for r
      using True Cons.prems(2) by (auto simp: on_ids_def)
    then show ?thesis using l Cons.IH[OF u _ m] Cons.prems(2) True by (simp add: comp_def)
  qed
qed

lemma finish_task_rows:
  assumes "\<And>st. flt st = None"
  shows "finish_task flt env t tbl = map (\<lambda>r.
    case outcome_result env (the (known_type (tr_task_type t))) (pe_outcome env (tr_id t)) of
      None \<Rightarrow> r
    | Some result \<Rightarrow> if tr_id r = tr_id t \<and> tr_locked_by r = Some (pe_controller env)
        then released_row (pe_now_release env (tr_id t))
          (compute_next_run_at (pe_now_next env (tr_id t)) (tr_interval_seconds t) (tr_jitter_seconds t)
             (pe_jitter env (tr_id t))) result r
        else r) tbl"
  using assms
  by (cases "outcome_result env (the (known_type (tr_task_type t))) (pe_outcome env (tr_id t))")
    (simp_all add: finish_task_def release_task_claim_def update_many_def)

lemma finish_loop_exact:
  assumes "undisturbed flt env" "unique_ids tbl" "distinct (map tr_id ts)"
    and "\<forall>t \<in> set ts. claimed_row env t \<in> set tbl"
  shows "fold (finish_task flt env) ts tbl = map (on_ids (tr_id ` set ts) (finished_row env)) tbl"
  using assms(2-)
proof (induction ts arbitrary: tbl)
  case Nil
  then show ?case by (simp add: on_ids_def)
next
  case (Cons t ts)
  have nf: "flt st = None" for st using assms(1) by (simp add: undisturbed_def)
  let ?tbl = "map (on_ids {tr_id t} (finished_row env)) tbl"
  have same: "r = claimed_row env t" if "r \<in> set tbl" "tr_id r = tr_id t" for r
    using unique_idsD[OF Cons.prems(1) that(1), of "claimed_row env t"] Cons.prems(3) that(2) by simp
  have "finish_task flt env t tbl = ?tbl"
    unfolding finish_task_rows[OF nf]
  proof (rule map_cong[OF refl])
    fix r assume r: "r \<in> set tbl"
    show "(case outcome_result env (the (known_type (tr_task_type t))) (pe_outcome env (tr_id t)) of
      None \<Rightarrow> r
    | Some result \<Rightarrow> if tr_id r = tr_id t \<and> tr_locked_by r = Some (pe_controller env)
        then released_row (pe_now_release env (tr_id t))
          (compute_next_run_at (pe_now_next env (tr_id t)) (tr_interval_seconds t) (tr_jitter_seconds t)
             (pe_jitter env (tr_id t))) result r
        else r) = on_ids {tr_id t} (finished_row env) r"
    proof (cases "tr_id r = tr_id t")
      case True
      then have "r = claimed_row env t" by (rule same[OF r])
      then show ?thesis by (simp add: on_ids_def finished_row_def split: option.split)
    qed (simp add: on_ids_def split: option.split)
  qed
  moreover have "unique_ids ?tbl" using Cons.prems(1) by (simp add: unique_ids_map on_ids_def)
  moreover have "\<forall>x \<in> set ts. claimed_row env x \<in> set ?tbl"
  proof
    fix x assume x: "x \<in> set ts"
    then have "tr_id x \<noteq> tr_id t" using Cons.prems(2) by (auto simp: image_iff)
    then have "claimed_row env x = on_ids {tr_id t} (finished_row env) (claimed_row env x)" by (simp add: on_ids_def)
    then show "claimed_row env x \<in> set ?tbl" using Cons.prems(3) x by (metis imageI list.set_intros(2) set_map)
  qed
  moreover have "on_ids (tr_id ` set ts) (finished_row env) (on_ids {tr_id t} (finished_row env) r) =
      on_ids (tr_id ` set (t # ts)) (finished_row env) r" for r
    using Cons.prems(2) by (auto simp: on_ids_def)
  ultimately show ?case using Cons.IH[of ?tbl] Cons.prems(2) by (simp add: comp_def)
qed

text \<open>The whole cycle: it executes exactly the due and eligible tasks of the recovered table, and
  changes exactly their rows beyond the recovery.\<close>

definition runs_now :: "poll_env \<Rightarrow> task_row \<Rightarrow> bool" where
  "runs_now env r \<longleftrightarrow> due (pe_now_due env) (recovered_row (pe_now_recover env) r) \<and>
     eligible env (recovered_row (pe_now_recover env) r)"

definition cycled_row :: "poll_env \<Rightarrow> task_row \<Rightarrow> task_row" where
  "cycled_row env r = (let r1 = recovered_row (pe_now_recover env) r in
     if runs_now env r then finished_row env (claimed_row env r1) else r1)"

lemma execute_spawned:
  assumes un: "undisturbed flt env" and u: "unique_ids tbl" and d: "distinct (map tr_id sp)" and sub: "set sp \<subseteq> set tbl"
  shows "fold (finish_task flt env) (pe_finish_order env sp) (map (on_ids (tr_id ` set sp) (claimed_row env)) tbl) =
    map (on_ids (tr_id ` set sp) (\<lambda>r. finished_row env (claimed_row env r))) tbl"
proof -
  let ?t2 = "map (on_ids (tr_id ` set sp) (claimed_row env)) tbl"
  have ord: "set (pe_finish_order env sp) = set sp" "distinct (pe_finish_order env sp)"
    using un d by (simp_all add: undisturbed_def distinct_map)
  have d3: "distinct (map tr_id (pe_finish_order env sp))" using ord d by (simp add: distinct_map)
  have u2: "unique_ids ?t2" using u by (simp add: unique_ids_map on_ids_def)
  have m: "claimed_row env t \<in> set ?t2" if "t \<in> set sp" for t
  proof -
    have "claimed_row env t = on_ids (tr_id ` set sp) (claimed_row env) t" using that by (simp add: on_ids_def)
    then show ?thesis using that sub by (metis imageI set_map subsetD)
  qed
  have "fold (finish_task flt env) (pe_finish_order env sp) ?t2 = map (on_ids (tr_id ` set sp) (finished_row env)) ?t2"
    using finish_loop_exact[OF un u2 d3] ord(1) m by simp
  then show ?thesis by (simp add: comp_def on_ids_def)
qed

lemma runs_now_spawned:
  assumes u: "unique_ids tbl" and r: "r \<in> set tbl"
  shows "tr_id r \<in> tr_id ` set (map (recovered_row (pe_now_recover env)) (filter (runs_now env) tbl)) \<longleftrightarrow> runs_now env r"
proof
  assume "tr_id r \<in> tr_id ` set (map (recovered_row (pe_now_recover env)) (filter (runs_now env) tbl))"
  then obtain q where "q \<in> set tbl" "tr_id r = tr_id q" "runs_now env q" by auto
  then show "runs_now env r" using unique_idsD[OF u r, of q] by simp
next
  assume "runs_now env r"
  then show "tr_id r \<in> tr_id ` set (map (recovered_row (pe_now_recover env)) (filter (runs_now env) tbl))"
    using r by (force simp: image_iff)
qed

lemma poll_cycle_exact:
  assumes un: "undisturbed flt env" and u: "unique_ids tbl"
  shows "poll_cycle flt env tbl =
    (map (recovered_row (pe_now_recover env)) (filter (runs_now env) tbl),
     if pe_shutdown_after env then 0 else pe_tick_executors env, map (cycled_row env) tbl)"
proof -
  let ?rec = "recovered_row (pe_now_recover env)"
  let ?t1 = "map ?rec tbl"
  let ?ds = "filter (due (pe_now_due env)) ?t1"
  define sp where "sp = map ?rec (filter (runs_now env) tbl)"
  have sp: "filter (eligible env) ?ds = sp"
    unfolding sp_def filter_map comp_def filter_filter runs_now_def[abs_def] by (simp add: conj_commute)
  have nf: "flt st = None" for st using un by (simp add: undisturbed_def)
  have u1: "unique_ids ?t1" using u by (simp add: unique_ids_map)
  then have d1: "distinct (map tr_id ?ds)" unfolding unique_ids_def by (simp only: distinct_map_filter)
  then have d2: "distinct (map tr_id sp)" unfolding sp[symmetric] by (simp only: distinct_map_filter)
  let ?t2 = "map (on_ids (tr_id ` set sp) (claimed_row env)) ?t1"
  have rec: "recover_stale_claims flt (pe_now_recover env) tbl = Ok (length (filter (stale (pe_now_recover env)) tbl), ?t1)"
    by (simp add: recover_stale_claims_def update_many_def nf recovered_row_def)
  have cl: "claim_loop flt env ?ds ?t1 = (sp, ?t2)"
    using claim_loop_exact[OF un u1 d1] unfolding sp by (simp add: due_def)
  have sub: "set sp \<subseteq> set ?t1" unfolding sp[symmetric] by auto
  have rows: "map (on_ids (tr_id ` set sp) (\<lambda>r. finished_row env (claimed_row env r))) ?t1 = map (cycled_row env) tbl"
    using runs_now_spawned[OF u, of _ env] by (simp add: sp_def on_ids_def cycled_row_def Let_def)
  have "poll_cycle flt env tbl = (sp, if pe_shutdown_after env then 0 else pe_tick_executors env,
      fold (finish_task flt env) (pe_finish_order env sp) ?t2)"
    by (simp only: poll_cycle_def rec sum.case prod.case Let_def find_due_tasks_def nf option.case cl)
  then show ?thesis unfolding execute_spawned[OF un u1 d2 sub] rows unfolding sp_def .
qed

section \<open>Properties\<close>

definition sample_task :: "uuid \<Rightarrow> task_row" where
  "sample_task i = \<lparr>tr_id = i, tr_tenant_id = 1, tr_task_type = ''fetch_releases'', tr_interval_seconds = 300,
     tr_jitter_seconds = 30, tr_enabled = True, tr_last_run_at = None, tr_next_run_at = 1000, tr_locked_by = None,
     tr_locked_at = None, tr_last_error = None, tr_run_count = 0, tr_updated_at = 0\<rparr>"

definition sample_poll :: "uuid \<Rightarrow> instant \<Rightarrow> poll_env" where
  "sample_poll c now = \<lparr>pe_controller = c, pe_shutdown = (\<lambda>_. False), pe_yield = (\<lambda>_. False),
     pe_executors = {FetchReleases}, pe_now_recover = now, pe_now_due = now, pe_now_claim = (\<lambda>_. now),
     pe_outcome = (\<lambda>_. Completed (Ok ())), pe_now_next = (\<lambda>_. now + 5), pe_jitter = (\<lambda>_. 7),
     pe_now_release = (\<lambda>_. now + 5), pe_finish_order = rev, pe_render = (\<lambda>_. []), pe_shutdown_after = False,
     pe_tick_executors = 0\<rparr>"

lemma sample_undisturbed: "undisturbed (\<lambda>_. None) (sample_poll c now)"
  by (simp add: undisturbed_def sample_poll_def)

text \<open>C16. No task runs on two controllers at once: as long as every running task's heartbeat succeeds
  within the staleness window less twice the clock skew, the controller that executes a task holds
  its claim and nobody else executes it, whatever the order of claims, beats, recoveries, releases
  and crashes.\<close>

theorem no_concurrent_execution:
  assumes "cluster_init off skew s0" "(cluster_step off skew)\<^sup>*\<^sup>* s0 s"
    and "cl_running s (c, t) \<noteq> None"
  shows "(cl_running s (d, t) \<noteq> None \<longrightarrow> d = c) \<and>
    (\<exists>r \<in> set (cl_table s). tr_id r = t \<and> tr_locked_by r = Some c)"
proof -
  have inv: "cluster_inv off skew s" by (rule cluster_sm.inv_reachable[OF assms(1,2)])
  then have u: "unique_ids (cl_table s)" by (simp add: cluster_inv_def)
  obtain l where l: "cl_running s (c, t) = Some l" using assms(3) by blast
  have h: "holds_claim off (cl_table s) c t l" using cluster_inv_running[OF inv l] by simp
  have "d = c" if d: "cl_running s (d, t) = Some m" for m
    using cluster_inv_running[OF inv d] holds_claim_unique[OF u _ h] by blast
  then show ?thesis using h unfolding holds_claim_def by blast
qed

theorem no_concurrent_execution_witness:
  "\<exists>s. (cluster_step (\<lambda>_. 0) 30)\<^sup>*\<^sup>* \<lparr>cl_now = 2000, cl_table = [sample_task 1], cl_running = Map.empty\<rparr> s \<and>
     cl_running s (5, 1) \<noteq> None \<and> cl_running s (6, 1) = None"
proof -
  let ?init = "\<lparr>cl_now = 2000, cl_table = [sample_task 1], cl_running = Map.empty\<rparr>"
  let ?tbl = "[(sample_task 1)\<lparr>tr_locked_by := Some 5, tr_locked_at := Some 2000\<rparr>]"
  let ?s = "?init\<lparr>cl_table := ?tbl, cl_running := (cl_running ?init)((5, 1) \<mapsto> cl_now ?init)\<rparr>"
  have i: "cluster_init (\<lambda>_. 0) 30 ?init"
    by (simp add: cluster_init_def skew_within_def STALE_CLAIM_SECONDS_def unique_ids_def)
  have "try_claim_task (\<lambda>_. None) 1 5 (cl_now ?init + 0) (cl_table ?init) = Ok (True, ?tbl)"
    by (simp add: try_claim_task_def update_many_def sample_task_def)
  then have st: "(cluster_step (\<lambda>_. 0) 30)\<^sup>*\<^sup>* ?init ?s" by (intro r_into_rtranclp claims)
  have r: "cl_running ?s (5, 1) \<noteq> None" by simp
  have "cl_running ?s (6, 1) = None" using no_concurrent_execution[OF i st r, of 6] by auto
  then show ?thesis using st r by blast
qed

text \<open>C17. An undisturbed poll cycle executes exactly the enabled, due, unclaimed tasks it has an executor
  for and need not leave to an external scheduler, counting as unclaimed what a crashed controller
  left behind. Each runs once; it is unlocked afterwards, unless its executor panicked, with the next
  run one interval plus at most the jitter away, and no other row changes beyond the recovery.\<close>

theorem poll_cycle_runs_due_tasks:
  assumes "undisturbed flt env" "unique_ids tbl" "r \<in> set tbl"
    and "poll_cycle flt env tbl = (executed, ticks, tbl')"
  shows "(tr_id r \<in> set (map tr_id executed) \<longleftrightarrow> runs_now env r) \<and> distinct (map tr_id executed) \<and>
    cycled_row env r \<in> set tbl' \<and>
    (runs_now env r \<and> pe_outcome env (tr_id r) \<noteq> Panicked \<longrightarrow>
       tr_locked_by (cycled_row env r) = None \<and>
       tr_next_run_at (cycled_row env r) = compute_next_run_at (pe_now_next env (tr_id r))
         (tr_interval_seconds r) (tr_jitter_seconds r) (pe_jitter env (tr_id r))) \<and>
    (\<not> runs_now env r \<longrightarrow> cycled_row env r = recovered_row (pe_now_recover env) r)"
proof -
  have e: "executed = map (recovered_row (pe_now_recover env)) (filter (runs_now env) tbl)" and t: "tbl' = map (cycled_row env) tbl"
    using poll_cycle_exact[OF assms(1,2)] assms(4) by simp_all
  have "tr_id r \<in> set (map tr_id executed) \<longleftrightarrow> runs_now env r"
    using runs_now_spawned[OF assms(2,3), of env] unfolding e by (simp only: set_map image_image)
  moreover have "distinct (map tr_id executed)"
    using assms(2) by (simp add: e comp_def unique_ids_def distinct_map_filter)
  moreover have "tr_locked_by (cycled_row env r) = None \<and> tr_next_run_at (cycled_row env r) =
      compute_next_run_at (pe_now_next env (tr_id r)) (tr_interval_seconds r) (tr_jitter_seconds r) (pe_jitter env (tr_id r))"
    if "runs_now env r" "pe_outcome env (tr_id r) \<noteq> Panicked"
    using that by (cases "pe_outcome env (tr_id r)")
      (simp_all add: cycled_row_def finished_row_def outcome_result_def claimed_row_def recovered_row_def)
  ultimately show ?thesis using assms(3) by (auto simp: t cycled_row_def)
qed

theorem poll_cycle_runs_due_tasks_witness:
  "runs_now (sample_poll 5 2000) (sample_task 1) \<and>
   tr_next_run_at (cycled_row (sample_poll 5 2000) (sample_task 1)) = 2312"
proof -
  let ?p = "poll_cycle (\<lambda>_. None) (sample_poll 5 2000) [sample_task 1]"
  have r: "runs_now (sample_poll 5 2000) (sample_task 1)" by code_simp
  have "unique_ids [sample_task 1]" by (simp add: unique_ids_def)
  moreover obtain ex tk tb where "?p = (ex, tk, tb)" by (metis prod_cases3)
  ultimately have "tr_next_run_at (cycled_row (sample_poll 5 2000) (sample_task 1)) =
      compute_next_run_at 2005 300 30 7"
    using poll_cycle_runs_due_tasks[OF sample_undisturbed, of "[sample_task 1]" "sample_task 1" 5 2000 ex tk tb] r
    by (simp add: sample_poll_def sample_task_def)
  then show ?thesis using r by (simp add: compute_next_run_at_def)
qed

text \<open>C18. A task whose controller died is executed again: in the first undisturbed poll cycle of any
  controller after the staleness window, a task that is enabled, due and has an executor there is
  taken over, run, counted and unlocked.\<close>

theorem abandoned_task_runs_again:
  assumes "undisturbed flt env" "unique_ids tbl" "r \<in> set tbl"
    and "tr_locked_at r = Some l" "l + STALE_CLAIM_SECONDS < pe_now_recover env"
    and "tr_enabled r" "tr_next_run_at r \<le> pe_now_due env" "tr_task_type r = task_type_value ty"
    and "ty \<in> pe_executors env" "pe_yield env (tr_id r) \<longrightarrow> is_internal ty"
    and "pe_outcome env (tr_id r) = Completed (Ok ())"
    and "poll_cycle flt env tbl = (executed, ticks, tbl')"
  shows "tr_id r \<in> set (map tr_id executed) \<and>
    (\<exists>r' \<in> set tbl'. tr_id r' = tr_id r \<and> tr_locked_by r' = None \<and> tr_run_count r' = tr_run_count r + 1 \<and>
       tr_last_run_at r' = Some (pe_now_release env (tr_id r)) \<and> tr_last_error r' = None)"
proof -
  have st: "stale (pe_now_recover env) r" using assms(4,5) by (simp add: stale_def)
  have k: "tr_task_type r \<in> task_type_value ` set task_types"
    unfolding assms(8) by (rule imageI) (cases ty; simp add: task_types_def)
  have run: "runs_now env r"
    using st k assms(6,7,8,9,10) by (auto simp: runs_now_def due_def eligible_def recovered_row_def)
  have e: "executed = map (recovered_row (pe_now_recover env)) (filter (runs_now env) tbl)" and t: "tbl' = map (cycled_row env) tbl"
    using poll_cycle_exact[OF assms(1,2)] assms(12) by simp_all
  have "tr_id r \<in> set (map tr_id executed)"
    using runs_now_spawned[OF assms(2,3), of env] run unfolding e by (simp only: set_map image_image)
  moreover have "cycled_row env r \<in> set tbl'" using assms(3) by (simp add: t)
  moreover have "tr_id (cycled_row env r) = tr_id r \<and> tr_locked_by (cycled_row env r) = None \<and>
      tr_run_count (cycled_row env r) = tr_run_count r + 1 \<and>
      tr_last_run_at (cycled_row env r) = Some (pe_now_release env (tr_id r)) \<and> tr_last_error (cycled_row env r) = None"
    using run st assms(11)
    by (simp add: cycled_row_def finished_row_def outcome_result_def claimed_row_def recovered_row_def released_row_def)
  ultimately show ?thesis by blast
qed

theorem abandoned_task_runs_again_witness:
  "\<exists>r' \<in> set (snd (snd (poll_cycle (\<lambda>_. None) (sample_poll 5 2000)
       [(sample_task 1)\<lparr>tr_locked_by := Some 6, tr_locked_at := Some 1300\<rparr>]))).
     tr_id r' = 1 \<and> tr_locked_by r' = None \<and> tr_run_count r' = 1"
proof -
  let ?r = "(sample_task 1)\<lparr>tr_locked_by := Some 6, tr_locked_at := Some 1300\<rparr>"
  obtain ex tk tb where p: "poll_cycle (\<lambda>_. None) (sample_poll 5 2000) [?r] = (ex, tk, tb)" by (metis prod_cases3)
  then show ?thesis
    using abandoned_task_runs_again[OF sample_undisturbed, of "[?r]" ?r 1300 5 2000 FetchReleases ex tk tb] p
    by (simp add: unique_ids_def sample_task_def sample_poll_def STALE_CLAIM_SECONDS_def) blast
qed

text \<open>A controller that lost its claim to another one can no longer touch the task: its late release
  reports zero rows and writes no run metadata, and its heartbeat does not extend the other's claim.\<close>

theorem lost_claim_is_inert:
  assumes "unique_ids tbl" "r \<in> set tbl" "tr_locked_by r = Some d" "d \<noteq> c" "flt (ReleaseTask (tr_id r)) = None"
  shows "release_task_claim flt (tr_id r) c next_run_at result now tbl = Ok (0, tbl) \<and>
    r \<in> set (run_heartbeat_beat flt c live now tbl)"
proof -
  have o: "x = r" if "x \<in> set tbl" "tr_id x = tr_id r" for x using unique_idsD[OF assms(1) that(1) assms(2) that(2)] .
  have n: "\<not> (tr_id x = tr_id r \<and> tr_locked_by x = Some c)" if "x \<in> set tbl" for x
    using o[OF that] assms(3,4) by auto
  then have "filter (\<lambda>x. tr_id x = tr_id r \<and> tr_locked_by x = Some c) tbl = []" by (simp add: filter_empty_conv)
  moreover have "map (\<lambda>x. if tr_id x = tr_id r \<and> tr_locked_by x = Some c then released_row now next_run_at result x else x) tbl = tbl"
    using n by (intro map_idI) auto
  ultimately have "release_task_claim flt (tr_id r) c next_run_at result now tbl = Ok (0, tbl)"
    by (simp only: release_task_claim_def update_many_def assms(5) option.case list.size)
  moreover have "r \<in> set (run_heartbeat_beat flt c live now tbl)"
    using assms(2,3,4) by (force simp: run_heartbeat_beat_def refresh_claims_def update_many_def split: option.split)
  ultimately show ?thesis ..
qed

text \<open>C19. A controller whose list of due tasks is older than another controller's run of a task claims
  and executes the task a second time before its next run is due: the claim only asks whether the
  row is unlocked.\<close>

theorem outdated_due_list_reruns:
  assumes "undisturbed flt envA" "undisturbed flt envB"
    and "find_due_tasks flt (pe_now_due envB) [r] = Ok ds" "ds = [r]"
    and "runs_now envA r" "\<not> stale (pe_now_recover envA) r" "pe_outcome envA (tr_id r) \<noteq> Panicked" "eligible envB r"
    and "poll_cycle flt envA [r] = (executedA, ticks, tbl)" "claim_loop flt envB ds tbl = (executedB, tbl')"
    and "pe_now_claim envB (tr_id r) < compute_next_run_at (pe_now_next envA (tr_id r)) (tr_interval_seconds r)
      (tr_jitter_seconds r) (pe_jitter envA (tr_id r))"
  shows "executedA = [r] \<and> executedB = [r] \<and> (\<forall>q \<in> set tbl. \<not> due (pe_now_claim envB (tr_id r)) q)"
proof -
  have u: "unique_ids [r]" by (simp add: unique_ids_def)
  have rec: "recovered_row (pe_now_recover envA) r = r" using assms(6) by (simp add: recovered_row_def)
  have a: "executedA = [r]" "tbl = [cycled_row envA r]" using poll_cycle_exact[OF assms(1) u] assms(5,9) rec by simp_all
  have free: "tr_locked_by (cycled_row envA r) = None" and id: "tr_id (cycled_row envA r) = tr_id r"
    and nx: "tr_next_run_at (cycled_row envA r) = compute_next_run_at (pe_now_next envA (tr_id r)) (tr_interval_seconds r)
      (tr_jitter_seconds r) (pe_jitter envA (tr_id r))"
    using assms(5,7) rec by (cases "pe_outcome envA (tr_id r)";
        simp add: cycled_row_def finished_row_def outcome_result_def)+
  have nf: "flt st = None" and ns: "\<not> pe_shutdown envB t" for st t using assms(2) by (simp_all add: undisturbed_def)
  have "\<exists>t. try_claim_task flt (tr_id r) (pe_controller envB) (pe_now_claim envB (tr_id r)) tbl = Ok (True, t)"
    using nf by (simp add: a try_claim_task_def update_many_def id free)
  then have "executedB = [r]" using assms(4,8,10) ns by (auto simp: eligible_def Let_def)
  then show ?thesis using a nx assms(11) by (auto simp: due_def)
qed

theorem outdated_due_list_reruns_witness:
  "fst (poll_cycle (\<lambda>_. None) (sample_poll 5 2000) [sample_task 1]) = [sample_task 1] \<and>
   fst (claim_loop (\<lambda>_. None) (sample_poll 6 2010) [sample_task 1]
     (snd (snd (poll_cycle (\<lambda>_. None) (sample_poll 5 2000) [sample_task 1])))) = [sample_task 1]"
proof -
  obtain ex tk tb where p: "poll_cycle (\<lambda>_. None) (sample_poll 5 2000) [sample_task 1] = (ex, tk, tb)" by (metis prod_cases3)
  obtain ex' tb' where q: "claim_loop (\<lambda>_. None) (sample_poll 6 2010) [sample_task 1] tb = (ex', tb')" by (metis surj_pair)
  have d: "find_due_tasks (\<lambda>_. None) (pe_now_due (sample_poll 6 2010)) [sample_task 1] = Ok [sample_task 1]" by code_simp
  have r: "runs_now (sample_poll 5 2000) (sample_task 1)" "eligible (sample_poll 6 2010) (sample_task 1)"
    "\<not> stale (pe_now_recover (sample_poll 5 2000)) (sample_task 1)" by code_simp+
  show ?thesis
    using outdated_due_list_reruns[OF sample_undisturbed sample_undisturbed d refl r(1,3) _ r(2) p q] p q
    by (simp add: sample_poll_def sample_task_def compute_next_run_at_def)
qed

end
