(* ===== verification/Config_Sections.thy ===== *)
theory Config_Sections
  imports Uptrakit_Prelude "HOL-Library.Word"
begin

text \<open>
  The runtime configuration (\<open>crates/shared/config-reload/src/config\<close>), the checks a loaded file has
  to pass, the decision whether a change needs a new process
  (\<open>crates/core/controller-runtime/src/reexec/triage.rs\<close>), and the deltas a reload hands to the
  subsystems (\<open>delta.rs\<close>, \<open>coordinator/state_machine.rs\<close>). Unknown keys of a section are kept in its
  \<open>extra\<close> map, whose TOML values are only compared. Parsing of socket addresses and of log levels is
  a parameter.
\<close>

section \<open>Sections\<close>

type_synonym toml_value = string
type_synonym extras = "string \<rightharpoonup> toml_value"

record db_config =
  db_url :: string
  db_pool_size :: "32 word"
  db_acquire_timeout_ms :: "64 word"
  db_extra :: extras

record https_config =
  https_addr :: string
  https_trusted_proxies :: "string list"
  https_real_ip_header :: string
  https_forwarded_client_cert_info_header :: string
  https_forwarded_client_cert_pem_header :: string

record network_config =
  net_https :: https_config
  net_pki_addr :: string
  net_extra :: extras

record nats_config =
  nats_url :: string
  nats_extra :: extras

record tls_config =
  tls_cert_path :: string
  tls_key_path :: string
  tls_sans :: "string list"
  tls_trust_domain :: string
  tls_extra :: extras

record audit_config =
  audit_filter :: string
  audit_retention_days :: "32 word"
  audit_extra :: extras

record log_config =
  log_path :: string
  log_level :: string
  log_extra :: extras

record zeroconf_config =
  zc_enabled :: bool
  zc_url :: string
  zc_pki_addr :: string
  zc_extra :: extras

record embedded_config =
  emb_agent :: bool
  emb_agent_ssh :: bool
  emb_mqtt :: bool
  emb_scheduler :: bool
  emb_extra :: extras

record plugins_config =
  plugins_version :: "64 word"

record runtime_config =
  cfg_db :: db_config
  cfg_master_key :: string
  cfg_network :: network_config
  cfg_tls :: tls_config
  cfg_nats :: nats_config
  cfg_audit :: audit_config
  cfg_log :: log_config
  cfg_zeroconf :: zeroconf_config
  cfg_embedded_services :: embedded_config

section \<open>Validation\<close>

text \<open>A report is the message of the error it carries, without the heading that \<open>ConfigReloadError\<close>
  prints before it; a check without a result is \<open>report + unit\<close>. Quotation marks and escapes of
  values that a message prints in debug form are left out, and so are the path and the mode of the file.\<close>

type_synonym report = string

record parsers =
  parse_socket_addr :: "string \<Rightarrow> report + unit"
  parse_log_level :: "string \<Rightarrow> report + unit"

definition bail_if :: "bool \<Rightarrow> report \<Rightarrow> report + unit" where
  "bail_if c e = (if c then Err e else Ok ())"

definition validate_db :: "db_config \<Rightarrow> report + unit" where
  "validate_db c =
     and_then (bail_if (db_pool_size c = 0) ''db.pool_size must be >= 1'')
       (\<lambda>_. bail_if (db_acquire_timeout_ms c = 0) ''db.acquire_timeout_ms must be > 0'')"

definition is_ascii_hexdigit :: "char \<Rightarrow> bool" where
  "is_ascii_hexdigit c \<longleftrightarrow> CHR ''0'' \<le> c \<and> c \<le> CHR ''9'' \<or> CHR ''a'' \<le> c \<and> c \<le> CHR ''f'' \<or>
     CHR ''A'' \<le> c \<and> c \<le> CHR ''F''"

definition validate_master_key :: "string \<Rightarrow> report + unit" where
  "validate_master_key key =
     (if key = [] then Err ''master_key is empty''
      else case strip_prefix key ''file:'' of
        Some path \<Rightarrow> if path = [] then Err ''master_key file: path is empty'' else Ok ()
      | None \<Rightarrow> (case strip_prefix key ''env:'' of
          Some var \<Rightarrow> if var = [] then Err ''master_key env: variable name is empty'' else Ok ()
        | None \<Rightarrow> if length key \<noteq> 64 \<or> \<not> list_all is_ascii_hexdigit key
            then Err ''master_key inline value must be exactly 64 hexadecimal characters'' else Ok ()))"

definition validate_network :: "parsers \<Rightarrow> network_config \<Rightarrow> report + unit" where
  "validate_network ps c =
     and_then (map_err (\<lambda>e. ''network.addr invalid: '' @ e) (parse_socket_addr ps (https_addr (net_https c)))) (\<lambda>_.
     and_then (bail_if (starts_with (net_pki_addr c) ''https://'')
       ''network.pki_addr must not use https:// scheme; use http:// or a bare socket address'') (\<lambda>_.
     bail_if (net_pki_addr c \<noteq> [] \<and> net_pki_addr c = https_addr (net_https c))
       (''network.pki_addr ('' @ net_pki_addr c @ '') collides with network.addr'')))"

definition validate_nats :: "nats_config \<Rightarrow> report + unit" where
  "validate_nats c = bail_if (nats_url c = []) ''nats.url is empty''"

definition trust_domain_char :: "char \<Rightarrow> bool" where
  "trust_domain_char c \<longleftrightarrow> CHR ''a'' \<le> c \<and> c \<le> CHR ''z'' \<or> CHR ''0'' \<le> c \<and> c \<le> CHR ''9'' \<or>
     c = CHR ''.'' \<or> c = CHR ''-''"

definition validate_tls :: "tls_config \<Rightarrow> report + unit" where
  "validate_tls c =
     and_then (bail_if ((tls_cert_path c \<noteq> []) \<noteq> (tls_key_path c \<noteq> []))
       ''tls.cert_path and tls.key_path must both be set or both be empty'') (\<lambda>_.
     bail_if (tls_trust_domain c \<noteq> [] \<and> \<not> list_all trust_domain_char (tls_trust_domain c))
       (''tls.trust_domain contains invalid characters: '' @ tls_trust_domain c))"

definition VALID_FILTERS :: "string list" where
  "VALID_FILTERS = [''all'', ''mutations'', ''none'']"

definition validate_audit :: "audit_config \<Rightarrow> report + unit" where
  "validate_audit c = bail_if (audit_filter c \<notin> set VALID_FILTERS)
     (''audit.filter must be one of [all, mutations, none], got '' @ audit_filter c)"

definition validate_log :: "parsers \<Rightarrow> log_config \<Rightarrow> report + unit" where
  "validate_log ps c = map_err (\<lambda>e. ''log.level '' @ log_level c @ '' is not a valid tracing level: '' @ e)
     (parse_log_level ps (log_level c))"

definition validate_zeroconf :: "zeroconf_config \<Rightarrow> report + unit" where
  "validate_zeroconf c = bail_if (zc_enabled c \<and> zc_url c = []) ''zeroconf.url is empty when enabled=true''"

definition validate_embedded :: "embedded_config \<Rightarrow> report + unit" where
  "validate_embedded c = Ok ()"

definition validate_runtime_config :: "parsers \<Rightarrow> runtime_config \<Rightarrow> report + unit" where
  "validate_runtime_config ps c =
     and_then (validate_db (cfg_db c)) (\<lambda>_.
     and_then (validate_master_key (cfg_master_key c)) (\<lambda>_.
     and_then (validate_network ps (cfg_network c)) (\<lambda>_.
     and_then (validate_tls (cfg_tls c)) (\<lambda>_.
     and_then (if nats_url (cfg_nats c) \<noteq> [] then validate_nats (cfg_nats c) else Ok ()) (\<lambda>_.
     and_then (validate_audit (cfg_audit c)) (\<lambda>_.
     and_then (validate_log ps (cfg_log c)) (\<lambda>_.
     and_then (validate_zeroconf (cfg_zeroconf c)) (\<lambda>_.
     validate_embedded (cfg_embedded_services c)))))))))"

text \<open>The permission check of a file with an inline master key, for Unix; \<open>mode\<close> is what the file system
  reports, and 63 is the mask \<open>0o077\<close> of the group and other bits.\<close>

definition check_config_permissions :: "(report + 32 word) \<Rightarrow> runtime_config \<Rightarrow> report + unit" where
  "check_config_permissions mode c =
     (let key = cfg_master_key c
      in if key = [] \<or> starts_with key ''file:'' \<or> starts_with key ''env:'' then Ok ()
         else and_then mode (\<lambda>m. bail_if (and m 63 \<noteq> 0)
           ''config file contains an inline master key and must not be readable by group or other''))"

section \<open>Re-exec triage\<close>

record reexec_decision =
  rd_needed :: bool
  rd_reasons :: "string list"

definition triage_decide :: "runtime_config \<Rightarrow> runtime_config \<Rightarrow> reexec_decision" where
  "triage_decide prior new =
     (let reasons =
        (if db_url (cfg_db prior) \<noteq> db_url (cfg_db new) then [''db.url''] else []) @
        (if nats_url (cfg_nats prior) \<noteq> nats_url (cfg_nats new) then [''nats.url''] else []) @
        (if tls_trust_domain (cfg_tls prior) \<noteq> tls_trust_domain (cfg_tls new) then [''tls.trust_domain''] else []) @
        (if cfg_master_key prior \<noteq> cfg_master_key new then [''master_key''] else []) @
        (if log_path (cfg_log prior) \<noteq> log_path (cfg_log new) then [''log.path''] else []) @
        (if cfg_embedded_services prior \<noteq> cfg_embedded_services new then [''embedded_services topology''] else [])
      in \<lparr>rd_needed = reasons \<noteq> [], rd_reasons = reasons\<rparr>)"

section \<open>Deltas\<close>

datatype runtime_config_delta =
    DeltaDb db_config
  | DeltaNetwork network_config
  | DeltaNats nats_config
  | DeltaTls tls_config
  | DeltaAudit audit_config
  | DeltaZeroconf zeroconf_config
  | DeltaEmbeddedServices embedded_config
  | DeltaPlugins plugins_config
  | DeltaPluginsDbRefresh

fun variant_tag :: "runtime_config_delta \<Rightarrow> string" where
  "variant_tag (DeltaDb _) = ''Db''"
| "variant_tag (DeltaNetwork _) = ''Network''"
| "variant_tag (DeltaNats _) = ''Nats''"
| "variant_tag (DeltaTls _) = ''Tls''"
| "variant_tag (DeltaAudit _) = ''Audit''"
| "variant_tag (DeltaZeroconf _) = ''Zeroconf''"
| "variant_tag (DeltaEmbeddedServices _) = ''EmbeddedServices''"
| "variant_tag (DeltaPlugins _) = ''Plugins''"
| "variant_tag DeltaPluginsDbRefresh = ''PluginsDbRefresh''"

definition build_deltas :: "runtime_config \<Rightarrow> runtime_config \<Rightarrow> runtime_config_delta list" where
  "build_deltas prior new =
     (if cfg_db prior \<noteq> cfg_db new then [DeltaDb (cfg_db new)] else []) @
     (if cfg_network prior \<noteq> cfg_network new then [DeltaNetwork (cfg_network new)] else []) @
     (if cfg_nats prior \<noteq> cfg_nats new then [DeltaNats (cfg_nats new)] else []) @
     (if cfg_tls prior \<noteq> cfg_tls new then [DeltaTls (cfg_tls new)] else []) @
     (if cfg_audit prior \<noteq> cfg_audit new then [DeltaAudit (cfg_audit new)] else []) @
     (if cfg_zeroconf prior \<noteq> cfg_zeroconf new then [DeltaZeroconf (cfg_zeroconf new)] else [])"

text \<open>\<open>filter(|d| seen.insert(d.variant_tag()))\<close>: keep a delta whose tag has not been seen.\<close>

fun keep_unseen :: "string set \<Rightarrow> runtime_config_delta list \<Rightarrow> runtime_config_delta list" where
  "keep_unseen seen [] = []"
| "keep_unseen seen (d # ds) =
     (if variant_tag d \<in> seen then keep_unseen seen ds
      else d # keep_unseen (insert (variant_tag d) seen) ds)"

definition dedup_deltas :: "runtime_config_delta list \<Rightarrow> runtime_config_delta list" where
  "dedup_deltas ds = rev (keep_unseen {} (rev ds))"

definition section_delta :: "runtime_config \<Rightarrow> string \<Rightarrow> runtime_config_delta list" where
  "section_delta current s =
     (if s = ''audit'' \<or> s = ''audit_log'' \<or> s = ''registration'' then [DeltaAudit (cfg_audit current)]
      else if s = ''plugins'' then [DeltaPluginsDbRefresh] else [])"

definition sections_to_deltas :: "string list \<Rightarrow> runtime_config \<Rightarrow> runtime_config_delta list" where
  "sections_to_deltas sections current = dedup_deltas (concat (map (section_delta current) sections))"

section \<open>What the deltas say\<close>

text \<open>Writing a delta into a configuration; plugin deltas touch no section of the file.\<close>

fun patch :: "runtime_config_delta \<Rightarrow> runtime_config \<Rightarrow> runtime_config" where
  "patch (DeltaDb v) c = c\<lparr>cfg_db := v\<rparr>"
| "patch (DeltaNetwork v) c = c\<lparr>cfg_network := v\<rparr>"
| "patch (DeltaNats v) c = c\<lparr>cfg_nats := v\<rparr>"
| "patch (DeltaTls v) c = c\<lparr>cfg_tls := v\<rparr>"
| "patch (DeltaAudit v) c = c\<lparr>cfg_audit := v\<rparr>"
| "patch (DeltaZeroconf v) c = c\<lparr>cfg_zeroconf := v\<rparr>"
| "patch (DeltaEmbeddedServices v) c = c\<lparr>cfg_embedded_services := v\<rparr>"
| "patch (DeltaPlugins _) c = c"
| "patch DeltaPluginsDbRefresh c = c"

lemma build_deltas_patch:
  "fold patch (build_deltas prior new) prior =
     new\<lparr>cfg_master_key := cfg_master_key prior, cfg_log := cfg_log prior,
         cfg_embedded_services := cfg_embedded_services prior\<rparr>"
  by (simp add: build_deltas_def)

lemma build_deltas_tags: "distinct (map variant_tag (build_deltas prior new))"
  by (simp add: build_deltas_def)

text \<open>Dropping a delta loses a section: the list is minimal.\<close>

definition delta_changes :: "runtime_config \<Rightarrow> runtime_config_delta \<Rightarrow> bool" where
  "delta_changes c d \<longleftrightarrow> patch d c \<noteq> c"

lemma build_deltas_cases:
  "d \<in> set (build_deltas prior new) \<longleftrightarrow>
     d = DeltaDb (cfg_db new) \<and> cfg_db prior \<noteq> cfg_db new \<or>
     d = DeltaNetwork (cfg_network new) \<and> cfg_network prior \<noteq> cfg_network new \<or>
     d = DeltaNats (cfg_nats new) \<and> cfg_nats prior \<noteq> cfg_nats new \<or>
     d = DeltaTls (cfg_tls new) \<and> cfg_tls prior \<noteq> cfg_tls new \<or>
     d = DeltaAudit (cfg_audit new) \<and> cfg_audit prior \<noteq> cfg_audit new \<or>
     d = DeltaZeroconf (cfg_zeroconf new) \<and> cfg_zeroconf prior \<noteq> cfg_zeroconf new"
  by (simp add: build_deltas_def)

lemma patch_section:
  "cfg_db (patch (DeltaDb a) c) = a" "cfg_network (patch (DeltaNetwork n) c) = n"
  "cfg_nats (patch (DeltaNats m) c) = m" "cfg_tls (patch (DeltaTls t) c) = t"
  "cfg_audit (patch (DeltaAudit u) c) = u" "cfg_zeroconf (patch (DeltaZeroconf z) c) = z"
  by simp_all

lemma build_deltas_changes: "d \<in> set (build_deltas prior new) \<Longrightarrow> delta_changes prior d"
  unfolding build_deltas_cases delta_changes_def by (elim disjE conjE) (metis patch_section)+

lemma triage_not_needed:
  "\<not> rd_needed (triage_decide prior new) \<longleftrightarrow>
     db_url (cfg_db prior) = db_url (cfg_db new) \<and> nats_url (cfg_nats prior) = nats_url (cfg_nats new) \<and>
     tls_trust_domain (cfg_tls prior) = tls_trust_domain (cfg_tls new) \<and> cfg_master_key prior = cfg_master_key new \<and>
     log_path (cfg_log prior) = log_path (cfg_log new) \<and> cfg_embedded_services prior = cfg_embedded_services new"
  by (simp add: triage_decide_def Let_def)

section \<open>Deduplication\<close>

lemma keep_unseen_set:
  "d \<in> set (keep_unseen seen ds) \<longleftrightarrow> variant_tag d \<notin> seen \<and> find (\<lambda>x. variant_tag x = variant_tag d) ds = Some d"
proof (induction ds arbitrary: seen)
  case (Cons x ds)
  show ?case
  proof (cases "variant_tag x \<in> seen")
    case True
    then show ?thesis using Cons.IH[of seen] by (cases "variant_tag x = variant_tag d") simp_all
  next
    case False
    then show ?thesis using Cons.IH[of "insert (variant_tag x) seen"]
      by (cases "variant_tag x = variant_tag d") auto
  qed
qed simp

lemma keep_unseen_distinct: "distinct (map variant_tag (keep_unseen seen ds))"
proof (induction ds arbitrary: seen)
  case (Cons d ds)
  have "variant_tag d \<notin> set (map variant_tag (keep_unseen (insert (variant_tag d) seen) ds))"
  proof
    assume "variant_tag d \<in> set (map variant_tag (keep_unseen (insert (variant_tag d) seen) ds))"
    then obtain x where x: "x \<in> set (keep_unseen (insert (variant_tag d) seen) ds)" "variant_tag d = variant_tag x"
      unfolding set_map by (rule imageE)
    from x(1) have "variant_tag x \<notin> insert (variant_tag d) seen" unfolding keep_unseen_set by (rule conjunct1)
    then show False using x(2) by simp
  qed
  then show ?case using Cons by simp
qed simp

text \<open>One delta per tag, and it is the last one of its tag.\<close>

lemma dedup_deltas_correct:
  "distinct (map variant_tag (dedup_deltas ds))"
  "d \<in> set (dedup_deltas ds) \<longleftrightarrow> find (\<lambda>x. variant_tag x = variant_tag d) (rev ds) = Some d"
proof -
  show "distinct (map variant_tag (dedup_deltas ds))"
    using keep_unseen_distinct[of "{}" "rev ds"] by (simp add: dedup_deltas_def rev_map[symmetric])
  show "d \<in> set (dedup_deltas ds) \<longleftrightarrow> find (\<lambda>x. variant_tag x = variant_tag d) (rev ds) = Some d"
    by (simp add: dedup_deltas_def keep_unseen_set)
qed

section \<open>A configuration for the examples\<close>

definition sample_config :: runtime_config where
  "sample_config =
     \<lparr>cfg_db = \<lparr>db_url = ''sqlite:u.db'', db_pool_size = 5, db_acquire_timeout_ms = 3000, db_extra = Map.empty\<rparr>,
      cfg_master_key = ''env:KEY'',
      cfg_network = \<lparr>net_https = \<lparr>https_addr = ''127.0.0.1:443'', https_trusted_proxies = [], https_real_ip_header = [],
          https_forwarded_client_cert_info_header = [], https_forwarded_client_cert_pem_header = []\<rparr>,
        net_pki_addr = [], net_extra = Map.empty\<rparr>,
      cfg_tls = \<lparr>tls_cert_path = ''a.crt'', tls_key_path = ''a.key'', tls_sans = [], tls_trust_domain = [], tls_extra = Map.empty\<rparr>,
      cfg_nats = \<lparr>nats_url = [], nats_extra = Map.empty\<rparr>,
      cfg_audit = \<lparr>audit_filter = ''all'', audit_retention_days = 30, audit_extra = Map.empty\<rparr>,
      cfg_log = \<lparr>log_path = [], log_level = ''info'', log_extra = Map.empty\<rparr>,
      cfg_zeroconf = \<lparr>zc_enabled = False, zc_url = [], zc_pki_addr = [], zc_extra = Map.empty\<rparr>,
      cfg_embedded_services = \<lparr>emb_agent = True, emb_agent_ssh = False, emb_mqtt = False, emb_scheduler = True,
        emb_extra = Map.empty\<rparr>\<rparr>"

definition with_filter :: "string \<Rightarrow> runtime_config \<Rightarrow> runtime_config" where
  "with_filter flt c = c\<lparr>cfg_audit := (cfg_audit c)\<lparr>audit_filter := flt\<rparr>\<rparr>"

lemma with_filter_deltas:
  "audit_filter (cfg_audit c) \<noteq> flt \<Longrightarrow> build_deltas c (with_filter flt c) = [DeltaAudit ((cfg_audit c)\<lparr>audit_filter := flt\<rparr>)]"
proof -
  assume "audit_filter (cfg_audit c) \<noteq> flt"
  then have "cfg_audit c \<noteq> (cfg_audit c)\<lparr>audit_filter := flt\<rparr>" by (metis audit_config.select_convs(1) audit_config.surjective audit_config.update_convs(1))
  then show ?thesis by (simp add: with_filter_def build_deltas_def)
qed

end
