(* ===== verification/Reload_Coordinator.thy ===== *)
theory Reload_Coordinator
  imports Config_Sections
begin

text \<open>
  The reload coordinator (\<open>crates/shared/config-reload/src/coordinator\<close>): the erased subsystems
  (\<open>reloadable/mod.rs\<close>), the validate, apply, watchdog and revert phases, the requests, and the
  Degraded state. The subsystems act on a world, the type parameter \<open>'w\<close>. Loading the file, the
  re-exec hook, measured times, the clock and the order in which the concurrent health checks end are
  parameters. Turns of the loop and calls on the handle are atomic steps.
\<close>

section \<open>Subsystems\<close>

text \<open>A health check ends with a result after a number of milliseconds.\<close>

record 'w reloadable =
  rl_name :: string
  rl_validate :: "runtime_config_delta \<Rightarrow> 'w \<Rightarrow> report + unit"
  rl_apply :: "runtime_config_delta \<Rightarrow> 'w \<Rightarrow> (report + unit) \<times> 'w"
  rl_revert :: "'w \<Rightarrow> (report + unit) \<times> 'w"
  rl_health_check :: "'w \<Rightarrow> (report + unit) \<times> nat"
  rl_rollback_window :: nat

record ('w, 'c) typed_reloadable =
  ty_name :: string
  ty_validate :: "'c \<Rightarrow> 'w \<Rightarrow> report + unit"
  ty_apply :: "'c \<Rightarrow> 'w \<Rightarrow> (report + unit) \<times> 'w"
  ty_revert :: "'w \<Rightarrow> (report + unit) \<times> 'w"
  ty_health_check :: "'w \<Rightarrow> (report + unit) \<times> nat"
  ty_rollback_window :: nat

text \<open>The macro: a delta of another variant is accepted and ignored.\<close>

definition reloadable_erased_impl ::
  "('w, 'c) typed_reloadable \<Rightarrow> (runtime_config_delta \<Rightarrow> 'c option) \<Rightarrow> 'w reloadable" where
  "reloadable_erased_impl ty variant =
     \<lparr>rl_name = ty_name ty,
      rl_validate = (\<lambda>d w. case variant d of Some cfg \<Rightarrow> ty_validate ty cfg w | None \<Rightarrow> Ok ()),
      rl_apply = (\<lambda>d w. case variant d of Some cfg \<Rightarrow> ty_apply ty cfg w | None \<Rightarrow> (Ok (), w)),
      rl_revert = ty_revert ty,
      rl_health_check = ty_health_check ty,
      rl_rollback_window = ty_rollback_window ty\<rparr>"

section \<open>Coordinator\<close>

datatype config_scope = GlobalScope | TenantScope uuid

datatype reload_source =
    Sighup
  | FileWatch string
  | DbBump config_scope "string list"
  | Boot
  | OtherSource string

datatype reload_phase = PhaseValidate | PhaseApply | PhaseWatchdog | PhaseReexec | PhaseOther string

record degraded_info =
  dg_since :: instant
  dg_failed_subsystems :: "string list"
  dg_reason :: string

datatype coordinator_state = Idle | Reloading | Degraded degraded_info

fun is_degraded :: "coordinator_state \<Rightarrow> bool" where
  "is_degraded (Degraded _) = True"
| "is_degraded _ = False"

type_synonym timings = "string \<rightharpoonup> 64 word"

text \<open>\<open>Reverted\<close> is declared by the source and never sent.\<close>

datatype reload_audit_event =
    Refused reload_source string
  | Requested reload_source
  | FileChanged string
  | Applied "string list" timings reload_source
  | Failed reload_phase "string option" string
  | Reverted string string

datatype alert_severity = WarningAlert | ErrorAlert | CriticalAlert

record 'w coordinator =
  co_state :: coordinator_state
  co_reloadables :: "'w reloadable list"
  co_world :: 'w
  co_config_path :: "string option"
  co_current_config :: runtime_config
  co_audit :: "reload_audit_event list"
  co_alerts :: "(alert_severity \<times> string) list"

record 'w cycle_env =
  ce_apply_ms :: "string \<Rightarrow> runtime_config_delta \<Rightarrow> nat"
  ce_completion :: "'w reloadable list \<Rightarrow> 'w reloadable list"
  ce_now :: instant

definition send_audit :: "reload_audit_event \<Rightarrow> 'w coordinator \<Rightarrow> 'w coordinator" where
  "send_audit ev co = co\<lparr>co_audit := co_audit co @ [ev]\<rparr>"

definition write_alert :: "alert_severity \<Rightarrow> string \<Rightarrow> 'w coordinator \<Rightarrow> 'w coordinator" where
  "write_alert sev msg co = co\<lparr>co_alerts := co_alerts co @ [(sev, msg)]\<rparr>"

text \<open>\<open>u64::try_from(..).unwrap_or(u64::MAX)\<close>; the sums wrap around, as in a release build.\<close>

definition millis :: "nat \<Rightarrow> 64 word" where
  "millis n = (if n < 2 ^ 64 then of_nat n else - 1)"

definition add_time :: "string \<Rightarrow> 64 word \<Rightarrow> timings \<Rightarrow> timings" where
  "add_time name took ms = ms(name \<mapsto> (case ms name of Some v \<Rightarrow> v + took | None \<Rightarrow> took))"

definition modify_time :: "string \<Rightarrow> 64 word \<Rightarrow> timings \<Rightarrow> timings" where
  "modify_time name took ms = (case ms name of Some v \<Rightarrow> ms(name \<mapsto> v + took) | None \<Rightarrow> ms)"

subsection \<open>Phases\<close>

fun validate_deltas :: "'w reloadable \<Rightarrow> runtime_config_delta list \<Rightarrow> 'w \<Rightarrow> report + unit" where
  "validate_deltas r [] w = Ok ()"
| "validate_deltas r (d # ds) w = and_then (rl_validate r d w) (\<lambda>_. validate_deltas r ds w)"

fun validate_phase :: "'w reloadable list \<Rightarrow> runtime_config_delta list \<Rightarrow> 'w \<Rightarrow> report + unit" where
  "validate_phase [] ds w = Ok ()"
| "validate_phase (r # rs) ds w = and_then (validate_deltas r ds w) (\<lambda>_. validate_phase rs ds w)"

fun apply_deltas :: "'w cycle_env \<Rightarrow> 'w reloadable \<Rightarrow> runtime_config_delta list \<Rightarrow> timings \<Rightarrow> 'w
    \<Rightarrow> (report + timings) \<times> 'w" where
  "apply_deltas env r [] ms w = (Ok ms, w)"
| "apply_deltas env r (d # ds) ms w =
     (case rl_apply r d w of
        (Inl e, w') \<Rightarrow> (Err e, w')
      | (Inr _, w') \<Rightarrow> apply_deltas env r ds (add_time (rl_name r) (millis (ce_apply_ms env (rl_name r) d)) ms) w')"

fun apply_phase :: "'w cycle_env \<Rightarrow> runtime_config_delta list \<Rightarrow> 'w reloadable list \<Rightarrow> 'w reloadable list \<Rightarrow> timings
    \<Rightarrow> 'w \<Rightarrow> (('w reloadable list \<times> report) + ('w reloadable list \<times> timings)) \<times> 'w" where
  "apply_phase env ds [] applied ms w = (Ok (applied, ms), w)"
| "apply_phase env ds (r # rs) applied ms w =
     (case apply_deltas env r ds ms w of
        (Inl e, w') \<Rightarrow> (Err (applied, e), w')
      | (Inr ms', w') \<Rightarrow> apply_phase env ds rs (applied @ [r]) ms' w')"

fun watchdog_loop :: "'w reloadable list \<Rightarrow> timings \<Rightarrow> 'w \<Rightarrow> report + timings" where
  "watchdog_loop [] ms w = Ok ms"
| "watchdog_loop (r # rs) ms w =
     (case rl_health_check r w of (outcome, took) \<Rightarrow>
        if rl_rollback_window r < took then Err (''watchdog timed out for '' @ rl_name r)
        else (case outcome of
                Inl e \<Rightarrow> Err e
              | Inr _ \<Rightarrow> watchdog_loop rs (modify_time (rl_name r) (millis took) ms) w))"

definition watchdog_phase :: "'w cycle_env \<Rightarrow> 'w reloadable list \<Rightarrow> timings \<Rightarrow> 'w \<Rightarrow> report + timings" where
  "watchdog_phase env applied ms w = watchdog_loop (ce_completion env applied) ms w"

definition revert_one :: "'w cycle_env \<Rightarrow> 'w reloadable \<Rightarrow> 'w coordinator \<Rightarrow> 'w coordinator" where
  "revert_one env r co =
     (case rl_revert r (co_world co) of
        (Inr _, w) \<Rightarrow> co\<lparr>co_world := w\<rparr>
      | (Inl e, w) \<Rightarrow>
          (write_alert CriticalAlert
             (''coordinator entered Degraded: revert failed for '' @ [CHR 0x27] @ rl_name r @ [CHR 0x27] @ '': '' @ e)
             (co\<lparr>co_world := w\<rparr>))
          \<lparr>co_state := Degraded \<lparr>dg_since = ce_now env, dg_failed_subsystems = [rl_name r],
             dg_reason = ''revert returned Err on '' @ rl_name r @ '': '' @ e\<rparr>\<rparr>)"

definition revert_phase :: "'w cycle_env \<Rightarrow> 'w reloadable list \<Rightarrow> 'w coordinator \<Rightarrow> 'w coordinator" where
  "revert_phase env applied co = fold (revert_one env) (rev applied) co"

definition apply_and_watch_phase ::
  "'w cycle_env \<Rightarrow> runtime_config_delta list \<Rightarrow> 'w coordinator \<Rightarrow> (report + timings) \<times> 'w coordinator" where
  "apply_and_watch_phase env ds co =
     (case apply_phase env ds (co_reloadables co) [] Map.empty (co_world co) of
        (Inl (partial, e), w) \<Rightarrow>
          (Err e, revert_phase env partial (write_alert ErrorAlert (''config apply failed: '' @ e) (co\<lparr>co_world := w\<rparr>)))
      | (Inr (applied, ms), w) \<Rightarrow>
          (case watchdog_phase env applied ms w of
             Inr merged \<Rightarrow> (Ok merged, co\<lparr>co_world := w\<rparr>)
           | Inl e \<Rightarrow> (Err e, revert_phase env applied
               (write_alert ErrorAlert (''watchdog failed after apply: '' @ e) (co\<lparr>co_world := w\<rparr>)))))"

definition run_cycle ::
  "'w cycle_env \<Rightarrow> runtime_config_delta list \<Rightarrow> 'w coordinator \<Rightarrow> (report + timings) \<times> 'w coordinator" where
  "run_cycle env ds co =
     (case validate_phase (co_reloadables co) ds (co_world co) of
        Inl e \<Rightarrow> (Err e, write_alert WarningAlert (''config validation failed: '' @ e) co)
      | Inr _ \<Rightarrow> apply_and_watch_phase env ds co)"

subsection \<open>Requests\<close>

datatype reexec_outcome = ExecFailed report | NotNeeded

record reload_outside =
  ro_load :: "string \<Rightarrow> report + runtime_config"
  ro_reexec_hook :: "(runtime_config \<Rightarrow> runtime_config \<Rightarrow> reexec_outcome) option"

definition process_file_request ::
  "reload_outside \<Rightarrow> 'w cycle_env \<Rightarrow> 'w coordinator \<Rightarrow> (report + timings) \<times> 'w coordinator" where
  "process_file_request ro env co = (case co_config_path co of
       None \<Rightarrow> (Err ''coordinator has no config_path set; cannot reload from file'', co)
     | Some path \<Rightarrow> (case ro_load ro path of
         Inl e \<Rightarrow> (Err e, co)
       | Inr new_config \<Rightarrow>
           (let co1 = send_audit (FileChanged path) co;
                prior = co_current_config co
            in case (case ro_reexec_hook ro of None \<Rightarrow> NotNeeded | Some hook \<Rightarrow> hook prior new_config) of
                 ExecFailed e \<Rightarrow> (Err e, co1)
               | NotNeeded \<Rightarrow>
                   (let deltas = build_deltas prior new_config
                    in if deltas = [] then (Ok Map.empty, co1)
                       else (case run_cycle env deltas co1 of
                               (Inl e, co2) \<Rightarrow> (Err e, co2)
                             | (Inr ms, co2) \<Rightarrow> (Ok ms, co2\<lparr>co_current_config := new_config\<rparr>))))))"

definition process_request ::
  "reload_outside \<Rightarrow> 'w cycle_env \<Rightarrow> reload_source \<Rightarrow> 'w coordinator \<Rightarrow> (report + timings) \<times> 'w coordinator" where
  "process_request ro env source co = (case source of
       Sighup \<Rightarrow> process_file_request ro env co
     | FileWatch _ \<Rightarrow> process_file_request ro env co
     | DbBump _ sections \<Rightarrow>
         (let deltas = sections_to_deltas sections (co_current_config co)
          in if deltas = [] then (Ok Map.empty, co) else run_cycle env deltas co)
     | Boot \<Rightarrow> (Ok Map.empty, co)
     | OtherSource _ \<Rightarrow> (Ok Map.empty, co))"

text \<open>One turn of the loop in \<open>run\<close>; the keys of the timings come in the order of the \<open>BTreeMap\<close>.\<close>

definition handle_request :: "reload_outside \<Rightarrow> 'w cycle_env \<Rightarrow> reload_source \<Rightarrow> 'w coordinator \<Rightarrow> 'w coordinator" where
  "handle_request ro env source co =
     (if is_degraded (co_state co) then send_audit (Refused source ''coordinator is in Degraded state'') co
      else (case process_request ro env source (send_audit (Requested source) (co\<lparr>co_state := Reloading\<rparr>)) of
              (Inr ms, co2) \<Rightarrow> send_audit (Applied (btree_iter (dom ms)) ms source) (co2\<lparr>co_state := Idle\<rparr>)
            | (Inl e, co2) \<Rightarrow> send_audit (Failed PhaseApply None e)
                (if is_degraded (co_state co2) then co2 else co2\<lparr>co_state := Idle\<rparr>)))"

text \<open>The loop itself, until the queue of requests is closed. Before it takes a request the world outside
  may have changed.\<close>

fun run :: "(('w \<Rightarrow> 'w) \<times> reload_outside \<times> 'w cycle_env \<times> reload_source) list \<Rightarrow> 'w coordinator \<Rightarrow> 'w coordinator" where
  "run [] co = co"
| "run ((change, ro, env, source) # reqs) co =
     run reqs (handle_request ro env source (co\<lparr>co_world := change (co_world co)\<rparr>))"

subsection \<open>Leaving the Degraded state\<close>

definition clear_degraded :: "'w coordinator \<Rightarrow> 'w coordinator" where
  "clear_degraded co = (if is_degraded (co_state co) then co\<lparr>co_state := Idle\<rparr> else co)"

fun still_failing :: "'w reloadable list \<Rightarrow> 'w \<Rightarrow> string list \<Rightarrow> report option \<Rightarrow> string list \<times> report option" where
  "still_failing [] w names last_err = (names, last_err)"
| "still_failing (r # rs) w names last_err =
     (case fst (rl_health_check r w) of
        Inl e \<Rightarrow> still_failing rs w (names @ [rl_name r]) (Some e)
      | Inr _ \<Rightarrow> still_failing rs w names last_err)"

fun join_strings :: "string \<Rightarrow> string list \<Rightarrow> string" where
  "join_strings sep [] = []"
| "join_strings sep [x] = x"
| "join_strings sep (x # y # ys) = x @ sep @ join_strings sep (y # ys)"

definition clear_degraded_internal :: "instant \<Rightarrow> 'w coordinator \<Rightarrow> (report + unit) \<times> 'w coordinator" where
  "clear_degraded_internal now co =
     (case still_failing (co_reloadables co) (co_world co) [] None of
        (_, None) \<Rightarrow> (Ok (), co\<lparr>co_state := Idle\<rparr>)
      | (names, Some err) \<Rightarrow>
          (Err err, co\<lparr>co_state := Degraded \<lparr>dg_since = now, dg_failed_subsystems = names,
             dg_reason = ''clear-degraded failed: still unhealthy: '' @ join_strings '', '' names\<rparr>\<rparr>))"

section \<open>What a request leaves alone\<close>

lemma send_audit_sel [simp]:
  "co_state (send_audit ev co) = co_state co" "co_reloadables (send_audit ev co) = co_reloadables co"
  "co_world (send_audit ev co) = co_world co" "co_config_path (send_audit ev co) = co_config_path co"
  "co_current_config (send_audit ev co) = co_current_config co" "co_audit (send_audit ev co) = co_audit co @ [ev]"
  "co_alerts (send_audit ev co) = co_alerts co"
  by (simp_all add: send_audit_def)

lemma write_alert_sel [simp]:
  "co_state (write_alert sev msg co) = co_state co" "co_reloadables (write_alert sev msg co) = co_reloadables co"
  "co_world (write_alert sev msg co) = co_world co" "co_config_path (write_alert sev msg co) = co_config_path co"
  "co_current_config (write_alert sev msg co) = co_current_config co" "co_audit (write_alert sev msg co) = co_audit co"
  "co_alerts (write_alert sev msg co) = co_alerts co @ [(sev, msg)]"
  by (simp_all add: write_alert_def)

text \<open>The parts of a coordinator that no cycle changes.\<close>

definition fixed_parts :: "'w coordinator \<Rightarrow> 'w reloadable list \<times> string option \<times> runtime_config \<times> reload_audit_event list" where
  "fixed_parts co = (co_reloadables co, co_config_path co, co_current_config co, co_audit co)"

lemma fixed_parts_eqD:
  assumes "fixed_parts co = fixed_parts co'"
  shows "co_reloadables co = co_reloadables co'" "co_config_path co = co_config_path co'"
    "co_current_config co = co_current_config co'" "co_audit co = co_audit co'"
  using assms by (simp_all add: fixed_parts_def)

lemma fixed_parts_simps [simp]:
  "fixed_parts (co\<lparr>co_world := w\<rparr>) = fixed_parts co" "fixed_parts (co\<lparr>co_state := st\<rparr>) = fixed_parts co"
  "fixed_parts (write_alert sev msg co) = fixed_parts co"
  by (simp_all add: fixed_parts_def)

lemma revert_one_fixed [simp]: "fixed_parts (revert_one env r co) = fixed_parts co"
  by (simp add: revert_one_def split: prod.split sum.split)

lemma revert_phase_fixed [simp]: "fixed_parts (revert_phase env applied co) = fixed_parts co"
proof -
  have "fixed_parts (fold (revert_one env) rs co) = fixed_parts co" for rs
    by (induction rs arbitrary: co) simp_all
  then show ?thesis by (simp add: revert_phase_def)
qed

lemma run_cycle_fixed: "fixed_parts (snd (run_cycle env ds co)) = fixed_parts co"
  by (simp add: run_cycle_def apply_and_watch_phase_def split: prod.split sum.split)

lemma validate_phase_Ok_iff:
  "validate_phase rs ds w = Ok () \<longleftrightarrow> (\<forall>r\<in>set rs. \<forall>d\<in>set ds. rl_validate r d w = Ok ())"
proof -
  have v: "validate_deltas r ds w = Ok () \<longleftrightarrow> (\<forall>d\<in>set ds. rl_validate r d w = Ok ())" for r
    by (induction ds) (auto simp: and_then_Ok_iff)
  show ?thesis by (induction rs) (auto simp: and_then_Ok_iff v)
qed

lemma run_cycle_rejected:
  assumes "validate_phase (co_reloadables co) ds (co_world co) = Err e"
  shows "run_cycle env ds co = (Err e, write_alert WarningAlert (''config validation failed: '' @ e) co)"
  using assms by (simp add: run_cycle_def)

section \<open>The rollback contract\<close>

text \<open>What a coordinator needs of its subsystems so that a failed cycle leaves no trace. Each owns a part
  of the world, of which \<open>shown\<close> is what the rest of the program sees; \<open>ready\<close> says that a revert after
  the deltas goes back to what is shown now.\<close>

locale rollback_contract =
  fixes subs :: "'w reloadable list"
    and part :: "string \<Rightarrow> 'w \<Rightarrow> 'x"
    and shown :: "'x \<Rightarrow> 'y"
    and ready :: "runtime_config_delta list \<Rightarrow> 'x \<Rightarrow> bool"
  assumes names_distinct: "distinct (map rl_name subs)"
    and apply_frame: "r \<in> set subs \<Longrightarrow> n \<noteq> rl_name r \<Longrightarrow> part n (snd (rl_apply r d w)) = part n w"
    and revert_frame: "r \<in> set subs \<Longrightarrow> n \<noteq> rl_name r \<Longrightarrow> part n (snd (rl_revert r w)) = part n w"
    and revert_ok: "r \<in> set subs \<Longrightarrow> fst (rl_revert r w) = Ok ()"
    and revert_local: "r \<in> set subs \<Longrightarrow> part (rl_name r) w = part (rl_name r) w' \<Longrightarrow>
      part (rl_name r) (snd (rl_revert r w)) = part (rl_name r) (snd (rl_revert r w'))"
    and restores: "r \<in> set subs \<Longrightarrow> distinct (map variant_tag ds) \<Longrightarrow> ready ds (part (rl_name r) w) \<Longrightarrow>
      apply_deltas env r ds ms w = (Ok ms', w') \<Longrightarrow>
      shown (part (rl_name r) (snd (rl_revert r w'))) = shown (part (rl_name r) w)"
    and failed_apply: "r \<in> set subs \<Longrightarrow> distinct (map variant_tag ds) \<Longrightarrow>
      apply_deltas env r ds ms w = (Err e, w') \<Longrightarrow> shown (part (rl_name r) w') = shown (part (rl_name r) w)"
begin

lemma apply_deltas_frame:
  "r \<in> set subs \<Longrightarrow> n \<noteq> rl_name r \<Longrightarrow> part n (snd (apply_deltas env r ds ms w)) = part n w"
proof (induction ds arbitrary: ms w)
  case (Cons d ds)
  then show ?case using apply_frame[of r n d w] by (auto split: prod.split sum.split)
qed simp

text \<open>After the deltas, a revert from any world that agrees on the part of \<open>r\<close> restores it.\<close>

definition undoable :: "'w \<Rightarrow> 'w \<Rightarrow> 'w reloadable \<Rightarrow> bool" where
  "undoable w w' r \<longleftrightarrow> (\<forall>v. part (rl_name r) v = part (rl_name r) w' \<longrightarrow>
     shown (part (rl_name r) (snd (rl_revert r v))) = shown (part (rl_name r) w))"

lemma apply_deltas_undoable:
  assumes "r \<in> set subs" "distinct (map variant_tag ds)" "ready ds (part (rl_name r) w)"
    "apply_deltas env r ds ms w = (Ok ms', w')"
  shows "undoable w w' r"
  using restores[OF assms] revert_local[OF assms(1)] unfolding undoable_def by metis

lemma undoable_cong:
  "part (rl_name r) w = part (rl_name r) v \<Longrightarrow> part (rl_name r) w' = part (rl_name r) v' \<Longrightarrow>
     undoable w w' r = undoable v v' r"
  by (simp add: undoable_def)

text \<open>A run of the apply phase over the subsystems \<open>rs\<close>: those it completed can be undone, and the others
  still show what they showed.\<close>

lemma apply_phase_parts:
  assumes "set rs \<subseteq> set subs" "distinct (map rl_name rs)" "distinct (map variant_tag ds)"
    and "\<forall>r\<in>set rs. ready ds (part (rl_name r) w)"
    and "apply_phase env ds rs applied ms w = (res, w')"
  shows "\<exists>done. (case res of Inl (a, _) \<Rightarrow> a | Inr (a, _) \<Rightarrow> a) = applied @ done \<and> set done \<subseteq> set rs \<and>
    distinct (map rl_name done) \<and>
    (\<forall>n. n \<notin> rl_name ` set rs \<longrightarrow> part n w' = part n w) \<and> (\<forall>r\<in>set done. undoable w w' r) \<and>
    (\<forall>r\<in>set rs - set done. shown (part (rl_name r) w') = shown (part (rl_name r) w))"
  using assms
proof (induction rs arbitrary: applied ms w)
  case Nil
  then show ?case by auto
next
  case (Cons r rs)
  obtain ares w1 where a: "apply_deltas env r ds ms w = (ares, w1)" by (meson surj_pair)
  have r: "r \<in> set subs" using Cons.prems(1) by simp
  have frame: "n \<noteq> rl_name r \<Longrightarrow> part n w1 = part n w" for n
    using apply_deltas_frame[OF r, of n env ds ms w] a by simp
  have rs: "rl_name x \<noteq> rl_name r" if "x \<in> set rs" for x
    using Cons.prems(2) that by (metis distinct.simps(2) image_eqI list.simps(9) set_map)
  show ?case
  proof (cases ares)
    case (Inl e)
    then have "res = Err (applied, e)" "w' = w1" using Cons.prems(5) a by simp_all
    moreover have "shown (part (rl_name r) w1) = shown (part (rl_name r) w)"
      using failed_apply[OF r Cons.prems(3)] a Inl by blast
    ultimately show ?thesis using frame rs by (intro exI[of _ "[]"]) auto
  next
    case (Inr ms1)
    then have p: "apply_phase env ds rs (applied @ [r]) ms1 w1 = (res, w')" using Cons.prems(5) a by simp
    have "\<forall>x\<in>set rs. ready ds (part (rl_name x) w1)" using Cons.prems(4) frame rs by simp
    from Cons.IH[OF _ _ Cons.prems(3) this p] Cons.prems(1,2) obtain dn where
      dn: "(case res of Inl (a, _) \<Rightarrow> a | Inr (a, _) \<Rightarrow> a) = (applied @ [r]) @ dn" "set dn \<subseteq> set rs"
        "distinct (map rl_name dn)" "\<forall>n. n \<notin> rl_name ` set rs \<longrightarrow> part n w' = part n w1"
        "\<forall>x\<in>set dn. undoable w1 w' x"
        "\<forall>x\<in>set rs - set dn. shown (part (rl_name x) w') = shown (part (rl_name x) w1)"
      by auto
    have "undoable w w1 r"
      using apply_deltas_undoable[OF r Cons.prems(3) _ a[unfolded Inr]] Cons.prems(4) by simp
    moreover have "part (rl_name r) w' = part (rl_name r) w1" using dn(4) rs by (metis imageE)
    ultimately have ur: "undoable w w' r" using undoable_cong by metis
    have ux: "undoable w w' x" if "x \<in> set dn" for x
      using dn(2,5) that undoable_cong[OF frame refl] rs by blast
    have dist: "distinct (map rl_name (r # dn))" using dn(2,3) rs by (auto simp: image_iff) (metis subsetD)
    have others: "part n w' = part n w" if "n \<notin> rl_name ` set (r # rs)" for n using dn(4) frame that by auto
    have untouched: "shown (part (rl_name x) w') = shown (part (rl_name x) w)"
      if "x \<in> set (r # rs) - set (r # dn)" for x using dn(6) frame rs that by auto
    show ?thesis using dn(1,2) ur ux dist others untouched by (intro exI[of _ "r # dn"]) auto
  qed
qed

lemma revert_one_contract:
  "r \<in> set subs \<Longrightarrow> revert_one env r co = co\<lparr>co_world := snd (rl_revert r (co_world co))\<rparr>"
  using revert_ok[of r "co_world co"] by (auto simp: revert_one_def split: prod.split sum.split)

lemma reverts_parts:
  assumes "set rs \<subseteq> set subs" "distinct (map rl_name rs)"
  shows "co_state (fold (revert_one env) rs co) = co_state co \<and>
    (\<forall>n. n \<notin> rl_name ` set rs \<longrightarrow> part n (co_world (fold (revert_one env) rs co)) = part n (co_world co)) \<and>
    (\<forall>r\<in>set rs. part (rl_name r) (co_world (fold (revert_one env) rs co)) =
       part (rl_name r) (snd (rl_revert r (co_world co))))"
  using assms
proof (induction rs arbitrary: co)
  case (Cons r rs)
  let ?c = "co\<lparr>co_world := snd (rl_revert r (co_world co))\<rparr>"
  have r: "r \<in> set subs" using Cons.prems(1) by simp
  have ne: "rl_name x \<noteq> rl_name r" if "x \<in> set rs" for x
    using Cons.prems(2) that by (metis distinct.simps(2) image_eqI list.simps(9) set_map)
  have ih: "co_state (fold (revert_one env) rs ?c) = co_state co"
    "\<forall>n. n \<notin> rl_name ` set rs \<longrightarrow> part n (co_world (fold (revert_one env) rs ?c)) = part n (co_world ?c)"
    "\<forall>x\<in>set rs. part (rl_name x) (co_world (fold (revert_one env) rs ?c)) =
       part (rl_name x) (snd (rl_revert x (co_world ?c)))"
    using Cons.IH[of ?c] Cons.prems by simp_all
  have "part (rl_name x) (snd (rl_revert x (co_world ?c))) = part (rl_name x) (snd (rl_revert x (co_world co)))"
    if "x \<in> set rs" for x
    using revert_local[of x "co_world ?c" "co_world co"] revert_frame[OF r] ne[OF that] Cons.prems(1) that by auto
  moreover have "rl_name r \<notin> rl_name ` set rs" using ne by (metis imageE)
  ultimately show ?case using ih revert_frame[OF r] revert_one_contract[OF r] by auto
qed simp

lemma apply_phase_applied:
  assumes "apply_phase env ds rs applied ms w = (res, w')"
  shows "set (case res of Inl (a, _) \<Rightarrow> a | Inr (a, _) \<Rightarrow> a) \<subseteq> set applied \<union> set rs"
  using assms
proof (induction rs arbitrary: applied ms w)
  case (Cons r rs)
  obtain ares w1 where a: "apply_deltas env r ds ms w = (ares, w1)" by (meson surj_pair)
  show ?case
  proof (cases ares)
    case (Inl e)
    then show ?thesis using Cons.prems a by auto
  next
    case (Inr ms1)
    then show ?thesis using Cons.IH[of "applied @ [r]" ms1 w1] Cons.prems a by auto
  qed
qed auto

lemma reverts_keep_state: "set rs \<subseteq> set subs \<Longrightarrow> co_state (fold (revert_one env) rs co) = co_state co"
  by (induction rs arbitrary: co) (simp_all add: revert_one_contract)

text \<open>No cycle enters Degraded, since no revert fails.\<close>

lemma cycle_keeps_state:
  assumes "co_reloadables co = subs"
  shows "co_state (snd (run_cycle env ds co)) = co_state co"
proof -
  obtain res w where p: "apply_phase env ds subs [] Map.empty (co_world co) = (res, w)" by (meson surj_pair)
  have sub: "set (rev (case res of Inl (a, _) \<Rightarrow> a | Inr (a, _) \<Rightarrow> a)) \<subseteq> set subs"
    using apply_phase_applied[OF p] by simp
  have "co_state (revert_phase env (case res of Inl (a, _) \<Rightarrow> a | Inr (a, _) \<Rightarrow> a) c) = co_state c" for c
    unfolding revert_phase_def by (rule reverts_keep_state[OF sub])
  then show ?thesis using p assms unfolding run_cycle_def apply_and_watch_phase_def
    by (auto split: sum.split prod.split)
qed

text \<open>A cycle that fails, in whatever phase, leaves everything shown as it was and the state too.\<close>

lemma failed_cycle_restores:
  assumes subs: "co_reloadables co = subs" and tags: "distinct (map variant_tag ds)"
    and ready: "\<forall>r\<in>set subs. ready ds (part (rl_name r) (co_world co))"
    and failed: "run_cycle env ds co = (Err e, co')"
  shows "co_state co' = co_state co \<and>
    (\<forall>r\<in>set subs. shown (part (rl_name r) (co_world co')) = shown (part (rl_name r) (co_world co)))"
proof (cases "validate_phase subs ds (co_world co)")
  case (Inl e')
  then show ?thesis using failed subs by (auto simp: run_cycle_def)
next
  case (Inr u)
  obtain res w where p: "apply_phase env ds subs [] Map.empty (co_world co) = (res, w)" by (meson surj_pair)
  let ?applied = "case res of Inl (a, _) \<Rightarrow> a | Inr (a, _) \<Rightarrow> a"
  have a: "set ?applied \<subseteq> set subs" "distinct (map rl_name ?applied)"
      "\<forall>r\<in>set ?applied. undoable (co_world co) w r"
      "\<forall>r\<in>set subs - set ?applied. shown (part (rl_name r) w) = shown (part (rl_name r) (co_world co))"
    using apply_phase_parts[OF order.refl names_distinct tags ready p] by auto
  obtain msg where co': "co' = revert_phase env ?applied (write_alert ErrorAlert msg (co\<lparr>co_world := w\<rparr>))"
    using failed Inr p subs unfolding run_cycle_def apply_and_watch_phase_def
    by (auto split: sum.splits prod.splits)
  note rv = reverts_parts[of "rev ?applied" env "write_alert ErrorAlert msg (co\<lparr>co_world := w\<rparr>)"]
  have rest: "part (rl_name r) (co_world co') = part (rl_name r) w" if "r \<in> set subs - set ?applied" for r
  proof -
    have "rl_name r \<notin> rl_name ` set ?applied"
      using that a(1) names_distinct by (auto simp: distinct_map dest: inj_onD)
    then show ?thesis using rv a(1,2) unfolding co' revert_phase_def by (simp add: rev_map[symmetric])
  qed
  have undone: "part (rl_name r) (co_world co') = part (rl_name r) (snd (rl_revert r w))" if "r \<in> set ?applied" for r
    using rv a(1,2) that unfolding co' revert_phase_def by (simp add: rev_map[symmetric])
  have "co_state co' = co_state co" using rv a(1,2) unfolding co' revert_phase_def by (simp add: rev_map[symmetric])
  then show ?thesis using rest undone a(3,4) unfolding undoable_def by (metis DiffI)
qed

end

section \<open>A coordinator for the examples\<close>

text \<open>One subsystem, which accepts no change of the audit section.\<close>

definition audit_gate :: "unit reloadable" where
  "audit_gate = \<lparr>rl_name = ''audit_gate'', rl_validate = (\<lambda>d _. bail_if (variant_tag d = ''Audit'') ''fixed''),
     rl_apply = (\<lambda>_ w. (Ok (), w)), rl_revert = (\<lambda>w. (Ok (), w)), rl_health_check = (\<lambda>_. (Ok (), 1)), rl_rollback_window = 5\<rparr>"

definition sample_coordinator :: "unit coordinator" where
  "sample_coordinator = \<lparr>co_state = Idle, co_reloadables = [audit_gate], co_world = (), co_config_path = Some ''u.toml'',
     co_current_config = sample_config, co_audit = [], co_alerts = []\<rparr>"

definition sample_env :: "'w cycle_env" where
  "sample_env = \<lparr>ce_apply_ms = (\<lambda>_ _. 2), ce_completion = (\<lambda>rs. rs), ce_now = 100\<rparr>"

definition loads :: "runtime_config \<Rightarrow> reload_outside" where
  "loads c = \<lparr>ro_load = (\<lambda>_. Ok c), ro_reexec_hook = None\<rparr>"

section \<open>Requests and the audit trail\<close>

text \<open>What one request leaves in the audit trail.\<close>

inductive episode :: "reload_audit_event list \<Rightarrow> bool" where
  refused: "episode [Refused source reason]"
| applied: "episode [Requested source, Applied names ms source]"
| failed: "episode [Requested source, Failed phase sub err]"
| file_applied: "episode [Requested source, FileChanged path, Applied names ms source]"
| file_failed: "episode [Requested source, FileChanged path, Failed phase sub err]"

lemma run_cycle_audit: "run_cycle env ds co = (res, co') \<Longrightarrow> co_audit co' = co_audit co"
  using run_cycle_fixed[of env ds co] by (auto dest: fixed_parts_eqD)

lemma process_file_request_audit:
  assumes "process_file_request ro env co = (res, co')"
  shows "co_audit co' = co_audit co \<or> (\<exists>path. co_audit co' = co_audit co @ [FileChanged path])"
  using assms unfolding process_file_request_def Let_def
  by (auto split: option.splits sum.splits reexec_outcome.splits if_splits prod.splits dest!: run_cycle_audit)

lemma process_request_audit:
  assumes "process_request ro env source co = (res, co')"
  shows "co_audit co' = co_audit co \<or> (\<exists>path. co_audit co' = co_audit co @ [FileChanged path])"
  using assms process_file_request_audit[of ro env co res co'] unfolding process_request_def Let_def
  by (auto split: reload_source.splits if_splits dest: run_cycle_audit)

lemma handle_request_episode: "\<exists>ep. episode ep \<and> co_audit (handle_request ro env source co) = co_audit co @ ep"
proof (cases "is_degraded (co_state co)")
  case True
  then show ?thesis by (auto simp: handle_request_def intro: episode.intros)
next
  case False
  let ?c = "send_audit (Requested source) (co\<lparr>co_state := Reloading\<rparr>)"
  obtain res co2 where p: "process_request ro env source ?c = (res, co2)" by (meson surj_pair)
  show ?thesis using process_request_audit[OF p] p False unfolding handle_request_def
    by (cases res) (auto intro: episode.intros)
qed

lemma handle_request_settles: "co_state co \<noteq> Reloading \<Longrightarrow> co_state (handle_request ro env source co) \<noteq> Reloading"
  by (auto simp: handle_request_def split: prod.split sum.split)

text \<open>Everything that happens to a coordinator: a request, the two ways out of Degraded, and a change of the
  world outside.\<close>

inductive coord_step :: "'w coordinator \<Rightarrow> 'w coordinator \<Rightarrow> bool" where
  request: "coord_step co (handle_request ro env source co)"
| clear: "coord_step co (clear_degraded co)"
| recheck: "coord_step co (snd (clear_degraded_internal now co))"
| outside: "coord_step co (co\<lparr>co_world := w\<rparr>)"

inductive audit_trail :: "reload_audit_event list \<Rightarrow> bool" where
  empty: "audit_trail []"
| more: "audit_trail es \<Longrightarrow> episode ep \<Longrightarrow> audit_trail (es @ ep)"

definition coord_init :: "'w coordinator \<Rightarrow> bool" where
  "coord_init co \<longleftrightarrow> co_state co = Idle \<and> co_audit co = []"

definition coord_inv :: "'w coordinator \<Rightarrow> bool" where
  "coord_inv co \<longleftrightarrow> co_state co \<noteq> Reloading \<and> audit_trail (co_audit co)"

lemma coord_inv_init: "coord_init co \<Longrightarrow> coord_inv co"
  by (simp add: coord_init_def coord_inv_def audit_trail.empty)

lemma coord_inv_step: "coord_inv co \<Longrightarrow> coord_step co co' \<Longrightarrow> coord_inv co'"
proof (erule coord_step.cases)
  fix c ro env source
  assume "coord_inv co" "co = c" "co' = handle_request ro env source c"
  then show ?thesis using handle_request_episode[of ro env source c] handle_request_settles[of c ro env source]
    by (auto simp: coord_inv_def intro: audit_trail.more)
qed (auto simp: coord_inv_def clear_degraded_def clear_degraded_internal_def split: prod.splits option.splits)

interpretation coord_sm: state_machine coord_init coord_step coord_inv
  by unfold_locales (rule coord_inv_init, assumption, rule coord_inv_step)

text \<open>C20. Between requests the coordinator is never left in the state Reloading, and its audit trail is a
  sequence of complete episodes: a refusal, or a request, at most one file change and exactly one
  outcome, a success naming the source of the request.\<close>

theorem reload_requests_settle:
  assumes "coord_init co" "coord_step\<^sup>*\<^sup>* co co'"
  shows "co_state co' \<noteq> Reloading \<and> audit_trail (co_audit co')"
  using coord_sm.inv_reachable[OF assms] by (simp add: coord_inv_def)

theorem reload_requests_settle_witness:
  "co_state (handle_request (loads (with_filter ''none'' sample_config)) sample_env Sighup sample_coordinator) \<noteq> Reloading \<and>
   audit_trail (co_audit (handle_request (loads (with_filter ''none'' sample_config)) sample_env Sighup sample_coordinator))"
proof -
  have "coord_init sample_coordinator" by (simp add: coord_init_def sample_coordinator_def)
  then show ?thesis by (rule reload_requests_settle) (rule r_into_rtranclp, rule coord_step.request)
qed

lemma run_cycle_kept:
  assumes "run_cycle env ds co = (res, co')"
  shows "co_reloadables co' = co_reloadables co \<and> co_config_path co' = co_config_path co \<and>
    co_current_config co' = co_current_config co"
  using run_cycle_fixed[of env ds co] assms by (auto dest: fixed_parts_eqD)

text \<open>A request that reads the file: the coordinator is idle, the file loads to \<open>new\<close>, no re-exec is needed
  and some section has changed.\<close>

definition file_request :: "reload_outside \<Rightarrow> reload_source \<Rightarrow> 'w coordinator \<Rightarrow> string \<Rightarrow> runtime_config \<Rightarrow> bool" where
  "file_request ro source co path new \<longleftrightarrow>
     co_state co = Idle \<and> (source = Sighup \<or> (\<exists>changed. source = FileWatch changed)) \<and>
     co_config_path co = Some path \<and> ro_load ro path = Ok new \<and>
     (case ro_reexec_hook ro of None \<Rightarrow> True | Some hook \<Rightarrow> hook (co_current_config co) new = NotNeeded) \<and>
     build_deltas (co_current_config co) new \<noteq> []"

definition accepted :: "reload_source \<Rightarrow> string \<Rightarrow> 'w coordinator \<Rightarrow> 'w coordinator" where
  "accepted source path co = send_audit (FileChanged path) (send_audit (Requested source) (co\<lparr>co_state := Reloading\<rparr>))"

lemma accepted_sel [simp]:
  "co_state (accepted source path co) = Reloading" "co_reloadables (accepted source path co) = co_reloadables co"
  "co_world (accepted source path co) = co_world co" "co_config_path (accepted source path co) = co_config_path co"
  "co_current_config (accepted source path co) = co_current_config co"
  "co_audit (accepted source path co) = co_audit co @ [Requested source, FileChanged path]"
  "co_alerts (accepted source path co) = co_alerts co"
  by (simp_all add: accepted_def)

lemma handle_file_request:
  assumes "file_request ro source co path new"
  shows "handle_request ro env source co =
    (case run_cycle env (build_deltas (co_current_config co) new) (accepted source path co) of
       (Inr ms, c) \<Rightarrow> send_audit (Applied (btree_iter (dom ms)) ms source) (c\<lparr>co_current_config := new, co_state := Idle\<rparr>)
     | (Inl e, c) \<Rightarrow> send_audit (Failed PhaseApply None e) (if is_degraded (co_state c) then c else c\<lparr>co_state := Idle\<rparr>))"
proof -
  let ?ds = "build_deltas (co_current_config co) new"
  have "process_request ro env source c = process_file_request ro env c" for c
    using assms by (auto simp: process_request_def file_request_def)
  moreover have "process_file_request ro env (send_audit (Requested source) (co\<lparr>co_state := Reloading\<rparr>)) =
      (case run_cycle env ?ds (accepted source path co) of
         (Inl e, c) \<Rightarrow> (Err e, c) | (Inr ms, c) \<Rightarrow> (Ok ms, c\<lparr>co_current_config := new\<rparr>))"
    using assms unfolding file_request_def accepted_def process_file_request_def Let_def
    by (auto split: option.splits)
  ultimately show ?thesis using assms by (simp add: handle_request_def file_request_def split: prod.split sum.split)
qed

lemma file_request_outcome:
  assumes "file_request ro source co path new" "build_deltas (co_current_config co) new = ds"
  shows "last (co_audit (handle_request ro env source co)) =
    (case fst (run_cycle env ds (accepted source path co)) of
       Inr ms \<Rightarrow> Applied (btree_iter (dom ms)) ms source | Inl e \<Rightarrow> Failed PhaseApply None e)"
  unfolding handle_file_request[OF assms(1)] assms(2) by (simp split: prod.split sum.split)

text \<open>A change that some subsystem rejects is refused as a whole: no subsystem has been touched, the
  configuration in force is the old one, the coordinator is idle again, and the trail ends with the
  failure.\<close>

theorem rejected_reload_touches_nothing:
  assumes "file_request ro source co path new"
    and "d \<in> set (build_deltas (co_current_config co) new)" "r \<in> set (co_reloadables co)"
    and "rl_validate r d (co_world co) \<noteq> Ok ()"
  shows "\<exists>e. handle_request ro env source co =
    co\<lparr>co_audit := co_audit co @ [Requested source, FileChanged path, Failed PhaseApply None e],
       co_alerts := co_alerts co @ [(WarningAlert, ''config validation failed: '' @ e)]\<rparr>"
proof -
  let ?ds = "build_deltas (co_current_config co) new"
  obtain e where e: "validate_phase (co_reloadables co) ?ds (co_world co) = Err e"
    using assms(2-4) validate_phase_Ok_iff[of "co_reloadables co" ?ds "co_world co"]
    by (cases "validate_phase (co_reloadables co) ?ds (co_world co)") auto
  have "run_cycle env ?ds (accepted source path co) =
      (Err e, write_alert WarningAlert (''config validation failed: '' @ e) (accepted source path co))"
    using e by (simp add: run_cycle_rejected)
  moreover have "co_state co = Idle" using assms(1) by (simp add: file_request_def)
  ultimately show ?thesis using handle_file_request[OF assms(1), of env]
    by (intro exI[of _ e]) (simp add: accepted_def send_audit_def write_alert_def)
qed

end
