(* ===== verification/Reload_Subsystems.thy ===== *)
theory Reload_Subsystems
  imports Reload_Coordinator
begin

text \<open>
  The subsystems the controller registers with its reload coordinator
  (\<open>crates/core/controller-runtime/src/reload\<close>, \<open>crates/ui/web-api-queries/src/reload/plugin_registry.rs\<close>,
  \<open>boot/reload.rs\<close>): those that publish over a watch channel, the served certificate, and the gates
  that only validate. Opening a pool, querying it, building a certified key from files and the state
  of the audit loop are the world outside. The files may change between validation and apply, so
  there is one reading for each.
\<close>

section \<open>World\<close>

text \<open>A watch channel with the value stashed by the last apply. Sending on a channel without receivers
  fails and leaves the value.\<close>

record 'c watched =
  w_current :: 'c
  w_receivers :: bool
  w_snapshot :: "'c option"

type_synonym pool = nat

record certified_key =
  ck_cert :: "string list"
  ck_key :: string

record tls_state =
  tls_served :: certified_key
  tls_prior :: "certified_key option"
  tls_applied :: "certified_key option"

record outside_world =
  ext_connect :: "db_config \<Rightarrow> report + pool"
  ext_query_one :: "pool \<Rightarrow> report + unit"
  ext_load_validate :: "string \<Rightarrow> string \<Rightarrow> report + certified_key"
  ext_load_apply :: "string \<Rightarrow> string \<Rightarrow> report + certified_key"
  ext_keys_match :: "certified_key \<Rightarrow> report + unit"
  ext_dispatcher_closed :: bool
  ext_took :: "string \<Rightarrow> nat"

record world =
  wd_db :: "pool watched"
  wd_tls :: tls_state
  wd_audit :: "audit_config watched"
  wd_plugins :: "plugins_config watched"
  wd_embedded :: "embedded_config watched"
  wd_outside :: outside_world

text \<open>What the subsystems keep from the boot of the process.\<close>

record boot_values =
  boot_db_url :: string
  boot_tls :: tls_config
  boot_https :: https_config
  boot_pki_addr :: string
  boot_zeroconf :: zeroconf_config
  boot_nats_url :: "string option"
  boot_nats :: nats_config
  boot_embedded :: embedded_config

definition watch_send :: "'c \<Rightarrow> 'c watched \<Rightarrow> 'c watched" where
  "watch_send v s = (if w_receivers s then s\<lparr>w_current := v\<rparr> else s)"

definition watch_apply :: "'c \<Rightarrow> 'c watched \<Rightarrow> 'c watched" where
  "watch_apply new s = watch_send new (s\<lparr>w_snapshot := Some (w_current s)\<rparr>)"

definition watch_revert :: "'c watched \<Rightarrow> 'c watched" where
  "watch_revert s = (case w_snapshot s of Some prior \<Rightarrow> watch_send prior s | None \<Rightarrow> s)"

section \<open>Subsystems\<close>

definition WATCHDOG_DB_POOL :: nat where "WATCHDOG_DB_POOL = 15000"
definition WATCHDOG_NATS :: nat where "WATCHDOG_NATS = 10000"
definition WATCHDOG_HTTPS :: nat where "WATCHDOG_HTTPS = 5000"
definition WATCHDOG_PKI :: nat where "WATCHDOG_PKI = 5000"
definition WATCHDOG_PLUGINS :: nat where "WATCHDOG_PLUGINS = 30000"
definition WATCHDOG_AUDIT :: nat where "WATCHDOG_AUDIT = 5000"
definition WATCHDOG_ZEROCONF :: nat where "WATCHDOG_ZEROCONF = 5000"
definition WATCHDOG_EMBEDDED :: nat where "WATCHDOG_EMBEDDED = 30000"

definition took :: "string \<Rightarrow> world \<Rightarrow> nat" where
  "took name w = ext_took (wd_outside w) name"

definition DbPoolReloadable :: "boot_values \<Rightarrow> (world, db_config) typed_reloadable" where
  "DbPoolReloadable b =
     \<lparr>ty_name = ''db_pool'',
      ty_validate = (\<lambda>new w. and_then (validate_db new) (\<lambda>_. bail_if (db_url new \<noteq> boot_db_url b)
        (''db.url change requires reexec (current = '' @ boot_db_url b @ '', new = '' @ db_url new @ '')''))),
      ty_apply = (\<lambda>new w. case ext_connect (wd_outside w) new of
          Inl e \<Rightarrow> (Err e, w)
        | Inr pool \<Rightarrow> (Ok (), w\<lparr>wd_db := watch_apply pool (wd_db w)\<rparr>)),
      ty_revert = (\<lambda>w. (Ok (), w\<lparr>wd_db := watch_revert (wd_db w)\<rparr>)),
      ty_health_check = (\<lambda>w. (ext_query_one (wd_outside w) (w_current (wd_db w)), took ''db_pool'' w)),
      ty_rollback_window = WATCHDOG_DB_POOL\<rparr>"

definition load_and_build ::
  "(string \<Rightarrow> string \<Rightarrow> report + certified_key) \<Rightarrow> (certified_key \<Rightarrow> report + unit) \<Rightarrow> tls_config \<Rightarrow> report + certified_key" where
  "load_and_build load keys_match cfg =
     and_then (load (tls_cert_path cfg) (tls_key_path cfg)) (\<lambda>ck.
     and_then (map_err (\<lambda>e. ''tls cert/key pair mismatch: '' @ e) (keys_match ck)) (\<lambda>_. Ok ck))"

definition cert_paths_changed :: "tls_config \<Rightarrow> tls_config \<Rightarrow> bool" where
  "cert_paths_changed boot new \<longleftrightarrow> tls_cert_path new \<noteq> tls_cert_path boot \<or> tls_key_path new \<noteq> tls_key_path boot"

definition tls_validate :: "tls_config \<Rightarrow> tls_config \<Rightarrow> world \<Rightarrow> report + unit" where
  "tls_validate boot new w =
     and_then (validate_tls new) (\<lambda>_.
     and_then (bail_if (tls_trust_domain new \<noteq> tls_trust_domain boot) ''tls.trust_domain change requires restart'') (\<lambda>_.
     if \<not> cert_paths_changed boot new then Ok ()
     else and_then (bail_if (tls_cert_path new = [] \<and> tls_cert_path boot \<noteq> [])
            ''removing the external certificate requires restart'') (\<lambda>_.
          and_then (load_and_build (ext_load_validate (wd_outside w)) (ext_keys_match (wd_outside w)) new) (\<lambda>_. Ok ()))))"

definition tls_apply :: "tls_config \<Rightarrow> tls_config \<Rightarrow> world \<Rightarrow> (report + unit) \<times> world" where
  "tls_apply boot new w =
     (if \<not> cert_paths_changed boot new
      then (Ok (), w\<lparr>wd_tls := (wd_tls w)\<lparr>tls_prior := None, tls_applied := None\<rparr>\<rparr>)
      else case load_and_build (ext_load_apply (wd_outside w)) (ext_keys_match (wd_outside w)) new of
        Inl e \<Rightarrow> (Err e, w)
      | Inr ck \<Rightarrow> (Ok (), w\<lparr>wd_tls := \<lparr>tls_served = ck, tls_prior = Some (tls_served (wd_tls w)), tls_applied = Some ck\<rparr>\<rparr>))"

definition tls_revert :: "tls_state \<Rightarrow> tls_state" where
  "tls_revert s = (case tls_prior s of Some prior \<Rightarrow> s\<lparr>tls_prior := None, tls_served := prior\<rparr> | None \<Rightarrow> s)"

definition first_cert :: "certified_key \<Rightarrow> string option" where
  "first_cert ck = (case ck_cert ck of [] \<Rightarrow> None | c # _ \<Rightarrow> Some c)"

definition tls_health_check :: "tls_state \<Rightarrow> report + unit" where
  "tls_health_check s = (case tls_applied s of
       None \<Rightarrow> Ok ()
     | Some applied \<Rightarrow> bail_if (first_cert (tls_served s) \<noteq> first_cert applied)
         ''resolver leaf does not match the certificate applied this cycle'')"

definition TlsSnapshotReloadable :: "boot_values \<Rightarrow> (world, tls_config) typed_reloadable" where
  "TlsSnapshotReloadable b =
     \<lparr>ty_name = ''tls_snapshot'', ty_validate = tls_validate (boot_tls b), ty_apply = tls_apply (boot_tls b),
      ty_revert = (\<lambda>w. (Ok (), w\<lparr>wd_tls := tls_revert (wd_tls w)\<rparr>)),
      ty_health_check = (\<lambda>w. (tls_health_check (wd_tls w), took ''tls_snapshot'' w)),
      ty_rollback_window = WATCHDOG_HTTPS\<rparr>"

text \<open>The gates: apply, revert and health check do nothing.\<close>

definition gate :: "string \<Rightarrow> ('c \<Rightarrow> report + unit) \<Rightarrow> nat \<Rightarrow> (world, 'c) typed_reloadable" where
  "gate name validate window =
     \<lparr>ty_name = name, ty_validate = (\<lambda>new w. validate new), ty_apply = (\<lambda>_ w. (Ok (), w)), ty_revert = (\<lambda>w. (Ok (), w)),
      ty_health_check = (\<lambda>w. (Ok (), took name w)), ty_rollback_window = window\<rparr>"

definition HttpsListenerReloadable :: "boot_values \<Rightarrow> (world, network_config) typed_reloadable" where
  "HttpsListenerReloadable b = gate ''https_listener''
     (\<lambda>new. bail_if (https_addr (net_https new) \<noteq> https_addr (boot_https b))
        ''listener address change requires a full controller restart (network https addr)'') WATCHDOG_HTTPS"

definition PkiListenerReloadable :: "boot_values \<Rightarrow> (world, network_config) typed_reloadable" where
  "PkiListenerReloadable b = gate ''pki_listener''
     (\<lambda>new. bail_if (net_pki_addr new \<noteq> boot_pki_addr b)
        ''listener address change requires a full controller restart (network pki_addr)'') WATCHDOG_PKI"

definition ZeroconfReloadable :: "boot_values \<Rightarrow> (world, zeroconf_config) typed_reloadable" where
  "ZeroconfReloadable b = gate ''zeroconf''
     (\<lambda>new. and_then (validate_zeroconf new) (\<lambda>_.
        bail_if (new \<noteq> boot_zeroconf b) ''zeroconf config change requires restart'')) WATCHDOG_ZEROCONF"

definition NatsReloadable :: "boot_values \<Rightarrow> (world, nats_config) typed_reloadable" where
  "NatsReloadable b = gate ''nats''
     (\<lambda>new. and_then (bail_if ((if nats_url new \<noteq> [] then Some (nats_url new) else None) \<noteq> boot_nats_url b)
        ''nats.url change requires reexec'') (\<lambda>_.
        bail_if (nats_extra new \<noteq> nats_extra (boot_nats b)) ''nats config change requires restart'')) WATCHDOG_NATS"

definition AuditDispatcherReloadable :: "(world, audit_config) typed_reloadable" where
  "AuditDispatcherReloadable =
     \<lparr>ty_name = ''audit_dispatcher'', ty_validate = (\<lambda>new w. validate_audit new),
      ty_apply = (\<lambda>new w. (Ok (), w\<lparr>wd_audit := watch_apply new (wd_audit w)\<rparr>)),
      ty_revert = (\<lambda>w. (Ok (), w\<lparr>wd_audit := watch_revert (wd_audit w)\<rparr>)),
      ty_health_check = (\<lambda>w. (bail_if (ext_dispatcher_closed (wd_outside w)) ''dispatcher channel is closed'',
        took ''audit_dispatcher'' w)),
      ty_rollback_window = WATCHDOG_AUDIT\<rparr>"

definition EmbeddedServicesReloadable :: "boot_values \<Rightarrow> (world, embedded_config) typed_reloadable" where
  "EmbeddedServicesReloadable b =
     \<lparr>ty_name = ''embedded_services'',
      ty_validate = (\<lambda>new w. bail_if (emb_agent new \<noteq> emb_agent (boot_embedded b) \<or>
          emb_agent_ssh new \<noteq> emb_agent_ssh (boot_embedded b) \<or> emb_mqtt new \<noteq> emb_mqtt (boot_embedded b) \<or>
          emb_scheduler new \<noteq> emb_scheduler (boot_embedded b))
        ''embedded_services topology change requires reexec (Plan 3)''),
      ty_apply = (\<lambda>new w. (Ok (), w\<lparr>wd_embedded := watch_apply new (wd_embedded w)\<rparr>)),
      ty_revert = (\<lambda>w. (Ok (), w\<lparr>wd_embedded := watch_revert (wd_embedded w)\<rparr>)),
      ty_health_check = (\<lambda>w. (Ok (), took ''embedded_services'' w)),
      ty_rollback_window = WATCHDOG_EMBEDDED\<rparr>"

text \<open>The plugin catalog has an erased implementation of its own; a refresh from the database does nothing.\<close>

definition PluginCatalogReloadable :: "world reloadable" where
  "PluginCatalogReloadable =
     \<lparr>rl_name = ''plugin_catalog'', rl_validate = (\<lambda>d w. Ok ()),
      rl_apply = (\<lambda>d w. case d of
          DeltaPlugins new \<Rightarrow> (Ok (), w\<lparr>wd_plugins := watch_apply new (wd_plugins w)\<rparr>)
        | DeltaPluginsDbRefresh \<Rightarrow> (Ok (), w)
        | _ \<Rightarrow> (Ok (), w)),
      rl_revert = (\<lambda>w. (Ok (), w\<lparr>wd_plugins := watch_revert (wd_plugins w)\<rparr>)),
      rl_health_check = (\<lambda>w. (Ok (), took ''plugin_catalog'' w)),
      rl_rollback_window = WATCHDOG_PLUGINS\<rparr>"

section \<open>Registration\<close>

fun as_db :: "runtime_config_delta \<Rightarrow> db_config option" where
  "as_db (DeltaDb c) = Some c" | "as_db _ = None"
fun as_tls :: "runtime_config_delta \<Rightarrow> tls_config option" where
  "as_tls (DeltaTls c) = Some c" | "as_tls _ = None"
fun as_network :: "runtime_config_delta \<Rightarrow> network_config option" where
  "as_network (DeltaNetwork c) = Some c" | "as_network _ = None"
fun as_audit :: "runtime_config_delta \<Rightarrow> audit_config option" where
  "as_audit (DeltaAudit c) = Some c" | "as_audit _ = None"
fun as_zeroconf :: "runtime_config_delta \<Rightarrow> zeroconf_config option" where
  "as_zeroconf (DeltaZeroconf c) = Some c" | "as_zeroconf _ = None"
fun as_embedded :: "runtime_config_delta \<Rightarrow> embedded_config option" where
  "as_embedded (DeltaEmbeddedServices c) = Some c" | "as_embedded _ = None"
fun as_nats :: "runtime_config_delta \<Rightarrow> nats_config option" where
  "as_nats (DeltaNats c) = Some c" | "as_nats _ = None"

text \<open>The list that \<open>wire\<close> registers; the last entry depends on the feature \<open>nats\<close>.\<close>

definition controller_reloadables :: "bool \<Rightarrow> boot_values \<Rightarrow> world reloadable list" where
  "controller_reloadables nats_feature b =
     [reloadable_erased_impl (DbPoolReloadable b) as_db,
      reloadable_erased_impl (TlsSnapshotReloadable b) as_tls,
      reloadable_erased_impl (HttpsListenerReloadable b) as_network,
      reloadable_erased_impl (PkiListenerReloadable b) as_network,
      reloadable_erased_impl AuditDispatcherReloadable as_audit,
      reloadable_erased_impl (ZeroconfReloadable b) as_zeroconf,
      PluginCatalogReloadable,
      reloadable_erased_impl (EmbeddedServicesReloadable b) as_embedded] @
     (if nats_feature then [reloadable_erased_impl (NatsReloadable b) as_nats] else [])"

section \<open>The controller keeps the rollback contract\<close>

datatype part_state =
    DbPart "pool watched"
  | TlsPart tls_state
  | AuditPart "audit_config watched"
  | PluginsPart "plugins_config watched"
  | EmbeddedPart "embedded_config watched"
  | GatePart

definition controller_part :: "string \<Rightarrow> world \<Rightarrow> part_state" where
  "controller_part n w =
     (if n = ''db_pool'' then DbPart (wd_db w) else if n = ''tls_snapshot'' then TlsPart (wd_tls w)
      else if n = ''audit_dispatcher'' then AuditPart (wd_audit w) else if n = ''plugin_catalog'' then PluginsPart (wd_plugins w)
      else if n = ''embedded_services'' then EmbeddedPart (wd_embedded w) else GatePart)"

text \<open>What the rest of the program sees: the published values and the served certificate.\<close>

fun controller_shown :: "part_state \<Rightarrow> part_state" where
  "controller_shown (DbPart s) = DbPart (s\<lparr>w_snapshot := None\<rparr>)"
| "controller_shown (TlsPart s) = TlsPart (s\<lparr>tls_prior := None, tls_applied := None\<rparr>)"
| "controller_shown (AuditPart s) = AuditPart (s\<lparr>w_snapshot := None\<rparr>)"
| "controller_shown (PluginsPart s) = PluginsPart (s\<lparr>w_snapshot := None\<rparr>)"
| "controller_shown (EmbeddedPart s) = EmbeddedPart (s\<lparr>w_snapshot := None\<rparr>)"
| "controller_shown GatePart = GatePart"

definition no_stale :: "'c option \<Rightarrow> 'c \<Rightarrow> bool" where
  "no_stale stashed now \<longleftrightarrow> stashed = None \<or> stashed = Some now"

definition carries :: "string \<Rightarrow> runtime_config_delta list \<Rightarrow> bool" where
  "carries tag ds \<longleftrightarrow> tag \<in> variant_tag ` set ds"

text \<open>A stashed value is harmless when the cycle stashes a new one or when it is the current one.\<close>

fun controller_ready :: "runtime_config_delta list \<Rightarrow> part_state \<Rightarrow> bool" where
  "controller_ready ds (DbPart s) \<longleftrightarrow> carries ''Db'' ds \<or> no_stale (w_snapshot s) (w_current s)"
| "controller_ready ds (TlsPart s) \<longleftrightarrow> carries ''Tls'' ds \<or> no_stale (tls_prior s) (tls_served s)"
| "controller_ready ds (AuditPart s) \<longleftrightarrow> carries ''Audit'' ds \<or> no_stale (w_snapshot s) (w_current s)"
| "controller_ready ds (PluginsPart s) \<longleftrightarrow> carries ''Plugins'' ds \<or> no_stale (w_snapshot s) (w_current s)"
| "controller_ready ds (EmbeddedPart s) \<longleftrightarrow> carries ''EmbeddedServices'' ds \<or> no_stale (w_snapshot s) (w_current s)"
| "controller_ready ds GatePart \<longleftrightarrow> True"

lemma watch_revert_apply [simp]:
  "(watch_revert (watch_apply v s))\<lparr>w_snapshot := None\<rparr> = s\<lparr>w_snapshot := None\<rparr>"
  by (simp add: watch_revert_def watch_apply_def watch_send_def)

lemma watch_revert_no_stale:
  "no_stale (w_snapshot s) (w_current s) \<Longrightarrow> (watch_revert s)\<lparr>w_snapshot := None\<rparr> = s\<lparr>w_snapshot := None\<rparr>"
  by (auto simp: no_stale_def watch_revert_def watch_send_def)

lemma tls_revert_no_stale:
  "no_stale (tls_prior s) (tls_served s) \<Longrightarrow>
     (tls_revert s)\<lparr>tls_prior := None, tls_applied := None\<rparr> = s\<lparr>tls_prior := None, tls_applied := None\<rparr>"
  by (auto simp: no_stale_def tls_revert_def)

lemma tls_revert_apply:
  assumes "tls_apply boot new w = (Ok (), w')"
  shows "(tls_revert (wd_tls w'))\<lparr>tls_prior := None, tls_applied := None\<rparr> =
    (wd_tls w)\<lparr>tls_prior := None, tls_applied := None\<rparr>"
  using assms by (auto simp: tls_apply_def tls_revert_def split: if_splits sum.splits)

text \<open>With at most one delta of each variant, a subsystem applies at most one.\<close>

lemma erased_ignores:
  "\<forall>d\<in>set ds. variant d = None \<Longrightarrow>
     \<exists>ms'. apply_deltas env (reloadable_erased_impl ty variant) ds ms w = (Ok ms', w)"
  by (induction ds arbitrary: ms) (auto simp: reloadable_erased_impl_def)

definition selects :: "(runtime_config_delta \<Rightarrow> 'c option) \<Rightarrow> string \<Rightarrow> bool" where
  "selects variant tag \<longleftrightarrow> (\<forall>d. (variant d \<noteq> None) = (variant_tag d = tag))"

lemma erased_applies_one:
  assumes "distinct (map variant_tag ds)" "selects variant tag"
    and "apply_deltas env (reloadable_erased_impl ty variant) ds ms w = (res, w')"
  shows "\<not> carries tag ds \<and> is_ok res \<and> w' = w \<or>
    (\<exists>d c u. d \<in> set ds \<and> variant d = Some c \<and> carries tag ds \<and> ty_apply ty c w = (u, w') \<and> is_ok u = is_ok res)"
  using assms
proof (induction ds arbitrary: ms w)
  case Nil
  then show ?case by (auto simp: carries_def)
next
  case (Cons d ds)
  show ?case
  proof (cases "variant d")
    case None
    then have "variant_tag d \<noteq> tag" using Cons.prems(2) unfolding selects_def by blast
    moreover have "\<exists>ms1. apply_deltas env (reloadable_erased_impl ty variant) ds ms1 w = (res, w')"
      using Cons.prems(3) None by (auto simp: reloadable_erased_impl_def)
    ultimately show ?thesis using Cons.IH Cons.prems(1,2) by (fastforce simp: carries_def)
  next
    case (Some c)
    then have t: "variant_tag d = tag" using Cons.prems(2) unfolding selects_def by blast
    then have rest: "\<forall>x\<in>set ds. variant x = None"
      using Cons.prems(1,2) unfolding selects_def by (metis distinct.simps(2) image_eqI list.simps(9) set_map)
    obtain u w1 where u: "ty_apply ty c w = (u, w1)" by (meson surj_pair)
    have a: "rl_apply (reloadable_erased_impl ty variant) d w = (u, w1)" using Some u by (simp add: reloadable_erased_impl_def)
    have "w1 = w' \<and> is_ok u = is_ok res"
    proof (cases u)
      case (Inl e)
      then show ?thesis using Cons.prems(3) a by auto
    next
      case (Inr x)
      then obtain ms1 where "apply_deltas env (reloadable_erased_impl ty variant) ds ms1 w1 = (res, w')"
        using Cons.prems(3) a by auto
      then show ?thesis using erased_ignores[OF rest, of env ty ms1 w1] Inr by auto
    qed
    then show ?thesis using Some t u by (intro disjI2 exI[of _ d] exI[of _ c] exI[of _ u]) (auto simp: carries_def)
  qed
qed

fun as_plugins :: "runtime_config_delta \<Rightarrow> plugins_config option" where
  "as_plugins (DeltaPlugins c) = Some c" | "as_plugins _ = None"

definition plugin_typed :: "(world, plugins_config) typed_reloadable" where
  "plugin_typed =
     \<lparr>ty_name = ''plugin_catalog'', ty_validate = (\<lambda>new w. Ok ()),
      ty_apply = (\<lambda>new w. (Ok (), w\<lparr>wd_plugins := watch_apply new (wd_plugins w)\<rparr>)),
      ty_revert = (\<lambda>w. (Ok (), w\<lparr>wd_plugins := watch_revert (wd_plugins w)\<rparr>)),
      ty_health_check = (\<lambda>w. (Ok (), took ''plugin_catalog'' w)), ty_rollback_window = WATCHDOG_PLUGINS\<rparr>"

lemma plugin_erased: "PluginCatalogReloadable = reloadable_erased_impl plugin_typed as_plugins"
  unfolding PluginCatalogReloadable_def reloadable_erased_impl_def plugin_typed_def
  by (auto simp: fun_eq_iff split: runtime_config_delta.split option.split)

lemma variants_select:
  "selects as_db ''Db''" "selects as_tls ''Tls''" "selects as_network ''Network''" "selects as_audit ''Audit''"
  "selects as_zeroconf ''Zeroconf''" "selects as_embedded ''EmbeddedServices''" "selects as_nats ''Nats''"
  "selects as_plugins ''Plugins''"
  unfolding selects_def by (rule allI, rename_tac d, case_tac d; simp)+

text \<open>A typed subsystem whose operations act only on its own part, and whose revert undoes its apply.\<close>

definition well_behaved :: "(world, 'c) typed_reloadable \<Rightarrow> string \<Rightarrow> bool" where
  "well_behaved ty tag \<longleftrightarrow>
     (\<forall>c w n. n \<noteq> ty_name ty \<longrightarrow> controller_part n (snd (ty_apply ty c w)) = controller_part n w) \<and>
     (\<forall>w n. n \<noteq> ty_name ty \<longrightarrow> controller_part n (snd (ty_revert ty w)) = controller_part n w) \<and>
     (\<forall>w. fst (ty_revert ty w) = Ok ()) \<and>
     (\<forall>w w'. controller_part (ty_name ty) w = controller_part (ty_name ty) w' \<longrightarrow>
        controller_part (ty_name ty) (snd (ty_revert ty w)) = controller_part (ty_name ty) (snd (ty_revert ty w'))) \<and>
     (\<forall>c w w'. ty_apply ty c w = (Ok (), w') \<longrightarrow>
        controller_shown (controller_part (ty_name ty) (snd (ty_revert ty w'))) = controller_shown (controller_part (ty_name ty) w)) \<and>
     (\<forall>c w e w'. ty_apply ty c w = (Err e, w') \<longrightarrow> w' = w) \<and>
     (\<forall>ds w. \<not> carries tag ds \<longrightarrow> controller_ready ds (controller_part (ty_name ty) w) \<longrightarrow>
        controller_shown (controller_part (ty_name ty) (snd (ty_revert ty w))) = controller_shown (controller_part (ty_name ty) w))"

lemma controller_part_simps [simp]:
  "controller_part ''db_pool'' w = DbPart (wd_db w)" "controller_part ''tls_snapshot'' w = TlsPart (wd_tls w)"
  "controller_part ''audit_dispatcher'' w = AuditPart (wd_audit w)"
  "controller_part ''plugin_catalog'' w = PluginsPart (wd_plugins w)"
  "controller_part ''embedded_services'' w = EmbeddedPart (wd_embedded w)"
  "controller_part ''https_listener'' w = GatePart" "controller_part ''pki_listener'' w = GatePart"
  "controller_part ''zeroconf'' w = GatePart" "controller_part ''nats'' w = GatePart"
  by (simp_all add: controller_part_def)

lemma controller_part_frame:
  "n \<noteq> ''db_pool'' \<Longrightarrow> controller_part n (w\<lparr>wd_db := a\<rparr>) = controller_part n w"
  "n \<noteq> ''tls_snapshot'' \<Longrightarrow> controller_part n (w\<lparr>wd_tls := t\<rparr>) = controller_part n w"
  "n \<noteq> ''audit_dispatcher'' \<Longrightarrow> controller_part n (w\<lparr>wd_audit := u\<rparr>) = controller_part n w"
  "n \<noteq> ''plugin_catalog'' \<Longrightarrow> controller_part n (w\<lparr>wd_plugins := p\<rparr>) = controller_part n w"
  "n \<noteq> ''embedded_services'' \<Longrightarrow> controller_part n (w\<lparr>wd_embedded := e\<rparr>) = controller_part n w"
  by (simp_all add: controller_part_def)

lemma db_well_behaved: "well_behaved (DbPoolReloadable b) ''Db''"
  unfolding well_behaved_def DbPoolReloadable_def typed_reloadable.simps
  by (intro conjI allI impI)
    (auto simp: controller_part_frame watch_revert_no_stale split: sum.splits)

lemma tls_apply_cases:
  "tls_apply boot new w = (Err e, w') \<Longrightarrow> w' = w"
  "n \<noteq> ''tls_snapshot'' \<Longrightarrow> controller_part n (snd (tls_apply boot new w)) = controller_part n w"
  by (auto simp: tls_apply_def controller_part_frame split: sum.splits if_splits)

lemma tls_well_behaved: "well_behaved (TlsSnapshotReloadable b) ''Tls''"
  unfolding well_behaved_def TlsSnapshotReloadable_def typed_reloadable.simps
  by (intro conjI allI impI)
    (simp_all add: controller_part_frame tls_revert_no_stale tls_revert_apply tls_apply_cases)

lemma gate_well_behaved: "controller_part name = (\<lambda>_. GatePart) \<Longrightarrow> well_behaved (gate name v window) tag"
  unfolding well_behaved_def gate_def typed_reloadable.simps by simp

lemma watched_well_behaved:
  "well_behaved AuditDispatcherReloadable ''Audit''" "well_behaved plugin_typed ''Plugins''"
  "well_behaved (EmbeddedServicesReloadable b) ''EmbeddedServices''"
  unfolding well_behaved_def AuditDispatcherReloadable_def plugin_typed_def EmbeddedServicesReloadable_def
    typed_reloadable.simps
  by (intro conjI allI impI; auto simp: controller_part_frame watch_revert_no_stale)+

lemma gates_well_behaved:
  "well_behaved (HttpsListenerReloadable b) tag" "well_behaved (PkiListenerReloadable b) tag"
  "well_behaved (ZeroconfReloadable b) tag" "well_behaved (NatsReloadable b) tag"
  unfolding HttpsListenerReloadable_def PkiListenerReloadable_def ZeroconfReloadable_def NatsReloadable_def
  by (rule gate_well_behaved, simp add: fun_eq_iff)+

text \<open>The laws of the contract, for one erased subsystem.\<close>

lemma erased_sel [simp]:
  "rl_name (reloadable_erased_impl ty variant) = ty_name ty"
  "rl_revert (reloadable_erased_impl ty variant) = ty_revert ty"
  by (simp_all add: reloadable_erased_impl_def)

definition lawful :: "world reloadable \<Rightarrow> bool" where
  "lawful r \<longleftrightarrow>
     (\<forall>d w n. n \<noteq> rl_name r \<longrightarrow> controller_part n (snd (rl_apply r d w)) = controller_part n w) \<and>
     (\<forall>w n. n \<noteq> rl_name r \<longrightarrow> controller_part n (snd (rl_revert r w)) = controller_part n w) \<and>
     (\<forall>w. fst (rl_revert r w) = Ok ()) \<and>
     (\<forall>w w'. controller_part (rl_name r) w = controller_part (rl_name r) w' \<longrightarrow>
        controller_part (rl_name r) (snd (rl_revert r w)) = controller_part (rl_name r) (snd (rl_revert r w'))) \<and>
     (\<forall>env ds ms w ms' w'. distinct (map variant_tag ds) \<longrightarrow> controller_ready ds (controller_part (rl_name r) w) \<longrightarrow>
        apply_deltas env r ds ms w = (Ok ms', w') \<longrightarrow>
        controller_shown (controller_part (rl_name r) (snd (rl_revert r w'))) = controller_shown (controller_part (rl_name r) w)) \<and>
     (\<forall>env ds ms w e w'. distinct (map variant_tag ds) \<longrightarrow> apply_deltas env r ds ms w = (Err e, w') \<longrightarrow> w' = w)"

lemma erased_lawful:
  assumes wb: "well_behaved ty tag" and sel: "selects variant tag"
  shows "lawful (reloadable_erased_impl ty variant)"
proof -
  let ?r = "reloadable_erased_impl ty variant" and ?n = "ty_name ty"
  note w = wb[unfolded well_behaved_def]
  have frame: "controller_part n (snd (rl_apply ?r d w)) = controller_part n w" if "n \<noteq> ?n" for d w n
    using w that by (auto simp: reloadable_erased_impl_def split: option.split)
  have restores: "controller_shown (controller_part ?n (snd (ty_revert ty w'))) = controller_shown (controller_part ?n w)"
    if "distinct (map variant_tag ds)" "controller_ready ds (controller_part ?n w)" "apply_deltas env ?r ds ms w = (Ok ms', w')"
    for env ds ms w ms' w'
  proof -
    from erased_applies_one[OF that(1) sel that(3)] consider
        "\<not> carries tag ds" "w' = w" | c u where "ty_apply ty c w = (u, w')" "is_ok u"
      by auto
    then show ?thesis
    proof cases
      case 1
      then show ?thesis using w that(2) by blast
    next
      case 2
      then have "ty_apply ty c w = (Ok (), w')" by (auto simp: is_ok_iff)
      then show ?thesis using w by blast
    qed
  qed
  have failing: "w' = w" if "distinct (map variant_tag ds)" "apply_deltas env ?r ds ms w = (Err e, w')" for env ds ms w e w'
  proof -
    from erased_applies_one[OF that(1) sel that(2)] obtain c u where "ty_apply ty c w = (u, w')" "\<not> is_ok u" by auto
    then obtain e' where "ty_apply ty c w = (Err e', w')" by (cases u) auto
    then show ?thesis using w by blast
  qed
  show ?thesis unfolding lawful_def erased_sel
  proof (intro conjI)
    show "\<forall>d w n. n \<noteq> ?n \<longrightarrow> controller_part n (snd (rl_apply ?r d w)) = controller_part n w"
      by (intro allI impI) (rule frame)
    show "\<forall>env ds ms w ms' w'. distinct (map variant_tag ds) \<longrightarrow> controller_ready ds (controller_part ?n w) \<longrightarrow>
        apply_deltas env ?r ds ms w = (Ok ms', w') \<longrightarrow>
        controller_shown (controller_part ?n (snd (ty_revert ty w'))) = controller_shown (controller_part ?n w)"
      by (intro allI impI) (rule restores)
    show "\<forall>env ds ms w e w'. distinct (map variant_tag ds) \<longrightarrow> apply_deltas env ?r ds ms w = (Err e, w') \<longrightarrow> w' = w"
      by (intro allI impI) (rule failing)
  qed (rule w[THEN conjunct2, THEN conjunct1] w[THEN conjunct2, THEN conjunct2, THEN conjunct1]
    w[THEN conjunct2, THEN conjunct2, THEN conjunct2, THEN conjunct1])+
qed

lemmas controller_subsystems_lawful =
  erased_lawful[OF db_well_behaved variants_select(1)] erased_lawful[OF tls_well_behaved variants_select(2)]
  erased_lawful[OF gates_well_behaved(1) variants_select(3)] erased_lawful[OF gates_well_behaved(2) variants_select(3)]
  erased_lawful[OF watched_well_behaved(1) variants_select(4)] erased_lawful[OF gates_well_behaved(3) variants_select(5)]
  erased_lawful[OF watched_well_behaved(2) variants_select(8)] erased_lawful[OF watched_well_behaved(3) variants_select(6)]
  erased_lawful[OF gates_well_behaved(4) variants_select(7)]

lemma controller_lawful: "r \<in> set (controller_reloadables nf b) \<Longrightarrow> lawful r"
  unfolding controller_reloadables_def plugin_erased
  by (auto simp: controller_subsystems_lawful split: if_splits)

lemma controller_names:
  "map rl_name (controller_reloadables nf b) =
     [''db_pool'', ''tls_snapshot'', ''https_listener'', ''pki_listener'', ''audit_dispatcher'', ''zeroconf'',
      ''plugin_catalog'', ''embedded_services''] @ (if nf then [''nats''] else [])"
  by (simp add: controller_reloadables_def DbPoolReloadable_def TlsSnapshotReloadable_def HttpsListenerReloadable_def
      PkiListenerReloadable_def AuditDispatcherReloadable_def ZeroconfReloadable_def PluginCatalogReloadable_def
      EmbeddedServicesReloadable_def NatsReloadable_def gate_def)

interpretation controller: rollback_contract "controller_reloadables nf b" controller_part controller_shown controller_ready
  for nf b
proof unfold_locales
  show "distinct (map rl_name (controller_reloadables nf b))" by (simp add: controller_names)
qed (use controller_lawful[of _ nf b] in \<open>(unfold lawful_def, metis)+\<close>)

section \<open>What a reload does to the controller\<close>

text \<open>What the rest of the controller reads: the pool, the certificate and the published sections.\<close>

definition in_use :: "world \<Rightarrow> pool \<times> certified_key \<times> audit_config \<times> plugins_config \<times> embedded_config" where
  "in_use w = (w_current (wd_db w), tls_served (wd_tls w), w_current (wd_audit w), w_current (wd_plugins w),
     w_current (wd_embedded w))"

lemma in_use_shown:
  assumes "\<forall>r\<in>set (controller_reloadables nf b).
    controller_shown (controller_part (rl_name r) w') = controller_shown (controller_part (rl_name r) w)"
  shows "in_use w' = in_use w"
proof -
  have "\<forall>n\<in>set (map rl_name (controller_reloadables nf b)).
      controller_shown (controller_part n w') = controller_shown (controller_part n w)"
    using assms by simp
  then have e: "(wd_db w')\<lparr>w_snapshot := None\<rparr> = (wd_db w)\<lparr>w_snapshot := None\<rparr>"
    "(wd_tls w')\<lparr>tls_prior := None, tls_applied := None\<rparr> = (wd_tls w)\<lparr>tls_prior := None, tls_applied := None\<rparr>"
    "(wd_audit w')\<lparr>w_snapshot := None\<rparr> = (wd_audit w)\<lparr>w_snapshot := None\<rparr>"
    "(wd_plugins w')\<lparr>w_snapshot := None\<rparr> = (wd_plugins w)\<lparr>w_snapshot := None\<rparr>"
    "(wd_embedded w')\<lparr>w_snapshot := None\<rparr> = (wd_embedded w)\<lparr>w_snapshot := None\<rparr>"
    unfolding controller_names by simp_all
  show ?thesis using e(1)[THEN arg_cong[where f = w_current]]
      e(2)[THEN arg_cong[where f = tls_served]] e(3)[THEN arg_cong[where f = w_current]]
      e(4)[THEN arg_cong[where f = w_current]] e(5)[THEN arg_cong[where f = w_current]]
    by (simp add: in_use_def)
qed

text \<open>C21. A reload that fails, whether in validation, while it is applied or in the health checks, leaves
  the controller as it was: the same pool, certificate and sections are in use, the configuration
  in force is the old one, and the coordinator is idle. This needs every value stashed by an earlier
  cycle to be current or to be stashed anew.\<close>

theorem failed_reload_rolls_back:
  assumes "file_request ro source co path new" "co_reloadables co = controller_reloadables nf b"
    and "\<forall>n. controller_ready (build_deltas (co_current_config co) new) (controller_part n (co_world co))"
    and "last (co_audit (handle_request ro env source co)) = Failed phase sub e"
  shows "in_use (co_world (handle_request ro env source co)) = in_use (co_world co) \<and>
    co_current_config (handle_request ro env source co) = co_current_config co \<and>
    co_state (handle_request ro env source co) = Idle"
proof -
  let ?ds = "build_deltas (co_current_config co) new" and ?co = "accepted source path co"
  obtain res c where r: "run_cycle env ?ds ?co = (res, c)" by (meson surj_pair)
  have "\<not> is_ok res" using assms(4) r unfolding handle_file_request[OF assms(1)] by (cases res) auto
  then obtain e' where e': "res = Err e'" by (cases res) auto
  have "co_state c = Reloading \<and> (\<forall>r\<in>set (controller_reloadables nf b).
      controller_shown (controller_part (rl_name r) (co_world c)) = controller_shown (controller_part (rl_name r) (co_world co)))"
    using controller.failed_cycle_restores[OF _ build_deltas_tags _ r[unfolded e'], of nf b] assms(2,3) by simp
  moreover have "co_current_config c = co_current_config co" using run_cycle_kept[OF r] by simp
  ultimately show ?thesis
    using r e' in_use_shown[of nf b "co_world c" "co_world co"] unfolding handle_file_request[OF assms(1)] by simp
qed

lemma process_request_keeps:
  assumes "co_reloadables co = controller_reloadables nf b"
  shows "co_reloadables (snd (process_request ro env source co)) = co_reloadables co \<and>
    co_state (snd (process_request ro env source co)) = co_state co"
proof -
  have c: "co_reloadables c' = co_reloadables c \<and> co_state c' = co_state c"
    if "run_cycle env ds c = (res, c')" "co_reloadables c = controller_reloadables nf b" for c ds res c'
    using controller.cycle_keeps_state[of c nf b env ds] run_cycle_kept[OF that(1)] that by simp
  have snd_c: "co_reloadables (snd (run_cycle env ds co)) = co_reloadables co \<and> co_state (snd (run_cycle env ds co)) = co_state co"
    for ds using c[of ds co] assms by (cases "run_cycle env ds co") simp
  show ?thesis using assms
    unfolding process_request_def process_file_request_def Let_def
    by (auto simp: snd_c split: reload_source.split option.split sum.split reexec_outcome.split prod.split dest!: c)
qed

lemma controller_request_keeps:
  assumes "co_reloadables co = controller_reloadables nf b" "co_state co = Idle"
  shows "co_reloadables (handle_request ro env source co) = controller_reloadables nf b \<and>
    co_state (handle_request ro env source co) = Idle \<and>
    (\<forall>s r. Refused s r \<in> set (co_audit (handle_request ro env source co)) \<longrightarrow> Refused s r \<in> set (co_audit co))"
proof -
  let ?c = "send_audit (Requested source) (co\<lparr>co_state := Reloading\<rparr>)"
  obtain res c where p: "process_request ro env source ?c = (res, c)" by (meson surj_pair)
  have "co_reloadables c = controller_reloadables nf b \<and> co_state c = Reloading"
    using process_request_keeps[of ?c nf b ro env source] p assms by simp
  then show ?thesis using process_request_audit[OF p] p assms unfolding handle_request_def by (cases res) auto
qed

text \<open>C22. The controller never enters Degraded: whatever requests arrive and whatever happens outside, an
  idle coordinator is idle after each of them, and none is refused.\<close>

theorem controller_never_degrades:
  assumes "co_reloadables co = controller_reloadables nf b" "co_state co = Idle"
  shows "co_state (run reqs co) = Idle \<and>
    (\<forall>source reason. Refused source reason \<in> set (co_audit (run reqs co)) \<longrightarrow> Refused source reason \<in> set (co_audit co))"
  using assms
proof (induction reqs arbitrary: co)
  case (Cons req reqs)
  obtain change ro env source where req: "req = (change, ro, env, source)" by (metis prod_cases4)
  let ?co = "co\<lparr>co_world := change (co_world co)\<rparr>"
  let ?h = "handle_request ro env source ?co"
  have "co_reloadables ?h = controller_reloadables nf b \<and> co_state ?h = Idle \<and>
      (\<forall>s r. Refused s r \<in> set (co_audit ?h) \<longrightarrow> Refused s r \<in> set (co_audit co))"
    using controller_request_keeps[of ?co nf b ro env source] Cons.prems by simp
  then show ?case using Cons.IH[of ?h] req by auto
qed simp

subsection \<open>Reloads that succeed\<close>

lemma apply_phase_Ok_Cons:
  "apply_phase env ds (r # rs) applied ms w = (Ok p, w') \<longleftrightarrow>
     (\<exists>ms1 w1. apply_deltas env r ds ms w = (Ok ms1, w1) \<and> apply_phase env ds rs (applied @ [r]) ms1 w1 = (Ok p, w'))"
  by (auto split: prod.split sum.split)

lemma build_deltas_selected:
  assumes "d \<in> set (build_deltas prior new)"
  shows "as_db d = Some c \<Longrightarrow> c = cfg_db new" "as_tls d = Some t \<Longrightarrow> t = cfg_tls new"
    "as_audit d = Some a \<Longrightarrow> a = cfg_audit new" "as_plugins d = None" "as_embedded d = None"
  using assms unfolding build_deltas_cases by auto

lemma build_delta_tags:
  "map variant_tag (build_deltas prior new) =
     (if cfg_db prior \<noteq> cfg_db new then [''Db''] else []) @ (if cfg_network prior \<noteq> cfg_network new then [''Network''] else []) @
     (if cfg_nats prior \<noteq> cfg_nats new then [''Nats''] else []) @ (if cfg_tls prior \<noteq> cfg_tls new then [''Tls''] else []) @
     (if cfg_audit prior \<noteq> cfg_audit new then [''Audit''] else []) @ (if cfg_zeroconf prior \<noteq> cfg_zeroconf new then [''Zeroconf''] else [])"
  unfolding build_deltas_def map_append by (simp only: if_distrib[of "map variant_tag"] list.map variant_tag.simps)

lemma build_deltas_carries:
  "carries ''Db'' (build_deltas prior new) \<longleftrightarrow> cfg_db prior \<noteq> cfg_db new"
  "carries ''Tls'' (build_deltas prior new) \<longleftrightarrow> cfg_tls prior \<noteq> cfg_tls new"
  "carries ''Audit'' (build_deltas prior new) \<longleftrightarrow> cfg_audit prior \<noteq> cfg_audit new"
  "\<not> carries ''Plugins'' (build_deltas prior new)" "\<not> carries ''EmbeddedServices'' (build_deltas prior new)"
  unfolding carries_def set_map[symmetric] build_delta_tags by simp_all

text \<open>One step of a completed apply phase.\<close>

lemma applied_step:
  assumes "apply_deltas env (reloadable_erased_impl ty variant) (build_deltas prior new) ms w = (Ok ms', w')"
    and "selects variant tag" "\<And>d c. d \<in> set (build_deltas prior new) \<Longrightarrow> variant d = Some c \<Longrightarrow> c = cfg"
  shows "if carries tag (build_deltas prior new) then ty_apply ty cfg w = (Ok (), w') else w' = w"
proof -
  from erased_applies_one[OF build_deltas_tags assms(2,1)] consider
      "\<not> carries tag (build_deltas prior new)" "w' = w"
    | d c u where "d \<in> set (build_deltas prior new)" "variant d = Some c" "carries tag (build_deltas prior new)"
        "ty_apply ty c w = (u, w')" "is_ok u"
    by auto
  then show ?thesis
  proof cases
    case 2
    then have "c = cfg" "u = Ok ()" using assms(3) by (auto simp: is_ok_iff)
    then show ?thesis using 2 by simp
  qed simp
qed

lemma gate_step:
  assumes "apply_deltas env (reloadable_erased_impl (gate name v window) variant) ds ms w = (Ok ms', w')"
  shows "w' = w"
  using assms by (induction ds arbitrary: ms) (auto simp: reloadable_erased_impl_def gate_def split: option.splits)

definition db_after :: "runtime_config \<Rightarrow> runtime_config \<Rightarrow> world \<Rightarrow> pool watched \<Rightarrow> bool" where
  "db_after prior new w s \<longleftrightarrow>
     (if cfg_db prior \<noteq> cfg_db new
      then \<exists>pool. ext_connect (wd_outside w) (cfg_db new) = Ok pool \<and> s = watch_apply pool (wd_db w)
      else s = wd_db w)"

definition tls_after :: "boot_values \<Rightarrow> runtime_config \<Rightarrow> runtime_config \<Rightarrow> world \<Rightarrow> tls_state \<Rightarrow> bool" where
  "tls_after b prior new w s \<longleftrightarrow>
     (if cfg_tls prior \<noteq> cfg_tls new
      then \<exists>w'. tls_apply (boot_tls b) (cfg_tls new) w = (Ok (), w') \<and> s = wd_tls w'
      else s = wd_tls w)"

definition audit_after :: "runtime_config \<Rightarrow> runtime_config \<Rightarrow> world \<Rightarrow> audit_config watched" where
  "audit_after prior new w = (if cfg_audit prior \<noteq> cfg_audit new then watch_apply (cfg_audit new) (wd_audit w) else wd_audit w)"

lemma tls_apply_world: "tls_apply boot new w = (res, w') \<Longrightarrow> w' = w\<lparr>wd_tls := wd_tls w'\<rparr>"
  by (auto simp: tls_apply_def split: if_splits sum.splits)

lemma tls_apply_db: "tls_apply boot new (w\<lparr>wd_db := s\<rparr>) = (case tls_apply boot new w of (r, w') \<Rightarrow> (r, w'\<lparr>wd_db := s\<rparr>))"
  by (simp add: tls_apply_def split: sum.split)

lemma nats_phase_world:
  assumes "apply_phase env ds (if nf then [reloadable_erased_impl (NatsReloadable b) as_nats] else []) applied ms w = (Ok p, w')"
  shows "w' = w"
proof (cases nf)
  case True
  then have "apply_phase env ds [reloadable_erased_impl (NatsReloadable b) as_nats] applied ms w = (Ok p, w')" using assms by simp
  then obtain m where "apply_deltas env (reloadable_erased_impl (NatsReloadable b) as_nats) ds ms w = (Ok m, w')"
    unfolding apply_phase_Ok_Cons by auto
  then show ?thesis unfolding NatsReloadable_def by (rule gate_step)
qed (use assms in simp)

lemma tls_step_after:
  assumes "if cfg_tls prior \<noteq> cfg_tls new then ty_apply (TlsSnapshotReloadable b) (cfg_tls new) w1 = (Ok (), w2) else w2 = w1"
    and w1: "w1 = w\<lparr>wd_db := sd\<rparr>"
  shows "\<exists>st. tls_after b prior new w st \<and> w2 = w1\<lparr>wd_tls := st\<rparr>"
proof (cases "cfg_tls prior = cfg_tls new")
  case True
  then show ?thesis using assms by (intro exI[of _ "wd_tls w"]) (simp add: tls_after_def)
next
  case False
  then have t: "tls_apply (boot_tls b) (cfg_tls new) w1 = (Ok (), w2)" using assms(1) by (simp add: TlsSnapshotReloadable_def)
  then obtain v where v: "tls_apply (boot_tls b) (cfg_tls new) w = (Ok (), v)" "w2 = v\<lparr>wd_db := sd\<rparr>"
    unfolding w1 tls_apply_db by (auto split: prod.splits)
  have "tls_after b prior new w (wd_tls v)" using v(1) False by (auto simp: tls_after_def)
  moreover have "w2 = w1\<lparr>wd_tls := wd_tls v\<rparr>" using tls_apply_world[OF t] v(2) by simp
  ultimately show ?thesis by blast
qed

lemma applied_world:
  assumes "apply_phase env (build_deltas prior new) (controller_reloadables nf b) applied ms w = (Ok p, w')"
  shows "\<exists>sd st. db_after prior new w sd \<and> tls_after b prior new w st \<and>
    w' = w\<lparr>wd_db := sd, wd_tls := st, wd_audit := audit_after prior new w\<rparr>"
proof -
  let ?ds = "build_deltas prior new"
  from assms obtain m1 w1 m2 w2 m3 w3 m4 w4 m5 w5 m6 w6 m7 w7 m8 w8 a where
    s1: "apply_deltas env (reloadable_erased_impl (DbPoolReloadable b) as_db) ?ds ms w = (Ok m1, w1)" and
    s2: "apply_deltas env (reloadable_erased_impl (TlsSnapshotReloadable b) as_tls) ?ds m1 w1 = (Ok m2, w2)" and
    s3: "apply_deltas env (reloadable_erased_impl (HttpsListenerReloadable b) as_network) ?ds m2 w2 = (Ok m3, w3)" and
    s4: "apply_deltas env (reloadable_erased_impl (PkiListenerReloadable b) as_network) ?ds m3 w3 = (Ok m4, w4)" and
    s5: "apply_deltas env (reloadable_erased_impl AuditDispatcherReloadable as_audit) ?ds m4 w4 = (Ok m5, w5)" and
    s6: "apply_deltas env (reloadable_erased_impl (ZeroconfReloadable b) as_zeroconf) ?ds m5 w5 = (Ok m6, w6)" and
    s7: "apply_deltas env (reloadable_erased_impl plugin_typed as_plugins) ?ds m6 w6 = (Ok m7, w7)" and
    s8: "apply_deltas env (reloadable_erased_impl (EmbeddedServicesReloadable b) as_embedded) ?ds m7 w7 = (Ok m8, w8)" and
    s9: "apply_phase env ?ds (if nf then [reloadable_erased_impl (NatsReloadable b) as_nats] else []) a m8 w8 = (Ok p, w')"
    unfolding controller_reloadables_def plugin_erased append_Cons append_Nil apply_phase_Ok_Cons by blast
  have e34: "w3 = w2" "w4 = w3" "w6 = w5"
    using s3 s4 s6 unfolding HttpsListenerReloadable_def PkiListenerReloadable_def ZeroconfReloadable_def
    by (simp_all add: gate_step)
  have e9: "w' = w8" using s9 by (rule nats_phase_world)
  have e1: "if cfg_db prior \<noteq> cfg_db new then ty_apply (DbPoolReloadable b) (cfg_db new) w = (Ok (), w1) else w1 = w"
    using applied_step[OF s1 variants_select(1), of "cfg_db new"] build_deltas_selected(1) unfolding build_deltas_carries by blast
  have e2: "if cfg_tls prior \<noteq> cfg_tls new then ty_apply (TlsSnapshotReloadable b) (cfg_tls new) w1 = (Ok (), w2) else w2 = w1"
    using applied_step[OF s2 variants_select(2), of "cfg_tls new"] build_deltas_selected(2) unfolding build_deltas_carries by blast
  have e5: "if cfg_audit prior \<noteq> cfg_audit new then ty_apply AuditDispatcherReloadable (cfg_audit new) w4 = (Ok (), w5) else w5 = w4"
    using applied_step[OF s5 variants_select(4), of "cfg_audit new"] build_deltas_selected(3) unfolding build_deltas_carries by blast
  have e7: "w7 = w6" using erased_applies_one[OF build_deltas_tags variants_select(8) s7] build_deltas_carries(4) by blast
  have e8: "w8 = w7" using erased_applies_one[OF build_deltas_tags variants_select(6) s8] build_deltas_carries(5) by blast
  obtain sd where sd: "db_after prior new w sd" "w1 = w\<lparr>wd_db := sd\<rparr>"
    using e1 by (auto simp: db_after_def DbPoolReloadable_def split: if_splits sum.splits)
  have "\<exists>st. tls_after b prior new w st \<and> w2 = w1\<lparr>wd_tls := st\<rparr>" using tls_step_after[OF e2 sd(2)] .
  then obtain st where st: "tls_after b prior new w st" "w2 = w1\<lparr>wd_tls := st\<rparr>" by blast
  have "w5 = w4\<lparr>wd_audit := audit_after prior new w4\<rparr>"
    using e5 by (auto simp: AuditDispatcherReloadable_def audit_after_def split: if_splits)
  then show ?thesis using sd st e7 e8 e9 e34 by (intro exI[of _ sd] exI[of _ st]) (simp add: audit_after_def)
qed

text \<open>The timings name every subsystem, whether or not the change concerned it.\<close>

lemma apply_deltas_dom:
  "apply_deltas env r ds ms w = (Ok ms', w') \<Longrightarrow> dom ms' = dom ms \<union> (if ds = [] then {} else {rl_name r})"
proof (induction ds arbitrary: ms w)
  case (Cons d ds)
  then obtain w1 where "apply_deltas env r ds (add_time (rl_name r) (millis (ce_apply_ms env (rl_name r) d)) ms) w1 = (Ok ms', w')"
    by (auto split: prod.splits sum.splits)
  from Cons.IH[OF this] show ?case by (auto simp: add_time_def split: if_splits)
qed simp

lemma apply_phase_dom:
  assumes "apply_phase env ds rs applied ms w = (Ok (done, ms'), w')" "ds \<noteq> []"
  shows "done = applied @ rs \<and> dom ms' = dom ms \<union> rl_name ` set rs"
  using assms
proof (induction rs arbitrary: applied ms w)
  case (Cons r rs)
  then obtain ms1 w1 where s: "apply_deltas env r ds ms w = (Ok ms1, w1)" "apply_phase env ds rs (applied @ [r]) ms1 w1 = (Ok (done, ms'), w')"
    unfolding apply_phase_Ok_Cons by blast
  show ?case using Cons.IH[OF s(2) Cons.prems(2)] apply_deltas_dom[OF s(1)] Cons.prems(2) by auto
qed simp

lemma watchdog_dom: "watchdog_loop rs ms w = Ok ms' \<Longrightarrow> dom ms' = dom ms"
proof (induction rs arbitrary: ms)
  case (Cons r rs)
  then obtain m where "watchdog_loop rs (modify_time (rl_name r) m ms) w = Ok ms'"
    by (auto split: prod.splits sum.splits if_splits)
  from Cons.IH[OF this] show ?case by (auto simp: modify_time_def split: option.splits if_splits)
qed simp

lemma run_cycle_Ok:
  assumes "run_cycle env ds co = (Ok ms, co')" "ds \<noteq> []"
  shows "\<exists>applied m w. apply_phase env ds (co_reloadables co) [] Map.empty (co_world co) = (Ok (applied, m), w) \<and>
    co' = co\<lparr>co_world := w\<rparr> \<and> dom ms = rl_name ` set (co_reloadables co)"
proof -
  obtain applied m w where a: "apply_phase env ds (co_reloadables co) [] Map.empty (co_world co) = (Ok (applied, m), w)"
      "watchdog_phase env applied m w = Ok ms" "co' = co\<lparr>co_world := w\<rparr>"
    using assms(1) unfolding run_cycle_def apply_and_watch_phase_def by (auto split: sum.splits prod.splits)
  then show ?thesis using apply_phase_dom[OF a(1) assms(2)] watchdog_dom[OF a(2)[unfolded watchdog_phase_def]] by auto
qed

lemma successful_file_request:
  assumes f: "file_request ro source co path new" and subs: "co_reloadables co = controller_reloadables nf b"
    and ok: "last (co_audit (handle_request ro env source co)) = Applied names ms source'"
  shows "\<exists>sd st. db_after (co_current_config co) new (co_world co) sd \<and> tls_after b (co_current_config co) new (co_world co) st \<and>
    co_world (handle_request ro env source co) = (co_world co)\<lparr>wd_db := sd, wd_tls := st,
      wd_audit := audit_after (co_current_config co) new (co_world co)\<rparr> \<and>
    co_current_config (handle_request ro env source co) = new \<and> co_state (handle_request ro env source co) = Idle \<and>
    co_reloadables (handle_request ro env source co) = co_reloadables co \<and>
    co_config_path (handle_request ro env source co) = co_config_path co \<and>
    names = btree_iter (set (map rl_name (co_reloadables co)))"
proof -
  let ?ds = "build_deltas (co_current_config co) new"
  have ne: "?ds \<noteq> []" using f by (simp add: file_request_def)
  obtain ms1 c where r: "run_cycle env ?ds (accepted source path co) = (Ok ms1, c)"
    using ok unfolding handle_file_request[OF f] by (auto split: prod.splits sum.splits)
  from run_cycle_Ok[OF r ne] obtain applied m w where
    a: "apply_phase env ?ds (controller_reloadables nf b) [] Map.empty (co_world co) = (Ok (applied, m), w)"
      "c = (accepted source path co)\<lparr>co_world := w\<rparr>" "dom ms1 = rl_name ` set (co_reloadables co)"
    using subs by auto
  have h: "handle_request ro env source co =
      send_audit (Applied (btree_iter (dom ms1)) ms1 source) (c\<lparr>co_current_config := new, co_state := Idle\<rparr>)"
    unfolding handle_file_request[OF f] r by simp
  then have "names = btree_iter (set (map rl_name (co_reloadables co)))" using ok a(3) by simp
  moreover have "co_world (handle_request ro env source co) = w" "co_current_config (handle_request ro env source co) = new"
    "co_state (handle_request ro env source co) = Idle" "co_reloadables (handle_request ro env source co) = co_reloadables co"
    "co_config_path (handle_request ro env source co) = co_config_path co"
    unfolding h a(2) by simp_all
  ultimately show ?thesis using applied_world[OF a(1)] by auto
qed

text \<open>C23. What a reload that succeeds changes in the process, as long as the channels have receivers: a pool
  opened with the new settings when the database section differs from the configuration before, the
  certificate at the new paths when the TLS section differs from it and its paths differ from those of
  the boot, the new audit settings when that section differs. Nothing else in the process changes:
  new trusted proxies, header names or alternative names, and certificate paths set back to those of
  the boot, are accepted without effect. All the same the whole file becomes the configuration the
  next change is compared with, and the success is recorded under the names of all subsystems.\<close>

theorem successful_reload_publishes:
  assumes "file_request ro source co path new" "co_reloadables co = controller_reloadables nf b"
    and "last (co_audit (handle_request ro env source co)) = Applied names ms source'"
    and "w_receivers (wd_db (co_world co))" "w_receivers (wd_audit (co_world co))"
    and "prior = co_current_config co" "w = co_world co" "co' = handle_request ro env source co"
  shows "co_current_config co' = new \<and> co_state co' = Idle \<and> names = btree_iter (set (map rl_name (co_reloadables co))) \<and>
    (if cfg_db prior \<noteq> cfg_db new then ext_connect (wd_outside w) (cfg_db new) = Ok (w_current (wd_db (co_world co')))
     else w_current (wd_db (co_world co')) = w_current (wd_db w)) \<and>
    (if cfg_tls prior \<noteq> cfg_tls new \<and> cert_paths_changed (boot_tls b) (cfg_tls new)
     then load_and_build (ext_load_apply (wd_outside w)) (ext_keys_match (wd_outside w)) (cfg_tls new) =
       Ok (tls_served (wd_tls (co_world co')))
     else tls_served (wd_tls (co_world co')) = tls_served (wd_tls w)) \<and>
    w_current (wd_audit (co_world co')) = (if cfg_audit prior \<noteq> cfg_audit new then cfg_audit new else w_current (wd_audit w)) \<and>
    co_world co' = w\<lparr>wd_db := wd_db (co_world co'), wd_tls := wd_tls (co_world co'), wd_audit := wd_audit (co_world co')\<rparr>"
proof -
  from successful_file_request[OF assms(1-3)] obtain sd st where
    s: "db_after prior new w sd" "tls_after b prior new w st"
      "co_world co' = w\<lparr>wd_db := sd, wd_tls := st, wd_audit := audit_after prior new w\<rparr>"
      "co_current_config co' = new" "co_state co' = Idle" "names = btree_iter (set (map rl_name (co_reloadables co)))"
    unfolding assms(6-8) by blast
  have d: "if cfg_db prior \<noteq> cfg_db new then ext_connect (wd_outside w) (cfg_db new) = Ok (w_current sd)
      else w_current sd = w_current (wd_db w)"
    using s(1) assms(4,7) by (auto simp: db_after_def watch_apply_def watch_send_def)
  have t: "if cfg_tls prior \<noteq> cfg_tls new \<and> cert_paths_changed (boot_tls b) (cfg_tls new)
      then load_and_build (ext_load_apply (wd_outside w)) (ext_keys_match (wd_outside w)) (cfg_tls new) = Ok (tls_served st)
      else tls_served st = tls_served (wd_tls w)"
    using s(2) by (auto simp: tls_after_def tls_apply_def split: if_splits sum.splits)
  have a: "w_current (audit_after prior new w) = (if cfg_audit prior \<noteq> cfg_audit new then cfg_audit new else w_current (wd_audit w))"
    using assms(5,7) by (simp add: audit_after_def watch_apply_def watch_send_def)
  show ?thesis using s(3-6) d t a by simp
qed

subsection \<open>What later reloads bring back\<close>

definition succeeded :: "'w coordinator \<Rightarrow> bool" where
  "succeeded co \<longleftrightarrow> (case last (co_audit co) of Applied _ _ _ \<Rightarrow> True | _ \<Rightarrow> False)"

lemma succeeded_file_request:
  assumes "file_request ro source co path new" "co_reloadables co = controller_reloadables nf b"
    and "succeeded (handle_request ro env source co)"
  obtains sd st where "db_after (co_current_config co) new (co_world co) sd"
    "tls_after b (co_current_config co) new (co_world co) st"
    "co_world (handle_request ro env source co) = (co_world co)\<lparr>wd_db := sd, wd_tls := st,
       wd_audit := audit_after (co_current_config co) new (co_world co)\<rparr>"
    "co_current_config (handle_request ro env source co) = new"
    "co_reloadables (handle_request ro env source co) = controller_reloadables nf b"
proof -
  obtain names ms source' where "last (co_audit (handle_request ro env source co)) = Applied names ms source'"
    using assms(3) unfolding succeeded_def by (auto split: reload_audit_event.splits)
  from successful_file_request[OF assms(1,2) this] show thesis
    unfolding assms(2) by (elim exE conjE) (rule that)
qed

text \<open>C24. The certificate of the boot cannot be brought back: after a reload to other paths, a reload back to
  the paths of the boot succeeds and is the configuration in force, while the certificate of the
  other paths goes on being served.\<close>

theorem boot_certificate_not_restored:
  assumes "file_request ro source co path new" "co_reloadables co = controller_reloadables nf b"
    and "co1 = handle_request ro env source co" "succeeded co1"
    and "cfg_tls new \<noteq> cfg_tls (co_current_config co)" "cert_paths_changed (boot_tls b) (cfg_tls new)"
    and "file_request ro2 source2 co1 path2 new2" "co2 = handle_request ro2 env2 source2 co1" "succeeded co2"
    and "\<not> cert_paths_changed (boot_tls b) (cfg_tls new2)"
  shows "co_current_config co2 = new2 \<and>
    load_and_build (ext_load_apply (wd_outside (co_world co))) (ext_keys_match (wd_outside (co_world co))) (cfg_tls new) =
      Ok (tls_served (wd_tls (co_world co2)))"
proof -
  obtain sd st where s1: "tls_after b (co_current_config co) new (co_world co) st"
      "co_world co1 = (co_world co)\<lparr>wd_db := sd, wd_tls := st, wd_audit := audit_after (co_current_config co) new (co_world co)\<rparr>"
      "co_current_config co1 = new" "co_reloadables co1 = controller_reloadables nf b"
    by (rule succeeded_file_request[OF assms(1,2) assms(4)[unfolded assms(3)], folded assms(3)])
  obtain sd2 st2 where s2': "tls_after b (co_current_config co1) new2 (co_world co1) st2"
      "co_world co2 = (co_world co1)\<lparr>wd_db := sd2, wd_tls := st2, wd_audit := audit_after (co_current_config co1) new2 (co_world co1)\<rparr>"
      "co_current_config co2 = new2"
    by (rule succeeded_file_request[OF assms(7) s1(4) assms(9)[unfolded assms(8)], folded assms(8)])
  have s: "tls_after b (co_current_config co) new (co_world co) st" "wd_tls (co_world co1) = st" using s1(1,2) by simp_all
  have s2: "tls_after b new new2 (co_world co1) st2" "wd_tls (co_world co2) = st2" "co_current_config co2 = new2"
    using s2' s1(3) by simp_all
  have "tls_served st2 = tls_served st"
    using s2(1) s(2) assms(10) by (auto simp: tls_after_def tls_apply_def split: if_splits)
  moreover have "load_and_build (ext_load_apply (wd_outside (co_world co))) (ext_keys_match (wd_outside (co_world co))) (cfg_tls new) =
      Ok (tls_served st)"
    using s(1) assms(5,6) by (auto simp: tls_after_def tls_apply_def split: sum.splits)
  ultimately show ?thesis using s2(2,3) by simp
qed

text \<open>All subsystems applied, then a health check fails: what the audit subsystem reverts to.\<close>

lemma reverted_audit:
  assumes subs: "co_reloadables co = controller_reloadables nf b"
    and valid: "validate_phase (co_reloadables co) (build_deltas prior new) (co_world co) = Ok ()"
    and applied: "apply_phase env (build_deltas prior new) (co_reloadables co) [] Map.empty (co_world co) = (Ok p, w)"
    and failed: "run_cycle env (build_deltas prior new) co = (Err e, co')" and ne: "build_deltas prior new \<noteq> []"
  shows "wd_audit (co_world co') = watch_revert (wd_audit w)"
proof -
  let ?subs = "controller_reloadables nf b" and ?audit = "reloadable_erased_impl AuditDispatcherReloadable as_audit"
  obtain dn ms where p: "p = (dn, ms)" by (cases p)
  have d: "dn = ?subs" using apply_phase_dom[OF applied[unfolded p] ne] subs by simp
  obtain msg where co': "co' = revert_phase env ?subs (write_alert ErrorAlert msg (co\<lparr>co_world := w\<rparr>))"
    using failed valid applied unfolding run_cycle_def apply_and_watch_phase_def p d by (auto split: sum.splits)
  have "distinct (map rl_name (rev ?subs))" using controller.names_distinct[of nf b] by (simp add: rev_map[symmetric])
  then have "\<forall>r\<in>set ?subs. controller_part (rl_name r) (co_world co') = controller_part (rl_name r) (snd (rl_revert r w))"
    using controller.reverts_parts[of "rev ?subs" nf b env "write_alert ErrorAlert msg (co\<lparr>co_world := w\<rparr>)"]
    unfolding co' revert_phase_def by simp
  moreover have "?audit \<in> set ?subs" by (simp add: controller_reloadables_def)
  ultimately have "controller_part (rl_name ?audit) (co_world co') = controller_part (rl_name ?audit) (snd (rl_revert ?audit w))"
    by blast
  then show ?thesis by (simp add: AuditDispatcherReloadable_def)
qed

text \<open>C25. A failed reload can undo an earlier successful one: after a reload that changed the audit section,
  a later change of other sections that is valid, is applied by every subsystem and then fails a
  health check puts the audit settings of before the first reload back in use, while the
  configuration in force still says otherwise.\<close>

theorem failed_reload_undoes_earlier_one:
  assumes "file_request ro source co path new" "co_reloadables co = controller_reloadables nf b"
    and "co1 = handle_request ro env source co" "succeeded co1"
    and "cfg_audit new \<noteq> cfg_audit (co_current_config co)" "w_receivers (wd_audit (co_world co))"
    and "file_request ro2 source2 co1 path2 new2" "cfg_audit new2 = cfg_audit new"
    and "validate_phase (co_reloadables co1) (build_deltas new new2) (co_world co1) = Ok ()"
    and "apply_phase env2 (build_deltas new new2) (co_reloadables co1) [] Map.empty (co_world co1) = (Ok p, w)"
    and "co2 = handle_request ro2 env2 source2 co1" "\<not> succeeded co2"
  shows "w_current (wd_audit (co_world co1)) = cfg_audit new \<and>
    w_current (wd_audit (co_world co2)) = w_current (wd_audit (co_world co)) \<and> co_current_config co2 = new"
proof -
  obtain sd st where s: "co_world co1 = (co_world co)\<lparr>wd_db := sd, wd_tls := st,
       wd_audit := audit_after (co_current_config co) new (co_world co)\<rparr>"
      "co_current_config co1 = new" "co_reloadables co1 = controller_reloadables nf b"
    by (rule succeeded_file_request[OF assms(1,2) assms(4)[unfolded assms(3)], folded assms(3)])
  let ?a = "wd_audit (co_world co1)" and ?ds = "build_deltas new new2" and ?c = "accepted source2 path2 co1"
  have a: "w_current ?a = cfg_audit new" "w_receivers ?a" "w_snapshot ?a = Some (w_current (wd_audit (co_world co)))"
    using assms(5,6) s(1) by (simp_all add: audit_after_def watch_apply_def watch_send_def)
  have wa: "wd_audit w = ?a"
    using applied_world[OF assms(10)[unfolded s(3)]] assms(8) by (auto simp: audit_after_def)
  obtain res c where r: "run_cycle env2 ?ds ?c = (res, c)" by (meson surj_pair)
  obtain e where e: "res = Err e"
    using assms(12) r s(2) unfolding assms(11) handle_file_request[OF assms(7)] succeeded_def by (cases res) auto
  have ne: "?ds \<noteq> []" using assms(7) s(2) by (simp add: file_request_def)
  have "wd_audit (co_world c) = watch_revert ?a"
    using reverted_audit[OF _ _ _ r[unfolded e] ne, of nf b p w] assms(9,10) s(3) wa by simp
  moreover have "co_world co2 = co_world c \<and> co_current_config co2 = new"
    using r e s(2) run_cycle_kept[OF r] unfolding assms(11) handle_file_request[OF assms(7)] by simp
  ultimately show ?thesis using a by (simp add: watch_revert_def watch_send_def)
qed

section \<open>A controller for the examples\<close>

definition sample_boot :: boot_values where
  "sample_boot =
     \<lparr>boot_db_url = db_url (cfg_db sample_config), boot_tls = cfg_tls sample_config,
      boot_https = net_https (cfg_network sample_config), boot_pki_addr = net_pki_addr (cfg_network sample_config),
      boot_zeroconf = cfg_zeroconf sample_config, boot_nats_url = None, boot_nats = cfg_nats sample_config,
      boot_embedded = cfg_embedded_services sample_config\<rparr>"

definition sample_key :: "string \<Rightarrow> string \<Rightarrow> certified_key" where
  "sample_key cert key = \<lparr>ck_cert = [cert], ck_key = key\<rparr>"

text \<open>Outside, a pool of nine connections opens and then answers no query.\<close>

definition sample_outside :: outside_world where
  "sample_outside =
     \<lparr>ext_connect = (\<lambda>c. Ok (unat (db_pool_size c))), ext_query_one = (\<lambda>pool. bail_if (pool = 9) ''no answer''),
      ext_load_validate = (\<lambda>c k. Ok (sample_key c k)), ext_load_apply = (\<lambda>c k. Ok (sample_key c k)),
      ext_keys_match = (\<lambda>_. Ok ()), ext_dispatcher_closed = False, ext_took = (\<lambda>_. 3)\<rparr>"

definition channel :: "'c \<Rightarrow> 'c watched" where
  "channel v = \<lparr>w_current = v, w_receivers = True, w_snapshot = None\<rparr>"

definition sample_controller :: "world coordinator" where
  "sample_controller = \<lparr>co_state = Idle, co_reloadables = controller_reloadables False sample_boot,
     co_world = \<lparr>wd_db = channel 5, wd_tls = \<lparr>tls_served = sample_key ''a.crt'' ''a.key'', tls_prior = None, tls_applied = None\<rparr>,
       wd_audit = channel (cfg_audit sample_config), wd_plugins = channel \<lparr>plugins_version = 0\<rparr>,
       wd_embedded = channel (cfg_embedded_services sample_config), wd_outside = sample_outside\<rparr>,
     co_config_path = Some ''u.toml'', co_current_config = sample_config, co_audit = [], co_alerts = []\<rparr>"

definition with_pool :: "32 word \<Rightarrow> runtime_config \<Rightarrow> runtime_config" where
  "with_pool n c = c\<lparr>cfg_db := (cfg_db c)\<lparr>db_pool_size := n\<rparr>\<rparr>"

definition with_cert :: "string \<Rightarrow> string \<Rightarrow> runtime_config \<Rightarrow> runtime_config" where
  "with_cert cert key c = c\<lparr>cfg_tls := (cfg_tls c)\<lparr>tls_cert_path := cert, tls_key_path := key\<rparr>\<rparr>"

lemmas subsystem_defs = controller_reloadables_def DbPoolReloadable_def TlsSnapshotReloadable_def HttpsListenerReloadable_def
  PkiListenerReloadable_def AuditDispatcherReloadable_def ZeroconfReloadable_def PluginCatalogReloadable_def
  EmbeddedServicesReloadable_def NatsReloadable_def gate_def reloadable_erased_impl_def

lemmas cycle_defs = run_cycle_def apply_and_watch_phase_def watchdog_phase_def sample_env_def sample_controller_def subsystem_defs
  sample_boot_def sample_outside_def channel_def watch_apply_def watch_send_def took_def bail_if_def add_time_def modify_time_def
  WATCHDOG_DB_POOL_def WATCHDOG_NATS_def WATCHDOG_HTTPS_def WATCHDOG_PKI_def WATCHDOG_PLUGINS_def WATCHDOG_AUDIT_def
  WATCHDOG_ZEROCONF_def WATCHDOG_EMBEDDED_def

lemma sample_pool_deltas:
  "build_deltas sample_config (with_pool 9 sample_config) = [DeltaDb ((cfg_db sample_config)\<lparr>db_pool_size := 9\<rparr>)]"
  by (simp add: build_deltas_def with_pool_def sample_config_def)

lemma sample_pool_request: "file_request (loads (with_pool 9 sample_config)) Sighup sample_controller ''u.toml'' (with_pool 9 sample_config)"
  by (simp add: file_request_def loads_def sample_controller_def sample_pool_deltas)

lemma sample_pool_failure:
  "last (co_audit (handle_request (loads (with_pool 9 sample_config)) sample_env Sighup sample_controller)) =
     Failed PhaseApply None ''no answer''"
proof -
  have "co_current_config sample_controller = sample_config" by (simp add: sample_controller_def)
  moreover have "fst (run_cycle sample_env [DeltaDb ((cfg_db sample_config)\<lparr>db_pool_size := 9\<rparr>)]
      (accepted Sighup ''u.toml'' sample_controller)) = Err ''no answer''"
    by (simp add: cycle_defs validate_db_def sample_config_def)
  ultimately show ?thesis using file_request_outcome[OF sample_pool_request, of _ sample_env] sample_pool_deltas by simp
qed

lemma sample_ready: "controller_ready ds (controller_part n (co_world sample_controller))"
  unfolding controller_part_def by (simp add: sample_controller_def channel_def no_stale_def)

theorem failed_reload_rolls_back_witness:
  "in_use (co_world (handle_request (loads (with_pool 9 sample_config)) sample_env Sighup sample_controller)) =
     in_use (co_world sample_controller)"
  using failed_reload_rolls_back[OF sample_pool_request _ _ sample_pool_failure, of False sample_boot] sample_ready
  by (simp add: sample_controller_def)

theorem controller_never_degrades_witness:
  "co_state (run [(\<lambda>w. w, loads (with_pool 9 sample_config), sample_env, Sighup), (\<lambda>w. w, loads sample_config, sample_env, Boot)]
     sample_controller) = Idle"
  by (rule controller_never_degrades[THEN conjunct1, of _ False sample_boot]) (simp_all add: sample_controller_def)

text \<open>A change of the audit filter that succeeds, and after it a change of the pool that fails.\<close>

definition filtered_config :: runtime_config where
  "filtered_config = with_filter ''none'' sample_config"

lemma filtered_deltas:
  "build_deltas sample_config filtered_config = [DeltaAudit ((cfg_audit sample_config)\<lparr>audit_filter := ''none''\<rparr>)]"
  unfolding filtered_config_def by (rule with_filter_deltas) (simp add: sample_config_def)

lemma filtered_request: "file_request (loads filtered_config) Sighup sample_controller ''u.toml'' filtered_config"
  by (simp add: file_request_def loads_def sample_controller_def filtered_deltas)

definition filtered_controller :: "world coordinator" where
  "filtered_controller = handle_request (loads filtered_config) sample_env Sighup sample_controller"

lemma filtered_audit:
  "\<exists>names ms. last (co_audit filtered_controller) = Applied names ms Sighup"
proof -
  have "co_current_config sample_controller = sample_config" by (simp add: sample_controller_def)
  moreover have "is_ok (fst (run_cycle sample_env [DeltaAudit ((cfg_audit sample_config)\<lparr>audit_filter := ''none''\<rparr>)]
      (accepted Sighup ''u.toml'' sample_controller)))"
    by (simp add: cycle_defs validate_audit_def VALID_FILTERS_def tls_health_check_def sample_config_def)
  ultimately show ?thesis
    using file_request_outcome[OF filtered_request, of _ sample_env] filtered_deltas unfolding filtered_controller_def
    by (auto simp: is_ok_iff)
qed

theorem successful_reload_publishes_witness:
  "co_current_config filtered_controller = filtered_config \<and>
   audit_filter (w_current (wd_audit (co_world filtered_controller))) = ''none'' \<and> w_current (wd_db (co_world filtered_controller)) = 5"
proof -
  obtain names ms where l: "last (co_audit (handle_request (loads filtered_config) sample_env Sighup sample_controller)) = Applied names ms Sighup"
    using filtered_audit unfolding filtered_controller_def by blast
  show ?thesis
    using successful_reload_publishes[OF filtered_request _ l _ _ refl refl refl, of False sample_boot]
    by (simp add: filtered_controller_def sample_controller_def channel_def filtered_config_def with_filter_def sample_config_def)
qed

lemma sample_unchanged_db:
  "cfg_db new = cfg_db sample_config \<Longrightarrow> db_after sample_config new w sd \<longleftrightarrow> sd = wd_db w"
  "cfg_tls new = cfg_tls sample_config \<Longrightarrow> tls_after b sample_config new w st \<longleftrightarrow> st = wd_tls w"
  by (simp_all add: db_after_def tls_after_def)

lemma filtered_sel:
  "co_state filtered_controller = Idle" "co_current_config filtered_controller = filtered_config"
  "co_reloadables filtered_controller = controller_reloadables False sample_boot"
  "co_config_path filtered_controller = Some ''u.toml''"
  "co_world filtered_controller = (co_world sample_controller)
     \<lparr>wd_audit := watch_apply (cfg_audit filtered_config) (wd_audit (co_world sample_controller))\<rparr>"
proof -
  have c: "co_current_config sample_controller = sample_config" "co_config_path sample_controller = Some ''u.toml''"
    "co_reloadables sample_controller = controller_reloadables False sample_boot"
    by (simp_all add: sample_controller_def)
  have same: "cfg_db filtered_config = cfg_db sample_config" "cfg_tls filtered_config = cfg_tls sample_config"
    "cfg_audit sample_config \<noteq> cfg_audit filtered_config"
    by (simp_all add: filtered_config_def with_filter_def sample_config_def)
  obtain names ms where l: "last (co_audit (handle_request (loads filtered_config) sample_env Sighup sample_controller)) = Applied names ms Sighup"
    using filtered_audit unfolding filtered_controller_def by blast
  note s = successful_file_request[OF filtered_request c(3) l, folded filtered_controller_def,
      unfolded c(1,2) sample_unchanged_db(1)[OF same(1)] sample_unchanged_db(2)[OF same(2)] audit_after_def]
  show "co_state filtered_controller = Idle" "co_current_config filtered_controller = filtered_config"
    "co_reloadables filtered_controller = controller_reloadables False sample_boot"
    "co_config_path filtered_controller = Some ''u.toml''"
    using s by (elim exE conjE, simp add: c)+
  show "co_world filtered_controller = (co_world sample_controller)
     \<lparr>wd_audit := watch_apply (cfg_audit filtered_config) (wd_audit (co_world sample_controller))\<rparr>"
    using s same(3) by auto
qed

lemma filtered_pool_deltas:
  "build_deltas filtered_config (with_pool 9 filtered_config) = [DeltaDb ((cfg_db sample_config)\<lparr>db_pool_size := 9\<rparr>)]"
  by (simp add: build_deltas_def with_pool_def filtered_config_def with_filter_def sample_config_def)

lemma filtered_pool_request:
  "file_request (loads (with_pool 9 filtered_config)) Sighup filtered_controller ''u.toml'' (with_pool 9 filtered_config)"
  by (simp add: file_request_def loads_def filtered_sel filtered_pool_deltas)

lemma filtered_pool_cycle:
  assumes "w = co_world filtered_controller"
  shows "validate_phase (controller_reloadables False sample_boot) [DeltaDb ((cfg_db sample_config)\<lparr>db_pool_size := 9\<rparr>)] w = Ok ()"
    "is_ok (fst (apply_phase sample_env [DeltaDb ((cfg_db sample_config)\<lparr>db_pool_size := 9\<rparr>)]
       (controller_reloadables False sample_boot) [] Map.empty w))"
    "fst (run_cycle sample_env [DeltaDb ((cfg_db sample_config)\<lparr>db_pool_size := 9\<rparr>)]
       (accepted Sighup ''u.toml'' filtered_controller)) = Err ''no answer''"
  unfolding assms
  by (simp_all add: filtered_sel cycle_defs validate_db_def sample_config_def)

theorem failed_reload_undoes_earlier_one_witness:
  "let co2 = handle_request (loads (with_pool 9 filtered_config)) sample_env Sighup filtered_controller
   in audit_filter (w_current (wd_audit (co_world filtered_controller))) = ''none'' \<and>
     audit_filter (w_current (wd_audit (co_world co2))) = ''all'' \<and> audit_filter (cfg_audit (co_current_config co2)) = ''none''"
proof -
  let ?co2 = "handle_request (loads (with_pool 9 filtered_config)) sample_env Sighup filtered_controller"
  have ok: "succeeded filtered_controller" using filtered_audit by (auto simp: succeeded_def)
  have failed: "\<not> succeeded ?co2"
    using file_request_outcome[OF filtered_pool_request, of _ sample_env] filtered_pool_deltas filtered_pool_cycle(3)[OF refl]
    by (simp add: succeeded_def filtered_sel)
  obtain p w where a: "apply_phase sample_env (build_deltas filtered_config (with_pool 9 filtered_config))
      (co_reloadables filtered_controller) [] Map.empty (co_world filtered_controller) = (Ok p, w)"
    using filtered_pool_cycle(2)[OF refl] unfolding filtered_sel(3) filtered_pool_deltas is_ok_iff by (metis prod.collapse)
  have v: "validate_phase (co_reloadables filtered_controller) (build_deltas filtered_config (with_pool 9 filtered_config))
      (co_world filtered_controller) = Ok ()"
    using filtered_pool_cycle(1)[OF refl] by (simp add: filtered_sel(3) filtered_pool_deltas)
  have "w_current (wd_audit (co_world filtered_controller)) = cfg_audit filtered_config \<and>
      w_current (wd_audit (co_world ?co2)) = w_current (wd_audit (co_world sample_controller)) \<and> co_current_config ?co2 = filtered_config"
    by (rule failed_reload_undoes_earlier_one[OF filtered_request _ filtered_controller_def ok _ _ filtered_pool_request _ v a refl failed,
          of False sample_boot])
      (simp_all add: sample_controller_def channel_def filtered_config_def with_filter_def with_pool_def sample_config_def)
  then show ?thesis
    by (simp add: Let_def sample_controller_def channel_def filtered_config_def with_filter_def sample_config_def)
qed

text \<open>A change to another certificate, and back.\<close>

definition rotated_config :: runtime_config where
  "rotated_config = with_cert ''b.crt'' ''b.key'' sample_config"

definition rotated_controller :: "world coordinator" where
  "rotated_controller = handle_request (loads rotated_config) sample_env Sighup sample_controller"

lemma rotated_deltas:
  "build_deltas sample_config rotated_config = [DeltaTls (cfg_tls rotated_config)]"
  "build_deltas rotated_config sample_config = [DeltaTls (cfg_tls sample_config)]"
  by (simp_all add: build_deltas_def with_cert_def rotated_config_def sample_config_def)

lemma rotated_request: "file_request (loads rotated_config) Sighup sample_controller ''u.toml'' rotated_config"
  by (simp add: file_request_def loads_def sample_controller_def rotated_deltas)

lemmas tls_defs = tls_validate_def tls_apply_def validate_tls_def cert_paths_changed_def load_and_build_def
  tls_health_check_def first_cert_def sample_key_def

lemma rotated_audit: "\<exists>names ms. last (co_audit rotated_controller) = Applied names ms Sighup"
proof -
  have "co_current_config sample_controller = sample_config" by (simp add: sample_controller_def)
  moreover have "is_ok (fst (run_cycle sample_env [DeltaTls (cfg_tls rotated_config)] (accepted Sighup ''u.toml'' sample_controller)))"
    by (simp add: cycle_defs tls_defs rotated_config_def with_cert_def sample_config_def)
  ultimately show ?thesis
    using file_request_outcome[OF rotated_request, of _ sample_env] rotated_deltas(1) unfolding rotated_controller_def
    by (auto simp: is_ok_iff)
qed

lemma rotated_sel:
  "co_state rotated_controller = Idle" "co_current_config rotated_controller = rotated_config"
  "co_reloadables rotated_controller = controller_reloadables False sample_boot"
  "co_config_path rotated_controller = Some ''u.toml''"
  "\<exists>st. co_world rotated_controller = (co_world sample_controller)\<lparr>wd_tls := st\<rparr>"
proof -
  have c: "co_current_config sample_controller = sample_config" "co_config_path sample_controller = Some ''u.toml''"
    "co_reloadables sample_controller = controller_reloadables False sample_boot"
    by (simp_all add: sample_controller_def)
  have same: "cfg_db rotated_config = cfg_db sample_config" "cfg_audit rotated_config = cfg_audit sample_config"
    by (simp_all add: rotated_config_def with_cert_def sample_config_def)
  obtain names ms where l: "last (co_audit (handle_request (loads rotated_config) sample_env Sighup sample_controller)) = Applied names ms Sighup"
    using rotated_audit unfolding rotated_controller_def by blast
  note s = successful_file_request[OF rotated_request c(3) l, folded rotated_controller_def,
      unfolded c(1,2) sample_unchanged_db(1)[OF same(1)] audit_after_def]
  show "co_state rotated_controller = Idle" "co_current_config rotated_controller = rotated_config"
    "co_reloadables rotated_controller = controller_reloadables False sample_boot"
    "co_config_path rotated_controller = Some ''u.toml''"
    using s by (elim exE conjE, simp add: c)+
  show "\<exists>st. co_world rotated_controller = (co_world sample_controller)\<lparr>wd_tls := st\<rparr>"
    using s same(2) by (elim exE conjE) (rule exI, simp)
qed

lemma rotated_back_request: "file_request (loads sample_config) Sighup rotated_controller ''u.toml'' sample_config"
  by (simp add: file_request_def loads_def rotated_sel rotated_deltas)

theorem boot_certificate_not_restored_witness:
  "let co2 = handle_request (loads sample_config) sample_env Sighup rotated_controller
   in tls_cert_path (cfg_tls (co_current_config co2)) = ''a.crt'' \<and> ck_cert (tls_served (wd_tls (co_world co2))) = [''b.crt'']"
proof -
  let ?co2 = "handle_request (loads sample_config) sample_env Sighup rotated_controller"
  obtain st where w: "co_world rotated_controller = (co_world sample_controller)\<lparr>wd_tls := st\<rparr>" using rotated_sel(5) by blast
  have "is_ok (fst (run_cycle sample_env [DeltaTls (cfg_tls sample_config)] (accepted Sighup ''u.toml'' rotated_controller)))"
    by (simp add: rotated_sel w cycle_defs tls_defs sample_config_def)
  then have ok2: "succeeded ?co2"
    using file_request_outcome[OF rotated_back_request, of _ sample_env] rotated_deltas(2)
    by (auto simp: is_ok_iff succeeded_def rotated_sel)
  have ok: "succeeded rotated_controller" using rotated_audit by (auto simp: succeeded_def)
  have "co_current_config ?co2 = sample_config \<and>
      load_and_build (ext_load_apply (wd_outside (co_world sample_controller))) (ext_keys_match (wd_outside (co_world sample_controller)))
        (cfg_tls rotated_config) = Ok (tls_served (wd_tls (co_world ?co2)))"
    by (rule boot_certificate_not_restored[OF rotated_request _ rotated_controller_def ok _ _ rotated_back_request refl ok2,
          of False sample_boot])
      (simp_all add: sample_controller_def sample_boot_def cert_paths_changed_def rotated_config_def with_cert_def sample_config_def)
  moreover have "load_and_build (ext_load_apply (wd_outside (co_world sample_controller)))
      (ext_keys_match (wd_outside (co_world sample_controller))) (cfg_tls rotated_config) = Ok (sample_key ''b.crt'' ''b.key'')"
    by (simp add: sample_controller_def sample_outside_def load_and_build_def rotated_config_def with_cert_def)
  moreover have "tls_cert_path (cfg_tls sample_config) = ''a.crt''" by (simp add: sample_config_def)
  ultimately have "co_current_config ?co2 = sample_config" "tls_served (wd_tls (co_world ?co2)) = sample_key ''b.crt'' ''b.key''"
    "tls_cert_path (cfg_tls sample_config) = ''a.crt''" by simp_all
  then show ?thesis unfolding Let_def by (simp add: sample_key_def)
qed

end
