(* ===== verification/Update_Store.thy ===== *)
theory Update_Store
  imports Uptrakit_Prelude "HOL-Library.Word"
begin

text \<open>
  The update records of the controller: the status types of \<open>crates/shared/types\<close>, the rows of
  \<open>update_history\<close>, \<open>update_batches\<close> and \<open>update_output_lines\<close> with the two partial unique indexes
  of the schema, and the guarded writes of \<open>crates/ui/web-api-queries/src/queries\<close>
  (\<open>update_batches/dispatch.rs\<close>, \<open>update_dispatch.rs\<close>, \<open>update_reaper.rs\<close>): claim, output, result,
  reconnect, restart, reaper; and the writes to these rows elsewhere: version reports, the restart
  timeout of the scheduler, uninstalled software, replay. (The reset of a tenant's data deletes rows
  and is not modelled.) Failing statements, the clock and new ids are parameters.
\<close>

section \<open>Actions on a state\<close>

text \<open>A function that changes a state and may leave with an error, the changes so far kept.\<close>

type_synonym ('s, 'e, 'a) act = "'s \<Rightarrow> ('e + 'a) \<times> 's"

definition act_return :: "'a \<Rightarrow> ('s, 'e, 'a) act" where "act_return a s = (Ok a, s)"

definition act_fail :: "'e \<Rightarrow> ('s, 'e, 'a) act" where "act_fail e s = (Err e, s)"

definition act_bind :: "('s, 'e, 'a) act \<Rightarrow> ('a \<Rightarrow> ('s, 'e, 'b) act) \<Rightarrow> ('s, 'e, 'b) act" where
  "act_bind m k s = (case m s of (Inl e, s') \<Rightarrow> (Err e, s') | (Inr a, s') \<Rightarrow> k a s')"

text \<open>A \<open>match\<close> on the result of a call, errors included.\<close>

definition act_try :: "('s, 'e, 'a) act \<Rightarrow> ('e + 'a \<Rightarrow> ('s, 'f, 'b) act) \<Rightarrow> ('s, 'f, 'b) act" where
  "act_try m k s = (case m s of (r, s') \<Rightarrow> k r s')"

text \<open>A database transaction: an error leaves the tables as they were.\<close>

definition transaction :: "('s, 'e, 'a) act \<Rightarrow> ('s, 'e, 'a) act" where
  "transaction m s = (case m s of (Inl e, _) \<Rightarrow> (Err e, s) | (Inr a, s') \<Rightarrow> (Ok a, s'))"

definition act_read :: "('s \<Rightarrow> 'a) \<Rightarrow> ('s, 'e, 'a) act" where "act_read f s = (Ok (f s), s)"

fun act_each :: "('a \<Rightarrow> ('s, 'e, unit) act) \<Rightarrow> 'a list \<Rightarrow> ('s, 'e, unit) act" where
  "act_each f [] = act_return ()"
| "act_each f (x # xs) = act_bind (f x) (\<lambda>_. act_each f xs)"

named_theorems act_simps \<open>evaluation of actions\<close>

lemma act_eval [simp, act_simps]:
  "act_return a s = (Ok a, s)" "act_fail e s = (Err e, s)" "act_read f s = (Ok (f s), s)"
  by (simp_all add: act_return_def act_fail_def act_read_def)

lemma act_bind_eval [simp]:
  "m s = (Ok a, s') \<Longrightarrow> act_bind m k s = k a s'"
  "m s = (Err e, s') \<Longrightarrow> act_bind m k s = (Err e, s')"
  by (simp_all add: act_bind_def)

section \<open>Statuses\<close>

datatype update_status =
    StQueued | StPending | StInProgress | StAwaitingRestart | StCompleted | StFailed | StInterrupted

fun update_status_as_str :: "update_status \<Rightarrow> string" where
  "update_status_as_str StQueued = ''queued''"
| "update_status_as_str StPending = ''pending''"
| "update_status_as_str StInProgress = ''in_progress''"
| "update_status_as_str StAwaitingRestart = ''awaiting_restart''"
| "update_status_as_str StCompleted = ''completed''"
| "update_status_as_str StFailed = ''failed''"
| "update_status_as_str StInterrupted = ''interrupted''"

definition update_status_from_str :: "string \<Rightarrow> unit + update_status" where
  "update_status_from_str s =
     (if s = ''queued'' then Ok StQueued
      else if s = ''pending'' then Ok StPending
      else if s = ''in_progress'' then Ok StInProgress
      else if s = ''awaiting_restart'' then Ok StAwaitingRestart
      else if s = ''completed'' then Ok StCompleted
      else if s = ''failed'' then Ok StFailed
      else if s = ''interrupted'' then Ok StInterrupted
      else Err ())"

definition unfinished :: "update_status list" where
  "unfinished = [StQueued, StPending, StInProgress, StAwaitingRestart]"

definition host_blocking :: "update_status list" where
  "host_blocking = [StPending, StInProgress, StAwaitingRestart]"

datatype batch_status = BaInProgress | BaCompleted | BaPartiallyCompleted | BaOther string

fun batch_status_as_str :: "batch_status \<Rightarrow> string" where
  "batch_status_as_str BaInProgress = ''in_progress''"
| "batch_status_as_str BaCompleted = ''completed''"
| "batch_status_as_str BaPartiallyCompleted = ''partially_completed''"
| "batch_status_as_str (BaOther s) = s"

definition batch_status_from_str :: "string \<Rightarrow> unit + batch_status" where
  "batch_status_from_str s =
     (if s = ''in_progress'' then Ok BaInProgress
      else if s = ''completed'' then Ok BaCompleted
      else if s = ''partially_completed'' then Ok BaPartiallyCompleted
      else Err ())"

definition batch_status_from_string :: "string \<Rightarrow> batch_status" where
  "batch_status_from_string s =
     (if s = ''in_progress'' then BaInProgress
      else if s = ''completed'' then BaCompleted
      else if s = ''partially_completed'' then BaPartiallyCompleted
      else BaOther s)"

datatype update_final_status = FinalCompleted | FinalFailed | FinalOther string

datatype output_stream_type = Stdout | Stderr | PreHook | PostHook | SystemStream

section \<open>Rows\<close>

record update_row =
  uh_id :: uuid
  uh_tenant_id :: uuid
  uh_host_id :: uuid
  uh_software_item_id :: uuid
  uh_host_software_item_id :: "uuid option"
  uh_from_version :: "string option"
  uh_to_version :: "string option"
  uh_status :: update_status
  uh_output :: string
  uh_output_bytes :: int
  uh_actor_type :: string
  uh_actor_id :: string
  uh_owner_service :: "uuid option"
  uh_owner_instance :: "uuid option"
  uh_started_at :: "instant option"
  uh_completed_at :: "instant option"
  uh_awaiting_restart_since :: "instant option"
  uh_created_at :: instant
  uh_update_category :: string
  uh_batch_id :: "uuid option"
  uh_interactive :: bool
  uh_output_truncated :: bool
  uh_protection_status :: "string option"
  uh_protection_summary :: "string option"
  uh_recovery_hint :: "string option"
  uh_timeout_seconds :: "int option"

record batch_row =
  ub_id :: uuid
  ub_tenant_id :: uuid
  ub_batch_type :: string
  ub_status :: batch_status
  ub_total_count :: "32 word"
  ub_actor_type :: string
  ub_actor_id :: string
  ub_output :: string
  ub_output_bytes :: int
  ub_created_at :: instant
  ub_completed_at :: "instant option"

record output_line =
  ol_id :: uuid
  ol_update_history_id :: uuid
  ol_stream :: output_stream_type
  ol_output :: string
  ol_created_at :: instant

record update_tables =
  ut_rows :: "update_row list"
  ut_batches :: "batch_row list"
  ut_lines :: "output_line list"

datatype db_err = UniqueConstraint | RecordNotUpdated | DbFailure string

datatype trigger_update_error =
    SoftwareItemNotFound | HostNotFound | HostNotAssigned | NoExecuteUpdatePlugin | NoAgent
  | AgentNotApproved | UpdateAlreadyActive | PluginConfigNotFound | UnknownPluginType string
  | DatabaseErr db_err | PreUpdateProtection string | PostUpdateFinalization string
  | PostUpdateFinalizationTimeout

section \<open>Statements\<close>

text \<open>Which statement of a function fails, and with what message; the argument is the row, host or
  batch that the statement is about.\<close>

datatype update_stmt =
    BeginTx uuid | CommitTx uuid | SelectRows uuid | SelectBatch uuid | UpdateRows uuid
  | UpdateBatch uuid | InsertRow uuid | InsertBatch uuid | InsertLine uuid | InsertNotice uuid
  | DeleteLines uuid | SelectItem uuid | SelectHost uuid | SelectLinks uuid | SelectAgents uuid | SelectPlugins uuid
  | SelectPluginConfig uuid | UpdateLinks uuid

type_synonym update_faults = "update_stmt \<Rightarrow> string option"

type_synonym ('z, 'a) upd = "('z update_tables_scheme, trigger_update_error, 'a) act"

definition sql :: "update_faults \<Rightarrow> update_stmt \<Rightarrow> ('z, unit) upd" where
  "sql flt st = (case flt st of None \<Rightarrow> act_return () | Some e \<Rightarrow> act_fail (DatabaseErr (DbFailure e)))"

text \<open>The primary key and the partial unique indexes \<open>uix_update_history_host_active\<close> and
  \<open>uix_update_history_host_software_item_active\<close>.\<close>

definition host_active_keys :: "update_row list \<Rightarrow> uuid list" where
  "host_active_keys rows = map uh_host_id (filter (\<lambda>r. uh_status r \<in> set host_blocking) rows)"

definition item_active_keys :: "update_row list \<Rightarrow> (uuid \<times> uuid) list" where
  "item_active_keys rows =
     map (\<lambda>r. (uh_host_id r, uh_software_item_id r)) (filter (\<lambda>r. uh_status r \<in> set unfinished) rows)"

definition indexes_ok :: "update_row list \<Rightarrow> bool" where
  "indexes_ok rows \<longleftrightarrow> distinct (map uh_id rows) \<and> distinct (host_active_keys rows) \<and> distinct (item_active_keys rows)"

definition write_rows :: "update_row list \<Rightarrow> 'a \<Rightarrow> ('z, 'a) upd" where
  "write_rows rows a t =
     (if indexes_ok rows then (Ok a, t\<lparr>ut_rows := rows\<rparr>) else (Err (DatabaseErr UniqueConstraint), t))"

definition set_where :: "('r \<Rightarrow> bool) \<Rightarrow> ('r \<Rightarrow> 'r) \<Rightarrow> 'r list \<Rightarrow> 'r list" where
  "set_where p f rows = map (\<lambda>r. if p r then f r else r) rows"

text \<open>\<open>UPDATE update_history SET f WHERE p\<close>; the result is the number of rows affected.\<close>

definition update_history_many ::
  "update_faults \<Rightarrow> uuid \<Rightarrow> (update_row \<Rightarrow> bool) \<Rightarrow> (update_row \<Rightarrow> update_row) \<Rightarrow> ('z, nat) upd" where
  "update_history_many flt i p f =
     act_bind (sql flt (UpdateRows i)) (\<lambda>_ t.
       write_rows (set_where p f (ut_rows t)) (length (filter p (ut_rows t))) t)"

definition find_row :: "uuid \<Rightarrow> update_row list \<Rightarrow> update_row option" where
  "find_row i rows = find (\<lambda>r. uh_id r = i) rows"

definition select_row :: "update_faults \<Rightarrow> uuid \<Rightarrow> ('z, update_row option) upd" where
  "select_row flt i = act_bind (sql flt (SelectRows i)) (\<lambda>_. act_read (\<lambda>t. find_row i (ut_rows t)))"

definition delete_lines :: "update_faults \<Rightarrow> uuid \<Rightarrow> uuid set \<Rightarrow> ('z, unit) upd" where
  "delete_lines flt i ids =
     act_bind (sql flt (DeleteLines i)) (\<lambda>_ t.
       (Ok (), t\<lparr>ut_lines := filter (\<lambda>l. ol_update_history_id l \<notin> ids) (ut_lines t)\<rparr>))"

definition insert_line :: "update_faults \<Rightarrow> update_stmt \<Rightarrow> output_line \<Rightarrow> ('z, unit) upd" where
  "insert_line flt st l =
     act_bind (sql flt st) (\<lambda>_ t. (Ok (), t\<lparr>ut_lines := ut_lines t @ [l]\<rparr>))"

definition in_tx :: "update_faults \<Rightarrow> uuid \<Rightarrow> ('z, 'a) upd \<Rightarrow> ('z, 'a) upd" where
  "in_tx flt i m = transaction (act_bind (sql flt (BeginTx i)) (\<lambda>_.
     act_bind m (\<lambda>a. act_bind (sql flt (CommitTx i)) (\<lambda>_. act_return a))))"

section \<open>Claim and ownership\<close>

record claim_execution_info =
  ci_batch_id :: "uuid option"
  ci_host_id :: uuid
  ci_software_item_id :: uuid
  ci_tenant_id :: uuid

datatype claim_execution_outcome =
    Claimed claim_execution_info | Replay claim_execution_info | ClaimRejected

definition claim_info :: "update_row \<Rightarrow> claim_execution_info" where
  "claim_info r = \<lparr>ci_batch_id = uh_batch_id r, ci_host_id = uh_host_id r,
     ci_software_item_id = uh_software_item_id r, ci_tenant_id = uh_tenant_id r\<rparr>"

definition owned_status_condition ::
  "uuid \<Rightarrow> uuid option \<Rightarrow> update_status list \<Rightarrow> update_row \<Rightarrow> bool" where
  "owned_status_condition svc inst statuses r \<longleftrightarrow>
     uh_status r \<in> set statuses \<and> uh_owner_service r = Some svc \<and> uh_owner_instance r = inst"

definition owned_in_progress_condition :: "uuid \<Rightarrow> uuid option \<Rightarrow> update_row \<Rightarrow> bool" where
  "owned_in_progress_condition svc inst = owned_status_condition svc inst [StInProgress]"

definition owned_finalizable_condition :: "uuid \<Rightarrow> uuid option \<Rightarrow> update_row \<Rightarrow> bool" where
  "owned_finalizable_condition svc inst = owned_status_condition svc inst [StInProgress, StInterrupted]"

text \<open>A claim that affects no row is rolled back in the code; the tables are unchanged either way.\<close>

definition claim_or_replay_update_start_db ::
  "update_faults \<Rightarrow> instant \<Rightarrow> uuid \<Rightarrow> uuid \<Rightarrow> uuid option \<Rightarrow> bool \<Rightarrow> ('z, claim_execution_outcome) upd" where
  "claim_or_replay_update_start_db flt now i svc inst interactive =
     act_bind (select_row flt i) (\<lambda>found. case found of
       None \<Rightarrow> act_return ClaimRejected
     | Some record \<Rightarrow>
         if uh_status record = StPending \<and> uh_owner_service record = None \<and> uh_owner_instance record = None
         then in_tx flt i (act_bind (update_history_many flt i
                (\<lambda>r. uh_id r = uh_id record \<and> uh_status r = StPending \<and> uh_owner_service r = None \<and>
                     uh_owner_instance r = None)
                (\<lambda>r. r\<lparr>uh_status := StInProgress, uh_started_at := Some now, uh_owner_service := Some svc,
                      uh_owner_instance := inst, uh_interactive := interactive, uh_output := [],
                      uh_output_bytes := 0, uh_output_truncated := False\<rparr>)) (\<lambda>n.
              if n = 0 then act_return ClaimRejected
              else act_bind (delete_lines flt i {uh_id record}) (\<lambda>_.
                act_return (Claimed (claim_info record)))))
         else if uh_status record = StInProgress \<and> uh_owner_service record = None
         then in_tx flt i (act_bind (update_history_many flt i
                (\<lambda>r. uh_id r = uh_id record \<and> uh_status r = StInProgress \<and> uh_owner_service r = None)
                (\<lambda>r. r\<lparr>uh_owner_service := Some svc, uh_owner_instance := inst, uh_interactive := interactive\<rparr>))
              (\<lambda>n. if n = 0 then act_return ClaimRejected else act_return (Claimed (claim_info record))))
         else if uh_status record = StInProgress \<and> uh_owner_service record = Some svc \<and>
                 uh_owner_instance record = inst
         then act_return (Replay (claim_info record))
         else act_return ClaimRejected)"

section \<open>Streamed output\<close>

definition UPDATE_OUTPUT_BYTES_CAP :: int where "UPDATE_OUTPUT_BYTES_CAP = 52428800"

definition OUTPUT_TRUNCATION_NOTICE :: string where
  "OUTPUT_TRUNCATION_NOTICE = CHR 0x0A # ''[Output truncated: this update produced more than 50 MB of output. Only the first 50 MB is stored.]'' @ [CHR 0x0A]"

datatype append_outcome =
    Ignored
  | Appended output_line
  | TruncationNotice output_line
  | AppendedWithTruncation output_line output_line

fun is_truncation_notice :: "append_outcome \<Rightarrow> bool" where
  "is_truncation_notice (TruncationNotice _) = True"
| "is_truncation_notice (AppendedWithTruncation _ _) = True"
| "is_truncation_notice _ = False"

fun into_persisted_lines :: "append_outcome \<Rightarrow> output_line list" where
  "into_persisted_lines Ignored = []"
| "into_persisted_lines (Appended l) = [l]"
| "into_persisted_lines (TruncationNotice l) = [l]"
| "into_persisted_lines (AppendedWithTruncation l n) = [l, n]"

text \<open>A string is its UTF-8 bytes; a byte position is a character boundary when it is not in front of
  a continuation byte.\<close>

definition continuation_byte :: "char \<Rightarrow> bool" where
  "continuation_byte c \<longleftrightarrow> (of_char c :: nat) div 64 = 2"

definition is_char_boundary :: "string \<Rightarrow> nat \<Rightarrow> bool" where
  "is_char_boundary s n \<longleftrightarrow> n = 0 \<or> n = length s \<or> (n < length s \<and> \<not> continuation_byte (s ! n))"

fun walk_back :: "string \<Rightarrow> nat \<Rightarrow> nat" where
  "walk_back s 0 = 0"
| "walk_back s (Suc n) = (if \<not> is_char_boundary s (Suc n) then walk_back s n else Suc n)"

definition truncate_to_char_boundary :: "string \<Rightarrow> nat \<Rightarrow> string" where
  "truncate_to_char_boundary s max_bytes =
     (if length s \<le> max_bytes then s else take (walk_back s max_bytes) s)"

text \<open>\<open>ids\<close> are the ids of the two lines that the call may insert, \<open>now\<close> the time it reads.\<close>

definition append_update_output_if_owned ::
  "update_faults \<Rightarrow> instant \<Rightarrow> uuid \<times> uuid \<Rightarrow> uuid \<Rightarrow> uuid \<Rightarrow> uuid option \<Rightarrow> output_stream_type \<Rightarrow> string \<Rightarrow>
   ('z, append_outcome) upd" where
  "append_update_output_if_owned flt now ids i svc inst stream out =
     in_tx flt i
      (act_bind (sql flt (SelectRows i)) (\<lambda>_.
       act_bind (act_read (\<lambda>t. find (\<lambda>r. uh_id r = i \<and> owned_in_progress_condition svc inst r) (ut_rows t))) (\<lambda>found.
       case found of
         None \<Rightarrow> act_return Ignored
       | Some record \<Rightarrow>
           if uh_output_truncated record then act_return Ignored
           else
            let line_len = int (length out);
                remaining = (if UPDATE_OUTPUT_BYTES_CAP \<le> uh_output_bytes record then 0
                             else UPDATE_OUTPUT_BYTES_CAP - uh_output_bytes record);
                stored_prefix = truncate_to_char_boundary out (nat remaining);
                guard = (\<lambda>r. uh_id r = i \<and> owned_in_progress_condition svc inst r \<and> \<not> uh_output_truncated r);
                line = (\<lambda>text. \<lparr>ol_id = fst ids, ol_update_history_id = i, ol_stream = stream, ol_output = text,
                               ol_created_at = now\<rparr>)
            in if 0 < remaining \<and> line_len \<le> remaining
               then act_bind (update_history_many flt i guard
                      (\<lambda>r. r\<lparr>uh_output_bytes := uh_output_bytes r + line_len\<rparr>)) (\<lambda>n.
                    if n \<noteq> 1 then act_return Ignored
                    else act_bind (insert_line flt (InsertLine i) (line out)) (\<lambda>_.
                           act_return (Appended (line out))))
               else act_bind (update_history_many flt i guard
                      (\<lambda>r. r\<lparr>uh_output_bytes := uh_output_bytes record + int (length stored_prefix),
                             uh_output_truncated := True\<rparr>)) (\<lambda>n.
                    if n \<noteq> 1 then act_return Ignored
                    else
                     let notice = \<lparr>ol_id = snd ids, ol_update_history_id = i, ol_stream = SystemStream,
                                   ol_output = OUTPUT_TRUNCATION_NOTICE, ol_created_at = now\<rparr>
                     in act_bind (if stored_prefix \<noteq> [] then insert_line flt (InsertLine i) (line stored_prefix)
                                  else act_return ()) (\<lambda>_.
                        act_bind (insert_line flt (InsertNotice i) notice) (\<lambda>_.
                        act_return (if stored_prefix \<noteq> [] then AppendedWithTruncation (line stored_prefix) notice
                                    else TruncationNotice notice)))))))"

definition touch_stdin_attention_if_owned ::
  "update_faults \<Rightarrow> uuid \<Rightarrow> uuid \<Rightarrow> uuid option \<Rightarrow> ('z, nat) upd" where
  "touch_stdin_attention_if_owned flt i svc inst =
     update_history_many flt i (\<lambda>r. uh_id r = i \<and> owned_in_progress_condition svc inst r) (\<lambda>r. r)"

section \<open>Results\<close>

definition row_final_status :: "update_final_status \<Rightarrow> update_status" where
  "row_final_status s = (if s = FinalCompleted then StCompleted else StFailed)"

definition final_output :: "string \<Rightarrow> string option \<Rightarrow> string" where
  "final_output out err = (if out = [] then (case err of Some e \<Rightarrow> e | None \<Rightarrow> []) else out)"

record finalize_args =
  fa_update_history_id :: uuid
  fa_service_id :: uuid
  fa_runtime_instance_id :: "uuid option"
  fa_status :: update_final_status
  fa_error :: "string option"
  fa_output :: string
  fa_from_version :: "string option"
  fa_to_version :: "string option"

definition finalize_update_result_if_owned ::
  "update_faults \<Rightarrow> instant \<Rightarrow> finalize_args \<Rightarrow> ('z, nat) upd" where
  "finalize_update_result_if_owned flt now args =
     (let out = final_output (fa_output args) (fa_error args) in
      update_history_many flt (fa_update_history_id args)
        (\<lambda>r. uh_id r = fa_update_history_id args \<and>
             owned_finalizable_condition (fa_service_id args) (fa_runtime_instance_id args) r)
        (\<lambda>r. r\<lparr>uh_status := row_final_status (fa_status args), uh_completed_at := Some now, uh_output := out,
               uh_output_bytes := int (length out), uh_from_version := fa_from_version args,
               uh_to_version := fa_to_version args\<rparr>))"

record batch_item_args =
  ba_update_history_id :: uuid
  ba_service_id :: uuid
  ba_runtime_instance_id :: "uuid option"
  ba_status :: update_final_status
  ba_error :: "string option"
  ba_output :: string
  ba_installed_version :: "string option"

definition finalize_batch_item_if_owned ::
  "update_faults \<Rightarrow> instant \<Rightarrow> batch_item_args \<Rightarrow> ('z, nat) upd" where
  "finalize_batch_item_if_owned flt now args =
     (let out = final_output (ba_output args) (ba_error args) in
      update_history_many flt (ba_update_history_id args)
        (\<lambda>r. uh_id r = ba_update_history_id args \<and>
             owned_in_progress_condition (ba_service_id args) (ba_runtime_instance_id args) r)
        (\<lambda>r. r\<lparr>uh_status := row_final_status (ba_status args), uh_completed_at := Some now, uh_output := out,
               uh_output_bytes := int (length out), uh_to_version := ba_installed_version args\<rparr>))"

text \<open>\<open>finalize\<close> is what the protection plugin answers for the row; without a plugin nothing happens.\<close>

definition finalize_post_update ::
  "update_faults \<Rightarrow> (update_row \<Rightarrow> string + string option) option \<Rightarrow> update_row \<Rightarrow> ('z, unit) upd" where
  "finalize_post_update flt protection record = (case protection of
       None \<Rightarrow> act_return ()
     | Some fin \<Rightarrow> (case fin record of
         Inl e \<Rightarrow> act_fail (PostUpdateFinalization e)
       | Inr hint \<Rightarrow> act_bind (update_history_many flt (uh_id record) (\<lambda>r. uh_id r = uh_id record)
           (\<lambda>r. r\<lparr>uh_recovery_hint := hint\<rparr>)) (\<lambda>_. act_return ())))"

text \<open>A failed finalization is logged.\<close>

definition fail_pending_unowned_update ::
  "update_faults \<Rightarrow> instant \<Rightarrow> (update_row \<Rightarrow> string + string option) option \<Rightarrow> uuid \<Rightarrow> string option \<Rightarrow> string \<Rightarrow>
   ('z, nat) upd" where
  "fail_pending_unowned_update flt now protection i err out =
     act_bind (select_row flt i) (\<lambda>found. case found of
       None \<Rightarrow> act_return 0
     | Some existing \<Rightarrow>
         let fo = final_output out err;
             failed = (\<lambda>r. r\<lparr>uh_status := StFailed, uh_completed_at := Some now, uh_output := fo,
                             uh_output_bytes := int (length fo)\<rparr>)
         in act_bind (update_history_many flt i
              (\<lambda>r. uh_id r = i \<and> uh_status r = StPending \<and> uh_owner_service r = None \<and> uh_owner_instance r = None)
              failed) (\<lambda>n.
            if n = 1 then act_try (finalize_post_update flt protection (failed existing)) (\<lambda>_. act_return n)
            else act_return n))"

section \<open>Restart\<close>

definition transition_to_awaiting_restart ::
  "update_faults \<Rightarrow> instant \<Rightarrow> uuid \<Rightarrow> uuid \<Rightarrow> ('z, nat) upd" where
  "transition_to_awaiting_restart flt now i svc =
     update_history_many flt i (\<lambda>r. uh_id r = i \<and> uh_status r = StInProgress \<and> uh_owner_service r = Some svc)
       (\<lambda>r. r\<lparr>uh_status := StAwaitingRestart, uh_awaiting_restart_since := Some now\<rparr>)"

definition apply_awaiting_restart_version_check ::
  "update_faults \<Rightarrow> instant \<Rightarrow> uuid \<Rightarrow> string option \<Rightarrow> bool option \<Rightarrow> string option \<Rightarrow>
   ('z, update_status option) upd" where
  "apply_awaiting_restart_version_check flt now hsi installed_version not_ready error =
     act_bind (sql flt (SelectRows hsi)) (\<lambda>_.
     act_bind (act_read (\<lambda>t. find (\<lambda>r. uh_host_software_item_id r = Some hsi \<and> uh_status r = StAwaitingRestart)
       (ut_rows t))) (\<lambda>found. case found of
       None \<Rightarrow> act_return None
     | Some record \<Rightarrow>
         if not_ready = Some True then act_return None
         else if error \<noteq> None then act_return None
         else (case installed_version of
           None \<Rightarrow> act_return None
         | Some installed \<Rightarrow> (case uh_to_version record of
             None \<Rightarrow> act_return None
           | Some to_version \<Rightarrow>
               let new_status = (if installed = to_version then StCompleted else StFailed) in
               act_bind (update_history_many flt (uh_id record)
                 (\<lambda>r. uh_id r = uh_id record \<and> uh_status r = StAwaitingRestart)
                 (\<lambda>r. r\<lparr>uh_status := new_status, uh_completed_at := Some now\<rparr>)) (\<lambda>n.
               if n = 0 then act_return None else act_return (Some new_status))))))"

text \<open>The part of \<open>handle_version_check_results\<close> that writes updates: the results of a service, whichever
  update they name, are applied when the service is linked to some host. \<open>linked\<close> are its hosts, unless
  the lookup failed; an error of one result is logged. (The advance of the queue that follows a finished
  restart is the loop in \<open>Update_Dispatch\<close>.)\<close>

record version_check_result =
  vr_host_software_item_id :: "uuid option"
  vr_installed_version :: "string option"
  vr_not_ready :: "bool option"
  vr_error :: "string option"

definition correlate_restart :: "update_faults \<Rightarrow> instant \<Rightarrow> version_check_result \<Rightarrow> ('z, unit) upd" where
  "correlate_restart flt now result = (case vr_host_software_item_id result of
       None \<Rightarrow> act_return ()
     | Some hsi \<Rightarrow> act_try (apply_awaiting_restart_version_check flt now hsi (vr_installed_version result)
         (vr_not_ready result) (vr_error result)) (\<lambda>_. act_return ()))"

definition handle_version_check_results ::
  "update_faults \<Rightarrow> instant \<Rightarrow> uuid list option \<Rightarrow> version_check_result list \<Rightarrow> ('z, unit) upd" where
  "handle_version_check_results flt now linked results = (case linked of
       None \<Rightarrow> act_return ()
     | Some hosts \<Rightarrow> if hosts = [] then act_return () else act_each (correlate_restart flt now) results)"

text \<open>The timeout of the scheduler; the result are the hosts whose queues are told to go on. \<open>timeouts\<close> is
  the column of the software item.\<close>

definition DEFAULT_RESTART_TIMEOUT :: int where "DEFAULT_RESTART_TIMEOUT = 600"

fun enforce_timeouts_loop ::
  "update_faults \<Rightarrow> instant \<Rightarrow> (uuid \<Rightarrow> int option) \<Rightarrow> update_row list \<Rightarrow> ('z, (uuid \<times> uuid) list) upd" where
  "enforce_timeouts_loop flt now timeouts [] = act_return []"
| "enforce_timeouts_loop flt now timeouts (record # records) = (case uh_awaiting_restart_since record of
       None \<Rightarrow> enforce_timeouts_loop flt now timeouts records
     | Some since \<Rightarrow>
         let timeout_secs = (case timeouts (uh_software_item_id record) of Some s \<Rightarrow> s | None \<Rightarrow> DEFAULT_RESTART_TIMEOUT)
         in if now \<le> since + timeout_secs then enforce_timeouts_loop flt now timeouts records
            else act_bind (update_history_many flt (uh_id record)
                (\<lambda>r. uh_id r = uh_id record \<and> uh_status r = StAwaitingRestart)
                (\<lambda>r. r\<lparr>uh_status := StFailed, uh_completed_at := Some now\<rparr>)) (\<lambda>n.
              act_bind (enforce_timeouts_loop flt now timeouts records) (\<lambda>signals.
              act_return (if 0 < n then (uh_host_id record, uh_tenant_id record) # signals else signals))))"

definition enforce_timeouts ::
  "update_faults \<Rightarrow> instant \<Rightarrow> (uuid \<Rightarrow> int option) \<Rightarrow> ('z, (uuid \<times> uuid) list) upd" where
  "enforce_timeouts flt now timeouts =
     act_bind (sql flt (SelectRows 0)) (\<lambda>_.
     act_bind (act_read (\<lambda>t. filter (\<lambda>r. uh_status r = StAwaitingRestart \<and> uh_awaiting_restart_since r \<noteq> None)
       (ut_rows t))) (\<lambda>records. enforce_timeouts_loop flt now timeouts records))"

section \<open>Reconnect and start-up\<close>

definition RECOVERY_HINT :: string where
  "RECOVERY_HINT = ''execution outcome unknown '' @ [CHR 0xE2, CHR 0x80, CHR 0x94] @
     '' connection lost or deadline exceeded; verify the installed version before re-running''"

definition interrupted_row :: "instant \<Rightarrow> string \<Rightarrow> update_row \<Rightarrow> update_row" where
  "interrupted_row now reason r = r\<lparr>uh_status := StInterrupted, uh_completed_at := Some now,
     uh_recovery_hint := Some RECOVERY_HINT, uh_output := reason, uh_output_bytes := int (length reason)\<rparr>"

text \<open>Of another instance of the service, or of none.\<close>

definition other_instance :: "uuid option \<Rightarrow> update_row \<Rightarrow> bool" where
  "other_instance inst r = (case inst of
       Some current \<Rightarrow> uh_owner_instance r = None \<or> uh_owner_instance r \<noteq> Some current
     | None \<Rightarrow> uh_owner_instance r = None)"

definition reconnect_candidate :: "uuid \<Rightarrow> uuid option \<Rightarrow> update_row \<Rightarrow> bool" where
  "reconnect_candidate svc inst r \<longleftrightarrow>
     uh_status r = StInProgress \<and> uh_owner_service r = Some svc \<and> other_instance inst r"

definition load_owned_reconnect_candidates ::
  "update_faults \<Rightarrow> uuid \<Rightarrow> uuid option \<Rightarrow> ('z, update_row list) upd" where
  "load_owned_reconnect_candidates flt svc inst =
     act_bind (sql flt (SelectRows svc)) (\<lambda>_. act_read (\<lambda>t. filter (reconnect_candidate svc inst) (ut_rows t)))"

text \<open>The loop over the candidates inside the transaction; it returns the rows it interrupted.\<close>

fun interrupt_loop ::
  "update_faults \<Rightarrow> (update_row \<Rightarrow> bool) \<Rightarrow> instant \<Rightarrow> string \<Rightarrow> update_row list \<Rightarrow> ('z, update_row list) upd" where
  "interrupt_loop flt guard now reason [] = act_return []"
| "interrupt_loop flt guard now reason (record # rest) =
     act_bind (update_history_many flt (uh_id record) (\<lambda>r. uh_id r = uh_id record \<and> guard r)
       (\<lambda>r. (interrupted_row now reason r)\<lparr>uh_output_truncated := False\<rparr>)) (\<lambda>n.
     act_bind (interrupt_loop flt guard now reason rest) (\<lambda>interrupted.
     act_return (if n = 1 then interrupted_row now reason record # interrupted else interrupted)))"

definition interrupt_all ::
  "update_faults \<Rightarrow> (update_row \<Rightarrow> bool) \<Rightarrow> uuid \<Rightarrow> instant \<Rightarrow> string \<Rightarrow> update_row list \<Rightarrow> ('z, update_row list) upd" where
  "interrupt_all flt guard i now reason candidates =
     (if candidates = [] then act_return []
      else in_tx flt i (act_bind (interrupt_loop flt guard now reason candidates) (\<lambda>interrupted.
        act_bind (if interrupted \<noteq> [] then delete_lines flt i (uh_id ` set interrupted) else act_return ()) (\<lambda>_.
        act_return interrupted))))"

definition mark_owned_in_progress_as_interrupted_on_reconnect ::
  "update_faults \<Rightarrow> instant \<Rightarrow> uuid \<Rightarrow> uuid option \<Rightarrow> ('z, update_row list) upd" where
  "mark_owned_in_progress_as_interrupted_on_reconnect flt now svc inst =
     act_bind (load_owned_reconnect_candidates flt svc inst) (\<lambda>candidates.
     interrupt_all flt (reconnect_candidate svc inst) svc now
       ''Update interrupted: agent restarted (outcome unknown)'' candidates)"

definition mark_all_in_progress_as_interrupted_for_rollout ::
  "update_faults \<Rightarrow> instant \<Rightarrow> ('z, update_row list) upd" where
  "mark_all_in_progress_as_interrupted_for_rollout flt now =
     act_bind (sql flt (SelectRows 0)) (\<lambda>_.
     act_bind (act_read (\<lambda>t. filter (\<lambda>r. uh_status r = StInProgress) (ut_rows t))) (\<lambda>candidates.
     interrupt_all flt (\<lambda>r. uh_status r = StInProgress) 0 now
       ''Update interrupted: owner-aware rollout (outcome unknown)'' candidates))"

definition mark_orchestrator_inprogress_as_failed_on_reconnect ::
  "update_faults \<Rightarrow> instant \<Rightarrow> uuid list \<Rightarrow> ('z, unit) upd" where
  "mark_orchestrator_inprogress_as_failed_on_reconnect flt now host_ids =
     (if host_ids = [] then act_return ()
      else
       let reason = ''Protection interrupted: controller restarted'' in
       act_bind (update_history_many flt 0
         (\<lambda>r. uh_status r = StInProgress \<and> uh_owner_service r = None \<and> uh_host_id r \<in> set host_ids)
         (\<lambda>r. r\<lparr>uh_status := StFailed, uh_completed_at := Some now, uh_output := reason,
               uh_output_bytes := int (length reason), uh_output_truncated := False,
               uh_protection_status := Some ''failed''\<rparr>)) (\<lambda>_. act_return ()))"

section \<open>Protection before the dispatch\<close>

definition set_inprogress_for_orchestrator :: "update_faults \<Rightarrow> instant \<Rightarrow> uuid \<Rightarrow> ('z, nat) upd" where
  "set_inprogress_for_orchestrator flt now i =
     update_history_many flt i (\<lambda>r. uh_id r = i \<and> uh_status r = StPending)
       (\<lambda>r. r\<lparr>uh_status := StInProgress, uh_protection_status := Some ''in_progress'',
              uh_owner_service := None, uh_started_at := Some now\<rparr>)"

definition write_pre_update_protection_status ::
  "update_faults \<Rightarrow> uuid \<Rightarrow> string option \<Rightarrow> string option \<Rightarrow> ('z, unit) upd" where
  "write_pre_update_protection_status flt i status summary =
     act_bind (update_history_many flt i (\<lambda>r. uh_id r = i)
       (\<lambda>r. r\<lparr>uh_protection_status := status, uh_protection_summary := summary\<rparr>)) (\<lambda>_. act_return ())"

definition PRE_UPDATE_PROTECTION_FAILURE_SUMMARY :: string where
  "PRE_UPDATE_PROTECTION_FAILURE_SUMMARY = ''Controller pre-update protection failed before dispatch.''"

definition fail_before_agent_dispatch ::
  "update_faults \<Rightarrow> instant \<Rightarrow> uuid \<Rightarrow> string option \<Rightarrow> string option \<Rightarrow> ('z, unit) upd" where
  "fail_before_agent_dispatch flt now i protection_status protection_summary =
     (let summary = (case protection_summary of
                       Some s \<Rightarrow> if s \<noteq> [] then s else PRE_UPDATE_PROTECTION_FAILURE_SUMMARY
                     | None \<Rightarrow> PRE_UPDATE_PROTECTION_FAILURE_SUMMARY)
      in act_bind (update_history_many flt i (\<lambda>r. uh_id r = i)
        (\<lambda>r. r\<lparr>uh_status := StFailed, uh_completed_at := Some now,
              uh_protection_status := (case protection_status of Some s \<Rightarrow> Some s | None \<Rightarrow> Some ''failed''),
              uh_protection_summary := Some summary\<rparr>)) (\<lambda>_. act_return ()))"

definition insert_protection_output_line ::
  "update_faults \<Rightarrow> uuid \<Rightarrow> uuid \<Rightarrow> string \<Rightarrow> output_stream_type \<Rightarrow> instant \<Rightarrow> ('z, unit) upd" where
  "insert_protection_output_line flt i line_id text stream timestamp =
     insert_line flt (InsertLine i) \<lparr>ol_id = line_id, ol_update_history_id = i, ol_stream = stream,
       ol_output = text, ol_created_at = timestamp\<rparr>"

definition append_output_with_cap :: "string \<Rightarrow> string \<Rightarrow> nat \<Rightarrow> string \<times> bool" where
  "append_output_with_cap output line cap =
     (if cap \<le> length output then (output, True)
      else
       let remaining = cap - length output
       in (output @ truncate_to_char_boundary line remaining, remaining < length line))"

fun concat_lines :: "nat \<Rightarrow> string \<Rightarrow> output_line list \<Rightarrow> string \<times> bool" where
  "concat_lines cap output [] = (output, False)"
| "concat_lines cap output (l # ls) =
     (case append_output_with_cap output (ol_output l) cap of
        (output', True) \<Rightarrow> (output', True)
      | (output', False) \<Rightarrow> concat_lines cap output' ls)"

text \<open>The lines of an update by time and id.\<close>

definition lines_of :: "uuid \<Rightarrow> 'z update_tables_scheme \<Rightarrow> output_line list" where
  "lines_of i t = sort_key ol_created_at (sort_key ol_id (filter (\<lambda>l. ol_update_history_id l = i) (ut_lines t)))"

definition load_output_lines_with_truncation :: "nat \<Rightarrow> uuid \<Rightarrow> 'z update_tables_scheme \<Rightarrow> string \<times> bool" where
  "load_output_lines_with_truncation cap i t = concat_lines cap [] (lines_of i t)"

definition consolidate_protection_output :: "update_faults \<Rightarrow> uuid \<Rightarrow> ('z, unit) upd" where
  "consolidate_protection_output flt i =
     act_bind (sql flt (SelectRows i)) (\<lambda>_.
     act_bind (act_read (load_output_lines_with_truncation (nat UPDATE_OUTPUT_BYTES_CAP) i)) (\<lambda>(output, truncated).
     act_bind (update_history_many flt i (\<lambda>r. uh_id r = i)
       (\<lambda>r. r\<lparr>uh_output := output, uh_output_bytes := int (length output), uh_output_truncated := truncated\<rparr>)) (\<lambda>_.
     act_return ())))"

section \<open>New rows and the queue\<close>

definition has_active_update_for_host :: "update_faults \<Rightarrow> uuid \<Rightarrow> ('z, bool) upd" where
  "has_active_update_for_host flt host =
     act_bind (sql flt (SelectRows host)) (\<lambda>_.
     act_read (\<lambda>t. 0 < length (filter (\<lambda>r. uh_host_id r = host \<and> uh_status r \<in> set host_blocking) (ut_rows t))))"

definition has_active_update_for_host_software_item ::
  "update_faults \<Rightarrow> uuid \<Rightarrow> uuid \<Rightarrow> ('z, bool) upd" where
  "has_active_update_for_host_software_item flt host item =
     act_bind (sql flt (SelectRows item)) (\<lambda>_.
     act_read (\<lambda>t. 0 < length (filter (\<lambda>r. uh_host_id r = host \<and> uh_software_item_id r = item \<and>
       uh_status r \<in> set unfinished) (ut_rows t))))"

record create_params =
  cp_tenant_id :: uuid
  cp_host_id :: uuid
  cp_item_id :: uuid
  cp_host_software_item_id :: "uuid option"
  cp_to_version :: string
  cp_from_version :: "string option"
  cp_actor_type :: string
  cp_actor_id :: string
  cp_update_category :: string
  cp_batch_id :: "uuid option"
  cp_initial_status :: update_status
  cp_interactive :: bool

definition DEFAULT_UPDATE_TIMEOUT :: int where "DEFAULT_UPDATE_TIMEOUT = 7200"

definition new_history_row :: "uuid \<Rightarrow> instant \<Rightarrow> create_params \<Rightarrow> update_row" where
  "new_history_row new_id now params =
     \<lparr>uh_id = new_id, uh_tenant_id = cp_tenant_id params, uh_host_id = cp_host_id params,
      uh_software_item_id = cp_item_id params, uh_host_software_item_id = cp_host_software_item_id params,
      uh_from_version = cp_from_version params, uh_to_version = Some (cp_to_version params),
      uh_status = cp_initial_status params, uh_output = [], uh_output_bytes = 0,
      uh_actor_type = cp_actor_type params, uh_actor_id = cp_actor_id params,
      uh_owner_service = None, uh_owner_instance = None, uh_started_at = Some now, uh_completed_at = None,
      uh_awaiting_restart_since = None, uh_created_at = now, uh_update_category = cp_update_category params,
      uh_batch_id = cp_batch_id params, uh_interactive = cp_interactive params, uh_output_truncated = False,
      uh_protection_status = None, uh_protection_summary = None, uh_recovery_hint = None,
      uh_timeout_seconds = Some DEFAULT_UPDATE_TIMEOUT\<rparr>"

definition create_update_history_record ::
  "update_faults \<Rightarrow> uuid \<Rightarrow> instant \<Rightarrow> create_params \<Rightarrow> ('z, uuid) upd" where
  "create_update_history_record flt new_id now params =
     act_bind (sql flt (InsertRow new_id)) (\<lambda>_ t.
       write_rows (ut_rows t @ [new_history_row new_id now params]) new_id t)"

text \<open>The oldest queued update of a host, by id.\<close>

definition next_queued :: "uuid \<Rightarrow> update_row list \<Rightarrow> update_row option" where
  "next_queued host rows =
     (case sort_key uh_id (filter (\<lambda>r. uh_host_id r = host \<and> uh_status r = StQueued) rows) of
        [] \<Rightarrow> None | r # _ \<Rightarrow> Some r)"

definition promote_queued :: "update_faults \<Rightarrow> uuid \<Rightarrow> ('z, nat) upd" where
  "promote_queued flt i =
     update_history_many flt i (\<lambda>r. uh_id r = i \<and> uh_status r = StQueued) (\<lambda>r. r\<lparr>uh_status := StPending\<rparr>)"

text \<open>\<open>ActiveModel::update\<close> writes the changed columns of the row with the id and fails when there is none.\<close>

definition fail_dispatch :: "update_faults \<Rightarrow> instant \<Rightarrow> string \<Rightarrow> uuid \<Rightarrow> ('z, unit) upd" where
  "fail_dispatch flt now report i =
     (let output = ''dispatch failed: '' @ report in
      act_bind (update_history_many flt i (\<lambda>r. uh_id r = i)
        (\<lambda>r. r\<lparr>uh_status := StFailed, uh_completed_at := Some now, uh_output := output,
               uh_output_bytes := int (length output)\<rparr>)) (\<lambda>n.
      if n = 0 then act_fail (DatabaseErr RecordNotUpdated) else act_return ()))"

text \<open>What the deactivation of a link does to its updates, inside its transaction.\<close>

definition UNINSTALLED_UPDATE_OUTPUT :: string where
  "UNINSTALLED_UPDATE_OUTPUT = ''software no longer installed on host''"

definition terminate_uninstalled :: "update_faults \<Rightarrow> instant \<Rightarrow> uuid \<Rightarrow> ('z, unit) upd" where
  "terminate_uninstalled flt now link =
     in_tx flt link (act_bind (sql flt (SelectRows link)) (\<lambda>_.
     act_bind (act_read (\<lambda>t. filter (\<lambda>r. uh_host_software_item_id r = Some link \<and> uh_status r \<in> set unfinished)
       (ut_rows t))) (\<lambda>unfinished_rows.
     act_each (\<lambda>row. act_bind (update_history_many flt (uh_id row) (\<lambda>r. uh_id r = uh_id row)
         (\<lambda>r. r\<lparr>uh_status := StFailed, uh_completed_at := Some now, uh_output := UNINSTALLED_UPDATE_OUTPUT,
               uh_output_bytes := int (length UNINSTALLED_UPDATE_OUTPUT)\<rparr>)) (\<lambda>n.
       if n = 0 then act_fail (DatabaseErr RecordNotUpdated) else act_return ())) unfinished_rows)))"

text \<open>A pending update that cannot be sent again after a reconnect; the result says whether it was failed
  here. A failed finalization is logged; a failed lookup of the service, after the write, is an error. The
  notifications and the advance of the queue that follow are not part of it.\<close>

definition UNREPLAYABLE_REASON :: string where
  "UNREPLAYABLE_REASON = ''Update replay failed: controller could not reconstruct the pending update after reconnect''"

definition fail_unreplayable_pending_update ::
  "update_faults \<Rightarrow> instant \<Rightarrow> (update_row \<Rightarrow> string + string option) option \<Rightarrow> update_row \<Rightarrow> ('z, bool) upd" where
  "fail_unreplayable_pending_update flt now protection record =
     (let failed = (\<lambda>r. r\<lparr>uh_status := StFailed, uh_completed_at := Some now, uh_output := UNREPLAYABLE_REASON,
            uh_output_bytes := int (length UNREPLAYABLE_REASON)\<rparr>)
      in act_bind (update_history_many flt (uh_id record) (\<lambda>r. uh_id r = uh_id record \<and> uh_status r = StPending) failed) (\<lambda>n.
         if n = 0 then act_return False
         else act_try (finalize_post_update flt protection (failed record)) (\<lambda>_.
           act_bind (sql flt (SelectAgents (uh_id record))) (\<lambda>_. act_return True))))"

section \<open>The reaper\<close>

definition MAX_BUDGET_SECS :: int where "MAX_BUDGET_SECS = 60 * 60 * 24 * 30"

definition row_budget :: "int \<Rightarrow> update_row \<Rightarrow> int" where
  "row_budget default_budget r = (case uh_timeout_seconds r of
       Some s \<Rightarrow> if 0 \<le> s then min s MAX_BUDGET_SECS else default_budget
     | None \<Rightarrow> default_budget)"

text \<open>\<open>time_max\<close> is the last instant that the time type can represent; a deadline past it counts as
  exceeded.\<close>

definition overdue :: "instant \<Rightarrow> instant \<Rightarrow> int \<Rightarrow> int \<Rightarrow> update_row \<Rightarrow> bool" where
  "overdue time_max now default_budget grace r = (case uh_started_at r of
       None \<Rightarrow> False
     | Some started \<Rightarrow>
         let deadline = started + (row_budget default_budget r + grace)
         in if time_max < deadline then True else deadline < now)"

definition REAP_REASON :: string where
  "REAP_REASON = ''Update interrupted: deadline exceeded without a terminal result''"

definition reap_overdue_updates ::
  "update_faults \<Rightarrow> instant \<Rightarrow> instant \<Rightarrow> int \<Rightarrow> int \<Rightarrow> ('z, update_row list) upd" where
  "reap_overdue_updates flt time_max now default_budget grace =
     in_tx flt 0 (act_bind (sql flt (SelectRows 0)) (\<lambda>_.
       act_bind (act_read (\<lambda>t. filter (\<lambda>r. uh_status r = StInProgress \<and> uh_started_at r \<noteq> None) (ut_rows t))) (\<lambda>rows.
       let od = filter (overdue time_max now default_budget grace) rows in
       if od = [] then act_return []
       else act_bind (update_history_many flt 0 (\<lambda>r. uh_id r \<in> uh_id ` set od \<and> uh_status r = StInProgress)
              (interrupted_row now REAP_REASON)) (\<lambda>_.
            act_return (map (interrupted_row now REAP_REASON) od)))))"

definition PENDING_RECOVERY_HINT :: string where
  "PENDING_RECOVERY_HINT = ''the update never started on the host '' @ [CHR 0xE2, CHR 0x80, CHR 0x94] @
     '' the dispatch was not delivered before the agent connection was lost; safe to re-run once the agent reconnects''"

definition PENDING_REASON :: string where
  "PENDING_REASON = ''Update interrupted: dispatch never started '' @ [CHR 0xE2, CHR 0x80, CHR 0x94] @
     '' agent connection absent past the dispatch grace''"

definition never_started_row :: "instant \<Rightarrow> update_row \<Rightarrow> update_row" where
  "never_started_row now r = r\<lparr>uh_status := StInterrupted, uh_completed_at := Some now,
     uh_recovery_hint := Some PENDING_RECOVERY_HINT, uh_output := PENDING_REASON,
     uh_output_bytes := int (length PENDING_REASON)\<rparr>"

definition reap_stalled_pending_updates ::
  "update_faults \<Rightarrow> instant \<Rightarrow> uuid list \<Rightarrow> ('z, update_row list) upd" where
  "reap_stalled_pending_updates flt now ids =
     (if ids = [] then act_return []
      else in_tx flt 0 (act_bind (sql flt (SelectRows 0)) (\<lambda>_.
        act_bind (act_read (\<lambda>t. filter (\<lambda>r. uh_id r \<in> set ids \<and> uh_status r = StPending) (ut_rows t))) (\<lambda>cands.
        if cands = [] then act_return []
        else act_bind (update_history_many flt 0 (\<lambda>r. uh_id r \<in> uh_id ` set cands \<and> uh_status r = StPending)
               (never_started_row now)) (\<lambda>_.
             act_return (map (never_started_row now) cands))))))"

end
