(* ===== verification/Update_Lifecycle.thy ===== *)
theory Update_Lifecycle
  imports Update_Store
begin

text \<open>
  What the writes of \<open>Update_Store\<close> may do to a row of \<open>update_history\<close>, as a relation on rows, and
  what follows for any interleaving of the operations by agents and controllers on the shared tables:
  the invariant of the store, the permanence of a finished update, the ownership of a running one, the
  bound on streamed output and the sweep of the reaper.
\<close>

section \<open>The life cycle of a row\<close>

text \<open>What one write may do to a row. The writes that check the status name who makes them;
  \<open>ByVersionCheck\<close> is the version that some service reports after a restart, \<open>ByPlugin\<close> are the
  annotations after the end of an update, and \<open>Unguarded\<close> the writes by id that look at no status: those
  of the protection run, of a failed dispatch and of uninstalled software.\<close>

datatype writer = ByAgent uuid "uuid option" | ByQueue | ByRecovery | ByVersionCheck | ByPlugin | Unguarded

inductive row_step :: "writer \<Rightarrow> update_row \<Rightarrow> update_row \<Rightarrow> bool" where
  claim: "uh_status r = StPending \<Longrightarrow> uh_owner_service r = None \<Longrightarrow> uh_owner_instance r = None \<Longrightarrow>
    row_step (ByAgent svc inst) r (r\<lparr>uh_status := StInProgress, uh_started_at := Some now,
      uh_owner_service := Some svc, uh_owner_instance := inst, uh_interactive := interactive,
      uh_output := [], uh_output_bytes := 0, uh_output_truncated := False\<rparr>)"
| adopt: "uh_status r = StInProgress \<Longrightarrow> uh_owner_service r = None \<Longrightarrow>
    row_step (ByAgent svc inst) r (r\<lparr>uh_owner_service := Some svc, uh_owner_instance := inst,
      uh_interactive := interactive\<rparr>)"
| streamed: "owned_in_progress_condition svc inst r \<Longrightarrow> uh_output_bytes r \<le> b \<Longrightarrow>
    b \<le> UPDATE_OUTPUT_BYTES_CAP \<or> b = uh_output_bytes r \<Longrightarrow>
    row_step (ByAgent svc inst) r (r\<lparr>uh_output_bytes := b, uh_output_truncated := tr\<rparr>)"
| stdin: "row_step (ByAgent svc inst) r r"
| finish: "owned_finalizable_condition svc inst r \<Longrightarrow>
    row_step (ByAgent svc inst) r (r\<lparr>uh_status := row_final_status s, uh_completed_at := Some now,
      uh_output := out, uh_output_bytes := int (length out), uh_from_version := fv, uh_to_version := tv\<rparr>)"
| finish_item: "owned_in_progress_condition svc inst r \<Longrightarrow>
    row_step (ByAgent svc inst) r (r\<lparr>uh_status := row_final_status s, uh_completed_at := Some now,
      uh_output := out, uh_output_bytes := int (length out), uh_to_version := tv\<rparr>)"
| fail_unclaimed: "uh_status r = StPending \<Longrightarrow> uh_owner_service r = None \<Longrightarrow> uh_owner_instance r = None \<Longrightarrow>
    row_step (ByAgent svc inst) r (r\<lparr>uh_status := StFailed, uh_completed_at := Some now, uh_output := out,
      uh_output_bytes := int (length out)\<rparr>)"
| await: "uh_status r = StInProgress \<Longrightarrow> uh_owner_service r = Some svc \<Longrightarrow>
    row_step (ByAgent svc inst) r (r\<lparr>uh_status := StAwaitingRestart, uh_awaiting_restart_since := Some now\<rparr>)"
| restarted: "uh_status r = StAwaitingRestart \<Longrightarrow> s \<in> {StCompleted, StFailed} \<Longrightarrow>
    row_step ByVersionCheck r (r\<lparr>uh_status := s, uh_completed_at := Some now\<rparr>)"
| restart_timed_out: "uh_status r = StAwaitingRestart \<Longrightarrow>
    row_step ByRecovery r (r\<lparr>uh_status := StFailed, uh_completed_at := Some now\<rparr>)"
| interrupt: "uh_status r = StInProgress \<Longrightarrow>
    row_step ByRecovery r (r\<lparr>uh_status := StInterrupted, uh_completed_at := Some now, uh_recovery_hint := hint,
      uh_output := out, uh_output_bytes := int (length out), uh_output_truncated := tr\<rparr>)"
| never_started: "uh_status r = StPending \<Longrightarrow>
    row_step ByRecovery r (r\<lparr>uh_status := StInterrupted, uh_completed_at := Some now, uh_recovery_hint := hint,
      uh_output := out, uh_output_bytes := int (length out)\<rparr>)"
| unprotected: "uh_status r = StInProgress \<Longrightarrow> uh_owner_service r = None \<Longrightarrow>
    row_step ByRecovery r (r\<lparr>uh_status := StFailed, uh_completed_at := Some now, uh_output := out,
      uh_output_bytes := int (length out), uh_output_truncated := False, uh_protection_status := ps\<rparr>)"
| unreplayable: "uh_status r = StPending \<Longrightarrow>
    row_step ByRecovery r (r\<lparr>uh_status := StFailed, uh_completed_at := Some now, uh_output := out,
      uh_output_bytes := int (length out)\<rparr>)"
| hint: "row_step ByPlugin r (r\<lparr>uh_recovery_hint := hint\<rparr>)"
| mark_truncated: "row_step ByPlugin r (r\<lparr>uh_output_truncated := True\<rparr>)"
| promote: "uh_status r = StQueued \<Longrightarrow> row_step ByQueue r (r\<lparr>uh_status := StPending\<rparr>)"
| protect: "uh_status r = StPending \<Longrightarrow>
    row_step ByQueue r (r\<lparr>uh_status := StInProgress, uh_protection_status := ps, uh_owner_service := None,
      uh_started_at := Some now\<rparr>)"
| protection: "row_step Unguarded r (r\<lparr>uh_protection_status := ps, uh_protection_summary := sm\<rparr>)"
| fail_before: "row_step Unguarded r (r\<lparr>uh_status := StFailed, uh_completed_at := Some now,
      uh_protection_status := ps, uh_protection_summary := sm\<rparr>)"
| consolidate: "int (length out) \<le> UPDATE_OUTPUT_BYTES_CAP \<Longrightarrow>
    row_step Unguarded r (r\<lparr>uh_output := out, uh_output_bytes := int (length out), uh_output_truncated := tr\<rparr>)"
| undispatched: "row_step Unguarded r (r\<lparr>uh_status := StFailed, uh_completed_at := Some now, uh_output := out,
      uh_output_bytes := int (length out)\<rparr>)"

inductive table_step :: "writer \<Rightarrow> 'z update_tables_scheme \<Rightarrow> 'z update_tables_scheme \<Rightarrow> bool" where
  written: "(\<And>r. r \<in> set (ut_rows t) \<Longrightarrow> p r \<Longrightarrow> row_step w r (f r)) \<Longrightarrow> indexes_ok (set_where p f (ut_rows t)) \<Longrightarrow>
    table_step w t (t\<lparr>ut_rows := set_where p f (ut_rows t)\<rparr>)"
| inserted: "cp_initial_status params \<in> {StQueued, StPending} \<Longrightarrow>
    indexes_ok (ut_rows t @ [new_history_row i now params]) \<Longrightarrow>
    table_step ByQueue t (t\<lparr>ut_rows := ut_rows t @ [new_history_row i now params]\<rparr>)"
| others: "ut_rows t' = ut_rows t \<Longrightarrow> table_step w t t'"

definition runs :: "writer set \<Rightarrow> 'z update_tables_scheme \<Rightarrow> 'z update_tables_scheme \<Rightarrow> bool" where
  "runs W = (\<lambda>t t'. \<exists>w \<in> W. table_step w t t')\<^sup>*\<^sup>*"

text \<open>Every execution of the action is a run of writes of the given writers.\<close>

definition within :: "writer set \<Rightarrow> ('z update_tables_scheme, 'e, 'a) act \<Rightarrow> bool" where
  "within W m \<longleftrightarrow> (\<forall>t r t'. indexes_ok (ut_rows t) \<longrightarrow> m t = (r, t') \<longrightarrow> runs W t t')"

named_theorems within_intros \<open>actions that stay within a set of writers\<close>

lemma runs_refl [simp, intro]: "runs W t t"
  by (simp add: runs_def)

lemma runs_trans [trans]: "runs W t t' \<Longrightarrow> runs W t' t'' \<Longrightarrow> runs W t t''"
  by (simp add: runs_def)

lemma runs_step: "w \<in> W \<Longrightarrow> table_step w t t' \<Longrightarrow> runs W t t'"
  by (auto simp: runs_def intro!: r_into_rtranclp)

lemma runs_mono: "V \<subseteq> W \<Longrightarrow> runs V t t' \<Longrightarrow> runs W t t'"
  unfolding runs_def by (rule rtranclp_mono[THEN predicate2D]) auto

lemma table_step_indexes: "table_step w t t' \<Longrightarrow> indexes_ok (ut_rows t) \<Longrightarrow> indexes_ok (ut_rows t')"
  by (induction rule: table_step.induct) auto

lemma runs_indexes: "runs W t t' \<Longrightarrow> indexes_ok (ut_rows t) \<Longrightarrow> indexes_ok (ut_rows t')"
  unfolding runs_def by (induction rule: rtranclp_induct) (auto dest: table_step_indexes)

lemma withinD: "within W m \<Longrightarrow> m t = (r, t') \<Longrightarrow> indexes_ok (ut_rows t) \<Longrightarrow> runs W t t'"
  by (simp add: within_def)

lemma within_mono: "within V m \<Longrightarrow> V \<subseteq> W \<Longrightarrow> within W m"
  by (meson runs_mono within_def)

lemma within_pure [within_intros]:
  "within W (act_return a)" "within W (act_fail e)" "within W (act_read f)"
  by (auto simp: within_def)

lemma within_bind [within_intros]:
  assumes "within W m" "\<And>a. within W (k a)"
  shows "within W (act_bind m k)"
  unfolding within_def
proof (intro allI impI)
  fix t r t' assume ok: "indexes_ok (ut_rows t)" and e: "act_bind m k t = (r, t')"
  obtain x t1 where m: "m t = (x, t1)" by fastforce
  then have r1: "runs W t t1" using assms(1) ok by (simp add: within_def)
  show "runs W t t'"
  proof (cases x)
    case Inl
    then show ?thesis using e m r1 by (simp add: act_bind_def)
  next
    case (Inr a)
    then have "k a t1 = (r, t')" using e m by (simp add: act_bind_def)
    then have "runs W t1 t'" using assms(2) runs_indexes[OF r1 ok] by (simp add: within_def)
    then show ?thesis using r1 runs_trans by blast
  qed
qed

lemma within_try [within_intros]:
  assumes "within W m" "\<And>x. within W (k x)"
  shows "within W (act_try m k)"
  unfolding within_def
proof (intro allI impI)
  fix t r t' assume ok: "indexes_ok (ut_rows t)" and e: "act_try m k t = (r, t')"
  obtain x t1 where m: "m t = (x, t1)" by fastforce
  then have r1: "runs W t t1" using assms(1) ok by (simp add: within_def)
  have "k x t1 = (r, t')" using e m by (simp add: act_try_def)
  then have "runs W t1 t'" using assms(2) runs_indexes[OF r1 ok] by (simp add: within_def)
  then show "runs W t t'" using r1 runs_trans by blast
qed

lemma within_transaction [within_intros]: "within W m \<Longrightarrow> within W (transaction m)"
  by (auto simp: within_def transaction_def split: prod.splits sum.splits)

lemma within_sql [within_intros]: "within W (sql flt st)"
  by (auto simp: sql_def split: option.splits intro: within_pure)

lemma within_in_tx [within_intros]: "within W m \<Longrightarrow> within W (in_tx flt i m)"
  unfolding in_tx_def by (intro within_intros)

lemma within_other: "(\<And>t r t'. m t = (r, t') \<Longrightarrow> ut_rows t' = ut_rows t) \<Longrightarrow> W \<noteq> {} \<Longrightarrow> within W m"
  unfolding within_def by (metis ex_in_conv runs_step table_step.others)

lemma within_each [within_intros]: "(\<And>x. within W (f x)) \<Longrightarrow> within W (act_each f xs)"
  by (induction xs) (auto intro!: within_intros)

lemma update_history_many_eval:
  "update_history_many flt i p f t = (r, t') \<Longrightarrow> t' = t \<or>
     indexes_ok (set_where p f (ut_rows t)) \<and> t' = t\<lparr>ut_rows := set_where p f (ut_rows t)\<rparr>"
  by (auto simp: update_history_many_def act_bind_def sql_def write_rows_def
      split: option.splits sum.splits prod.splits if_splits)

lemma within_update:
  assumes "\<And>r. p r \<Longrightarrow> row_step w r (f r)" "w \<in> W"
  shows "within W (update_history_many flt i p f)"
  unfolding within_def
  using assms update_history_many_eval runs_step[OF assms(2) table_step.written[where p = p and f = f]]
  by blast

lemma within_lines [within_intros]:
  "W \<noteq> {} \<Longrightarrow> within W (delete_lines flt i ids)" "W \<noteq> {} \<Longrightarrow> within W (insert_line flt st l)"
  by (rule within_other; auto simp: delete_lines_def insert_line_def act_bind_def sql_def
      split: option.splits sum.splits prod.splits)+

lemma within_select [within_intros]: "within W (select_row flt i)"
  unfolding select_row_def by (intro within_intros)

lemma owned_conditionD:
  "owned_in_progress_condition svc inst r \<Longrightarrow>
     uh_status r = StInProgress \<and> uh_owner_service r = Some svc \<and> uh_owner_instance r = inst"
  "owned_finalizable_condition svc inst r \<Longrightarrow>
     uh_status r \<in> {StInProgress, StInterrupted} \<and> uh_owner_service r = Some svc \<and> uh_owner_instance r = inst"
  by (auto simp: owned_in_progress_condition_def owned_finalizable_condition_def owned_status_condition_def)

lemma within_claim:
  "ByAgent svc inst \<in> W \<Longrightarrow> within W (claim_or_replay_update_start_db flt now i svc inst interactive)"
  unfolding claim_or_replay_update_start_db_def
  by (intro within_intros) (auto split: option.split intro!: within_intros within_update row_step.claim row_step.adopt)

lemma within_finalize:
  "ByAgent (fa_service_id args) (fa_runtime_instance_id args) \<in> W \<Longrightarrow>
     within W (finalize_update_result_if_owned flt now args)"
  unfolding finalize_update_result_if_owned_def Let_def by (auto intro!: within_update row_step.finish)

lemma within_finalize_item:
  "ByAgent (ba_service_id args) (ba_runtime_instance_id args) \<in> W \<Longrightarrow>
     within W (finalize_batch_item_if_owned flt now args)"
  unfolding finalize_batch_item_if_owned_def Let_def by (auto intro!: within_update row_step.finish_item)

lemma within_stdin: "ByAgent svc inst \<in> W \<Longrightarrow> within W (touch_stdin_attention_if_owned flt i svc inst)"
  unfolding touch_stdin_attention_if_owned_def by (auto intro!: within_update row_step.stdin)

lemma within_post_update [within_intros]: "ByPlugin \<in> W \<Longrightarrow> within W (finalize_post_update flt protection record)"
  unfolding finalize_post_update_def
  by (auto split: option.split sum.split intro!: within_intros within_update row_step.hint)

lemma within_fail_pending:
  "ByAgent svc inst \<in> W \<Longrightarrow> ByPlugin \<in> W \<Longrightarrow>
     within W (fail_pending_unowned_update flt now protection i err out)"
  unfolding fail_pending_unowned_update_def Let_def
  by (intro within_intros)
    (auto split: option.split intro!: within_intros within_update[where w = "ByAgent svc inst"] row_step.fail_unclaimed)

lemma within_await: "ByAgent svc inst \<in> W \<Longrightarrow> within W (transition_to_awaiting_restart flt now i svc)"
  unfolding transition_to_awaiting_restart_def
  by (rule within_update[where w = "ByAgent svc inst"]) (auto intro: row_step.await)

lemma within_version_check:
  "ByVersionCheck \<in> W \<Longrightarrow> within W (apply_awaiting_restart_version_check flt now hsi installed nr err)"
  unfolding apply_awaiting_restart_version_check_def Let_def
  by (intro within_intros)
    (auto split: option.split intro!: within_intros within_update[where w = ByVersionCheck] row_step.restarted)

lemma within_correlate: "ByVersionCheck \<in> W \<Longrightarrow> within W (handle_version_check_results flt now linked results)"
  unfolding handle_version_check_results_def correlate_restart_def
  by (auto split: option.split intro!: within_intros within_version_check)

lemma within_timeouts: "ByRecovery \<in> W \<Longrightarrow> within W (enforce_timeouts flt now timeouts)"
proof -
  assume w: "ByRecovery \<in> W"
  have "within W (enforce_timeouts_loop flt now timeouts records)" for records
  proof (induction records)
    case (Cons r rs)
    then show ?case
      by (auto simp: Let_def split: option.split
          intro!: within_intros within_update[where w = ByRecovery] row_step.restart_timed_out w)
  qed (simp only: enforce_timeouts_loop.simps within_intros)
  then show ?thesis unfolding enforce_timeouts_def by (intro within_intros)
qed

lemma row_step_interrupt: "uh_status r = StInProgress \<Longrightarrow> row_step ByRecovery r (interrupted_row now reason r)"
  using row_step.interrupt[where r = r and now = now and hint = "Some RECOVERY_HINT" and out = reason and
    tr = "uh_output_truncated r"]
  by (simp add: interrupted_row_def)

lemma row_step_interrupt_truncated:
  "uh_status r = StInProgress \<Longrightarrow>
     row_step ByRecovery r ((interrupted_row now reason r)\<lparr>uh_output_truncated := False\<rparr>)"
  using row_step.interrupt[where r = r and now = now and hint = "Some RECOVERY_HINT" and out = reason and tr = False]
  by (simp add: interrupted_row_def)

lemma within_interrupt_loop:
  "(\<And>r. guard r \<Longrightarrow> uh_status r = StInProgress) \<Longrightarrow> ByRecovery \<in> W \<Longrightarrow>
     within W (interrupt_loop flt guard now reason cands)"
  by (induction cands) (auto intro!: within_intros within_update[where w = ByRecovery] row_step_interrupt_truncated)

lemma within_interrupt_all:
  "(\<And>r. guard r \<Longrightarrow> uh_status r = StInProgress) \<Longrightarrow> ByRecovery \<in> W \<Longrightarrow>
     within W (interrupt_all flt guard i now reason cands)"
  unfolding interrupt_all_def by (auto intro!: within_intros within_interrupt_loop)

lemma within_reconnect:
  "ByRecovery \<in> W \<Longrightarrow> within W (mark_owned_in_progress_as_interrupted_on_reconnect flt now svc inst)"
  unfolding mark_owned_in_progress_as_interrupted_on_reconnect_def load_owned_reconnect_candidates_def
  by (auto intro!: within_intros within_interrupt_all simp: reconnect_candidate_def)

lemma within_rollout:
  "ByRecovery \<in> W \<Longrightarrow> within W (mark_all_in_progress_as_interrupted_for_rollout flt now)"
  unfolding mark_all_in_progress_as_interrupted_for_rollout_def
  by (auto intro!: within_intros within_interrupt_all)

lemma within_orchestrated:
  "ByRecovery \<in> W \<Longrightarrow> within W (mark_orchestrator_inprogress_as_failed_on_reconnect flt now hosts)"
  unfolding mark_orchestrator_inprogress_as_failed_on_reconnect_def Let_def
  by (cases "hosts = []")
    (auto intro!: within_intros within_update[where w = ByRecovery] row_step.unprotected simp del: length_Cons list.size)

lemma within_protect: "ByQueue \<in> W \<Longrightarrow> within W (set_inprogress_for_orchestrator flt now i)"
  unfolding set_inprogress_for_orchestrator_def
  by (rule within_update[where w = ByQueue]) (auto intro: row_step.protect)

lemma within_protection: "Unguarded \<in> W \<Longrightarrow> within W (write_pre_update_protection_status flt i st sm)"
  unfolding write_pre_update_protection_status_def
  by (auto intro!: within_intros within_update[where w = Unguarded] row_step.protection)

lemma within_fail_before: "Unguarded \<in> W \<Longrightarrow> within W (fail_before_agent_dispatch flt now i st sm)"
  unfolding fail_before_agent_dispatch_def Let_def
  by (auto intro!: within_intros within_update[where w = Unguarded] row_step.fail_before)

lemma within_uninstalled: "Unguarded \<in> W \<Longrightarrow> within W (terminate_uninstalled flt now link)"
  unfolding terminate_uninstalled_def
  by (auto intro!: within_intros within_update[where w = Unguarded] row_step.undispatched)

lemma within_unreplayable:
  "ByRecovery \<in> W \<Longrightarrow> ByPlugin \<in> W \<Longrightarrow> within W (fail_unreplayable_pending_update flt now protection record)"
  unfolding fail_unreplayable_pending_update_def Let_def
  by (auto intro!: within_intros within_update[where w = ByRecovery] row_step.unreplayable)

lemma within_protection_line: "W \<noteq> {} \<Longrightarrow> within W (insert_protection_output_line flt i l text stream ts)"
  unfolding insert_protection_output_line_def by (rule within_lines)

lemma within_promote: "ByQueue \<in> W \<Longrightarrow> within W (promote_queued flt i)"
  unfolding promote_queued_def by (rule within_update[where w = ByQueue]) (auto intro: row_step.promote)

lemma within_fail_dispatch: "Unguarded \<in> W \<Longrightarrow> within W (fail_dispatch flt now report i)"
  unfolding fail_dispatch_def Let_def
  by (intro within_bind within_update[where w = Unguarded] row_step.undispatched)
    (auto intro: within_intros)

lemma within_reap: "ByRecovery \<in> W \<Longrightarrow> within W (reap_overdue_updates flt time_max now budget grace)"
  unfolding reap_overdue_updates_def Let_def
  by (auto intro!: within_intros within_update[where w = ByRecovery] row_step_interrupt)

lemma within_reap_pending: "ByRecovery \<in> W \<Longrightarrow> within W (reap_stalled_pending_updates flt now ids)"
  unfolding reap_stalled_pending_updates_def never_started_row_def
  by (auto intro!: within_intros within_update[where w = ByRecovery] row_step.never_started)

lemma within_create:
  assumes "cp_initial_status params \<in> {StQueued, StPending}" "ByQueue \<in> W"
  shows "within W (create_update_history_record flt new_id now params)"
  unfolding within_def
  using runs_step[OF assms(2) table_step.inserted[OF assms(1)]]
  by (auto simp: create_update_history_record_def act_bind_def sql_def write_rows_def
      split: option.splits sum.splits prod.splits if_splits)

lemma within_active [within_intros]:
  "within W (has_active_update_for_host flt h)" "within W (has_active_update_for_host_software_item flt h item)"
  unfolding has_active_update_for_host_def has_active_update_for_host_software_item_def
  by (intro within_intros)+

subsection \<open>Output\<close>

lemma walk_back_le: "walk_back s n \<le> n"
  by (induction n) auto

lemma walk_back_boundary: "is_char_boundary s (walk_back s n)"
  by (induction n) (auto simp: is_char_boundary_def)

lemma walk_back_greatest: "m \<le> n \<Longrightarrow> is_char_boundary s m \<Longrightarrow> m \<le> walk_back s n"
  by (induction n) (auto simp: le_Suc_eq)

lemma truncate_length: "length (truncate_to_char_boundary s n) \<le> n"
  using walk_back_le[of s n] by (auto simp: truncate_to_char_boundary_def)

lemma concat_lines_length: "length out \<le> cap \<Longrightarrow> length (fst (concat_lines cap out ls)) \<le> cap"
proof (induction ls arbitrary: out)
  case (Cons l ls)
  have "length (fst (append_output_with_cap out (ol_output l) cap)) \<le> cap"
    using Cons.prems truncate_length[of "ol_output l" "cap - length out"]
    by (auto simp: append_output_with_cap_def Let_def)
  then show ?case using Cons.IH by (auto split: prod.split bool.split)
qed simp

lemma within_read: "(\<And>t. within W (k (f t))) \<Longrightarrow> within W (act_bind (act_read f) k)"
  by (auto simp: within_def act_bind_def)

lemma within_consolidate: "Unguarded \<in> W \<Longrightarrow> within W (consolidate_protection_output flt i)"
  unfolding consolidate_protection_output_def
proof (rule within_bind[OF within_sql], rule within_read)
  fix a :: unit and t :: "'a update_tables_scheme" assume W: "Unguarded \<in> W"
  obtain out tr where l: "load_output_lines_with_truncation (nat UPDATE_OUTPUT_BYTES_CAP) i t = (out, tr)"
    by fastforce
  then have "int (length out) \<le> UPDATE_OUTPUT_BYTES_CAP"
    using concat_lines_length[of "[]" "nat UPDATE_OUTPUT_BYTES_CAP" "lines_of i t"]
    by (simp add: load_output_lines_with_truncation_def UPDATE_OUTPUT_BYTES_CAP_def)
  then show "within W (case load_output_lines_with_truncation (nat UPDATE_OUTPUT_BYTES_CAP) i t of (output, truncated) \<Rightarrow>
      act_bind (update_history_many flt i (\<lambda>r. uh_id r = i)
        (\<lambda>r. r\<lparr>uh_output := output, uh_output_bytes := int (length output), uh_output_truncated := truncated\<rparr>))
        (\<lambda>_. act_return ()))"
    unfolding l prod.case by (intro within_bind within_update[where w = Unguarded] W row_step.consolidate within_pure)
qed

lemma indexes_ok_same: "indexes_ok rows \<Longrightarrow> r \<in> set rows \<Longrightarrow> q \<in> set rows \<Longrightarrow> uh_id r = uh_id q \<Longrightarrow> r = q"
  by (auto simp: indexes_ok_def distinct_map inj_on_def)

lemma find_filter_hd: "filter P xs = x # ys \<Longrightarrow> find P xs = Some x"
  by (induction xs) (auto split: if_splits)

lemma find_row_SomeD: "find p xs = Some x \<Longrightarrow> x \<in> set xs \<and> p x"
  by (auto simp: find_Some_iff)

lemma act_bind_Ok_iff [act_simps]:
  "act_bind m k t = (Ok a, t') \<longleftrightarrow> (\<exists>b t1. m t = (Ok b, t1) \<and> k b t1 = (Ok a, t'))"
  by (auto simp: act_bind_def split: prod.splits sum.splits)

lemma sql_Ok_iff [act_simps]: "sql flt st t = (Ok a, t') \<longleftrightarrow> flt st = None \<and> t' = t"
  by (auto simp: sql_def split: option.splits)

lemma update_history_many_Ok_iff [act_simps]:
  "update_history_many flt i p f t = (Ok n, t') \<longleftrightarrow>
     flt (UpdateRows i) = None \<and> indexes_ok (set_where p f (ut_rows t)) \<and>
     n = length (filter p (ut_rows t)) \<and> t' = t\<lparr>ut_rows := set_where p f (ut_rows t)\<rparr>"
  by (auto simp: update_history_many_def act_simps write_rows_def)

lemma insert_line_Ok_iff [act_simps]:
  "insert_line flt st l t = (Ok a, t') \<longleftrightarrow> flt st = None \<and> t' = t\<lparr>ut_lines := ut_lines t @ [l]\<rparr>"
  by (auto simp: insert_line_def act_simps)

lemma transaction_Ok_iff [act_simps]: "transaction m t = (Ok a, t') \<longleftrightarrow> m t = (Ok a, t')"
  by (auto simp: transaction_def split: prod.splits sum.splits)

lemma in_tx_Ok_iff [act_simps]:
  "in_tx flt i m t = (Ok a, t') \<longleftrightarrow> flt (BeginTx i) = None \<and> m t = (Ok a, t') \<and> flt (CommitTx i) = None"
  by (auto simp: in_tx_def act_simps)

lemma in_tx_Err: "in_tx flt i m t = (Err e, t') \<Longrightarrow> t' = t"
  by (auto simp: in_tx_def transaction_def split: prod.splits sum.splits)

lemma set_where_unique:
  assumes "indexes_ok rows" "r \<in> set rows" "p r" "\<And>q. p q \<Longrightarrow> uh_id q = uh_id r"
  shows "length (filter p rows) = 1 \<and> set_where p f rows = map (\<lambda>q. if q = r then f r else q) rows"
proof -
  have u: "q \<in> set rows \<Longrightarrow> p q \<longleftrightarrow> q = r" for q
    using assms(1-3) assms(4)[of q] indexes_ok_same[of rows q r] by blast
  have "filter p rows = filter (\<lambda>q. q = r) rows" using u by (intro filter_cong) auto
  moreover have "length (filter (\<lambda>q. q = r) rows) = 1"
    using assms(1,2) by (simp add: indexes_ok_def distinct_map distinct_length_filter Int_absorb1)
  moreover have "set_where p f rows = map (\<lambda>q. if q = r then f r else q) rows"
    unfolding set_where_def using u by (intro map_cong) auto
  ultimately show ?thesis by simp
qed

text \<open>What an accepted piece of output does to the row and to the lines.\<close>

definition stored_part :: "int \<Rightarrow> string \<Rightarrow> string" where
  "stored_part bytes out = truncate_to_char_boundary out (nat (UPDATE_OUTPUT_BYTES_CAP - bytes))"

definition output_fits :: "int \<Rightarrow> string \<Rightarrow> bool" where
  "output_fits bytes out \<longleftrightarrow> bytes < UPDATE_OUTPUT_BYTES_CAP \<and> int (length out) \<le> UPDATE_OUTPUT_BYTES_CAP - bytes"

definition output_row :: "string \<Rightarrow> update_row \<Rightarrow> update_row" where
  "output_row out r = r\<lparr>uh_output_bytes := uh_output_bytes r + int (length (stored_part (uh_output_bytes r) out)),
     uh_output_truncated := \<not> output_fits (uh_output_bytes r) out\<rparr>"

lemma stored_part_fits: "output_fits bytes out \<Longrightarrow> stored_part bytes out = out"
  by (auto simp: stored_part_def output_fits_def truncate_to_char_boundary_def)

lemma stored_part_bound:
  "bytes + int (length (stored_part bytes out)) \<le> UPDATE_OUTPUT_BYTES_CAP \<or> stored_part bytes out = []"
  using truncate_length[of out "nat (UPDATE_OUTPUT_BYTES_CAP - bytes)"]
  by (cases "bytes \<le> UPDATE_OUTPUT_BYTES_CAP") (auto simp: stored_part_def)

lemma row_step_output:
  assumes "owned_in_progress_condition svc inst r"
  shows "row_step (ByAgent svc inst) r (output_row out r)"
  unfolding output_row_def by (rule row_step.streamed[OF assms]) (use stored_part_bound in auto)

definition output_outcome ::
  "instant \<Rightarrow> uuid \<times> uuid \<Rightarrow> uuid \<Rightarrow> output_stream_type \<Rightarrow> int \<Rightarrow> string \<Rightarrow> append_outcome" where
  "output_outcome now ids i stream bytes out =
     (let part = stored_part bytes out;
          line = \<lparr>ol_id = fst ids, ol_update_history_id = i, ol_stream = stream, ol_output = part, ol_created_at = now\<rparr>;
          notice = \<lparr>ol_id = snd ids, ol_update_history_id = i, ol_stream = SystemStream,
                    ol_output = OUTPUT_TRUNCATION_NOTICE, ol_created_at = now\<rparr>
      in if output_fits bytes out then Appended line
         else if part \<noteq> [] then AppendedWithTruncation line notice else TruncationNotice notice)"

lemma remaining_iff:
  "0 < (if c \<le> b then 0 else c - b) \<and> l \<le> (if c \<le> b then 0 else c - b) \<longleftrightarrow> b < c \<and> l \<le> c - (b::int)"
  "nat (if c \<le> b then 0 else c - b) = nat (c - (b::int))"
  by auto

lemma output_row_fits:
  "output_fits (uh_output_bytes r) out \<Longrightarrow> \<not> uh_output_truncated r \<Longrightarrow>
     r\<lparr>uh_output_bytes := uh_output_bytes r + int (length out)\<rparr> = output_row out r"
  by (cases r) (simp add: output_row_def stored_part_fits)

lemma append_Ok_cases:
  assumes ok: "indexes_ok (ut_rows t)"
    and e: "append_update_output_if_owned flt now ids i svc inst stream out t = (Ok res, t')"
  shows "res = Ignored \<and> t' = t \<and>
      (\<forall>r \<in> set (ut_rows t). uh_id r = i \<and> owned_in_progress_condition svc inst r \<longrightarrow> uh_output_truncated r) \<or>
    (\<exists>r \<in> set (ut_rows t). uh_id r = i \<and> owned_in_progress_condition svc inst r \<and> \<not> uh_output_truncated r \<and>
      res = output_outcome now ids i stream (uh_output_bytes r) out \<and>
      indexes_ok (ut_rows t') \<and>
      t' = t\<lparr>ut_rows := set_where (\<lambda>q. q = r) (output_row out) (ut_rows t),
             ut_lines := ut_lines t @ into_persisted_lines res\<rparr>)"
proof (cases "find (\<lambda>r. uh_id r = i \<and> owned_in_progress_condition svc inst r) (ut_rows t)")
  case None
  have "res = Ignored \<and> t' = t"
    using e None by (simp add: append_update_output_if_owned_def act_simps)
  then show ?thesis using None by (intro disjI1) (auto simp: find_None_iff)
next
  case (Some r)
  then have r: "r \<in> set (ut_rows t)" "uh_id r = i" "owned_in_progress_condition svc inst r"
    by (auto dest: find_row_SomeD)
  show ?thesis
  proof (cases "uh_output_truncated r")
    case True
    have "q = r" if "q \<in> set (ut_rows t)" "uh_id q = i" for q
      using indexes_ok_same[OF ok that(1) r(1)] that(2) r(2) by simp
    then have "\<forall>q \<in> set (ut_rows t). uh_id q = i \<and> owned_in_progress_condition svc inst q \<longrightarrow> uh_output_truncated q"
      using True by blast
    moreover have "res = Ignored \<and> t' = t"
      using e Some True by (simp add: append_update_output_if_owned_def act_simps)
    ultimately show ?thesis by (intro disjI1) simp
  next
    case False
    define guard where
      "guard = (\<lambda>q. uh_id q = i \<and> owned_in_progress_condition svc inst q \<and> \<not> uh_output_truncated q)"
    have gr: "guard r" "\<And>q. guard q \<Longrightarrow> uh_id q = uh_id r"
      using r False by (simp_all add: guard_def)
    note u = set_where_unique[where p = guard, OF ok r(1) gr(1) gr(2)]
    note g = u[THEN conjunct1] u[THEN conjunct2]
    have s: "set_where (\<lambda>q. q = r) f (ut_rows t) = map (\<lambda>q. if q = r then f r else q) (ut_rows t)" for f
      by (auto simp: set_where_def)
    have eff: "res = output_outcome now ids i stream (uh_output_bytes r) out \<and> indexes_ok (ut_rows t') \<and>
      t' = t\<lparr>ut_rows := set_where (\<lambda>q. q = r) (output_row out) (ut_rows t),
             ut_lines := ut_lines t @ into_persisted_lines res\<rparr>"
    proof (cases "output_fits (uh_output_bytes r) out")
      case fits: True
      then show ?thesis
        using e Some False unfolding append_update_output_if_owned_def Let_def guard_def[symmetric] remaining_iff
        by (clarsimp simp: act_simps output_fits_def[symmetric] output_outcome_def stored_part_fits g s
            output_row_fits[OF fits False, symmetric])
    next
      case nf: False
      then show ?thesis
        using e Some False unfolding append_update_output_if_owned_def Let_def guard_def[symmetric] remaining_iff
        by (cases "stored_part (uh_output_bytes r) out = []")
          (clarsimp simp: act_simps output_fits_def[symmetric] output_outcome_def stored_part_def[symmetric] g s
            output_row_def)+
    qed
    show ?thesis
      by (intro disjI2 bexI[OF _ r(1)] conjI r(2,3) False eff[THEN conjunct1] eff[THEN conjunct2, THEN conjunct1]
          eff[THEN conjunct2, THEN conjunct2])
  qed
qed

lemma within_append:
  assumes "ByAgent svc inst \<in> W"
  shows "within W (append_update_output_if_owned flt now ids i svc inst stream out)"
  unfolding within_def
proof (intro allI impI)
  fix t r t' assume ok: "indexes_ok (ut_rows t)"
    and e: "append_update_output_if_owned flt now ids i svc inst stream out t = (r, t')"
  show "runs W t t'"
  proof (cases r)
    case Inl
    then show ?thesis using e in_tx_Err by (fastforce simp: append_update_output_if_owned_def)
  next
    case (Inr res)
    then consider "t' = t"
      | q where "owned_in_progress_condition svc inst q" "indexes_ok (ut_rows t')"
        "t' = t\<lparr>ut_rows := set_where (\<lambda>x. x = q) (output_row out) (ut_rows t),
             ut_lines := ut_lines t @ into_persisted_lines res\<rparr>"
      using append_Ok_cases[OF ok] e by blast
    then show ?thesis
    proof cases
      case 2
      let ?t1 = "t\<lparr>ut_rows := set_where (\<lambda>x. x = q) (output_row out) (ut_rows t)\<rparr>"
      have "runs W t ?t1"
        by (rule runs_step[OF assms], rule table_step.written) (use 2 row_step_output in auto)
      moreover have "runs W ?t1 t'" by (rule runs_step[OF assms], rule table_step.others) (simp add: 2)
      ultimately show ?thesis by (rule runs_trans)
    qed simp
  qed
qed

lemma append_accepted:
  assumes "indexes_ok (ut_rows t)" "r \<in> set (ut_rows t)" "uh_id r = i" "owned_in_progress_condition svc inst r"
    and "\<not> uh_output_truncated r"
    and "append_update_output_if_owned flt now ids i svc inst stream out t = (Ok res, t')"
  shows "res = output_outcome now ids i stream (uh_output_bytes r) out \<and>
    t' = t\<lparr>ut_rows := set_where (\<lambda>q. q = r) (output_row out) (ut_rows t),
           ut_lines := ut_lines t @ into_persisted_lines res\<rparr>"
  using append_Ok_cases[OF assms(1,6)]
proof (elim disjE bexE conjE)
  fix q assume q: "q \<in> set (ut_rows t)" "uh_id q = i"
    and e: "res = output_outcome now ids i stream (uh_output_bytes q) out"
      "t' = t\<lparr>ut_rows := set_where (\<lambda>x. x = q) (output_row out) (ut_rows t),
             ut_lines := ut_lines t @ into_persisted_lines res\<rparr>"
  have "q = r" using indexes_ok_same[OF assms(1) q(1) assms(2)] q(2) assms(3) by simp
  then show ?thesis using e by (intro conjI) simp_all
qed (use assms(2-5) in blast)

lemma stored_part_longest:
  assumes "bytes \<le> UPDATE_OUTPUT_BYTES_CAP" "n = length (stored_part bytes out)"
  shows "n \<le> length out \<and> is_char_boundary out n \<and> bytes + int n \<le> UPDATE_OUTPUT_BYTES_CAP \<and>
    stored_part bytes out = take n out \<and>
    (\<forall>k. k \<le> length out \<and> is_char_boundary out k \<and> bytes + int k \<le> UPDATE_OUTPUT_BYTES_CAP \<longrightarrow> k \<le> n)"
proof (cases "length out \<le> nat (UPDATE_OUTPUT_BYTES_CAP - bytes)")
  case True
  then have "stored_part bytes out = out" by (simp add: stored_part_def truncate_to_char_boundary_def)
  then show ?thesis using True assms by (auto simp: is_char_boundary_def)
next
  case False
  define m where "m = nat (UPDATE_OUTPUT_BYTES_CAP - bytes)"
  have m: "m < length out" "bytes + int m = UPDATE_OUTPUT_BYTES_CAP" using False assms(1) by (auto simp: m_def)
  have s: "stored_part bytes out = take (walk_back out m) out"
    using m by (simp add: stored_part_def truncate_to_char_boundary_def m_def)
  have n: "n = walk_back out m" using assms(2) s walk_back_le[of out m] m by simp
  have "k \<le> n" if "is_char_boundary out k" "bytes + int k \<le> UPDATE_OUTPUT_BYTES_CAP" for k
    unfolding n using walk_back_greatest[OF _ that(1)] that(2) m(2) by simp
  then show ?thesis using n s walk_back_le[of out m] walk_back_boundary[of out m] m by auto
qed

lemma output_fits_iff:
  assumes "bytes \<le> UPDATE_OUTPUT_BYTES_CAP" "n = length (stored_part bytes out)"
  shows "output_fits bytes out \<longleftrightarrow> \<not> (n < length out \<or> bytes = UPDATE_OUTPUT_BYTES_CAP)"
  using stored_part_longest[OF assms] stored_part_fits[of bytes out] assms
  by (auto simp: output_fits_def)

lemma output_outcome_text:
  "concat (map ol_output (into_persisted_lines (output_outcome now ids i stream bytes out))) =
     stored_part bytes out @ (if output_fits bytes out then [] else OUTPUT_TRUNCATION_NOTICE)"
  by (simp add: output_outcome_def Let_def)

subsection \<open>The invariant of the store\<close>

definition update_row_ok :: "update_row \<Rightarrow> bool" where
  "update_row_ok r \<longleftrightarrow> uh_started_at r \<noteq> None \<and>
     (uh_completed_at r = None \<longleftrightarrow> uh_status r \<in> set unfinished) \<and>
     (uh_status r \<in> {StQueued, StPending} \<longrightarrow> uh_owner_service r = None \<and> uh_owner_instance r = None) \<and>
     (uh_status r = StAwaitingRestart \<longrightarrow> uh_owner_service r \<noteq> None \<and> uh_awaiting_restart_since r \<noteq> None) \<and>
     (uh_awaiting_restart_since r \<noteq> None \<longrightarrow> uh_status r \<in> {StAwaitingRestart, StCompleted, StFailed}) \<and>
     (uh_status r \<in> set unfinished \<longrightarrow> 0 \<le> uh_output_bytes r \<and> uh_output_bytes r \<le> UPDATE_OUTPUT_BYTES_CAP)"

definition store_ok :: "'z update_tables_scheme \<Rightarrow> bool" where
  "store_ok t \<longleftrightarrow> indexes_ok (ut_rows t) \<and> list_all update_row_ok (ut_rows t)"

lemma row_step_ok: "row_step w r r' \<Longrightarrow> update_row_ok r \<Longrightarrow> update_row_ok r'"
  by (induction rule: row_step.induct)
    (simp_all add: update_row_ok_def unfinished_def row_final_status_def UPDATE_OUTPUT_BYTES_CAP_def
      owned_in_progress_condition_def owned_finalizable_condition_def owned_status_condition_def, auto)

lemma new_history_row_wf: "cp_initial_status params \<in> {StQueued, StPending} \<Longrightarrow> update_row_ok (new_history_row i now params)"
  by (auto simp: update_row_ok_def new_history_row_def unfinished_def UPDATE_OUTPUT_BYTES_CAP_def)

lemma table_step_ok: "table_step w t t' \<Longrightarrow> store_ok t \<Longrightarrow> store_ok t'"
proof (induction rule: table_step.induct)
  case (written t p w f)
  then show ?case by (auto simp: store_ok_def set_where_def list_all_iff dest: row_step_ok)
qed (auto simp: store_ok_def intro: new_history_row_wf)

lemma store_ok_empty: "ut_rows t = [] \<Longrightarrow> store_ok t"
  by (simp add: store_ok_def indexes_ok_def host_active_keys_def item_active_keys_def)

interpretation store_sm: state_machine "\<lambda>t. ut_rows t = []" "\<lambda>t t'. \<exists>w \<in> W. table_step w t t'" store_ok for W
  by unfold_locales (auto simp: store_ok_empty intro: table_step_ok)

lemma runs_store_ok: "runs W t t' \<Longrightarrow> store_ok t \<Longrightarrow> store_ok t'"
  unfolding runs_def by (rule store_sm.inv_steps)

subsection \<open>Operations in any order\<close>

text \<open>The messages of an agent, as they reach the tables.\<close>

inductive agent_op :: "uuid \<Rightarrow> uuid option \<Rightarrow> 'z update_tables_scheme \<Rightarrow> 'z update_tables_scheme \<Rightarrow> bool"
  for svc inst where
  "claim_or_replay_update_start_db flt now i svc inst interactive t = (res, t') \<Longrightarrow> agent_op svc inst t t'"
| "append_update_output_if_owned flt now ids i svc inst stream out t = (res, t') \<Longrightarrow> agent_op svc inst t t'"
| "touch_stdin_attention_if_owned flt i svc inst t = (res, t') \<Longrightarrow> agent_op svc inst t t'"
| "finalize_update_result_if_owned flt now args t = (res, t') \<Longrightarrow> fa_service_id args = svc \<Longrightarrow>
     fa_runtime_instance_id args = inst \<Longrightarrow> agent_op svc inst t t'"
| "finalize_batch_item_if_owned flt now bargs t = (res, t') \<Longrightarrow> ba_service_id bargs = svc \<Longrightarrow>
     ba_runtime_instance_id bargs = inst \<Longrightarrow> agent_op svc inst t t'"
| "fail_pending_unowned_update flt now protection i err out t = (res, t') \<Longrightarrow> agent_op svc inst t t'"
| "transition_to_awaiting_restart flt now i svc t = (res, t') \<Longrightarrow> agent_op svc inst t t'"
| "finalize_post_update flt protection record t = (res', t') \<Longrightarrow> agent_op svc inst t t'"
| "handle_version_check_results flt now linked results t = (u, t') \<Longrightarrow> agent_op svc inst t t'"

text \<open>What the controllers do on their own with a check of the status.\<close>

inductive guarded_op :: "'z update_tables_scheme \<Rightarrow> 'z update_tables_scheme \<Rightarrow> bool" where
  "create_update_history_record flt new_id now params t = (res, t') \<Longrightarrow>
     cp_initial_status params \<in> {StQueued, StPending} \<Longrightarrow> guarded_op t t'"
| "promote_queued flt i t = (n, t') \<Longrightarrow> guarded_op t t'"
| "set_inprogress_for_orchestrator flt now i t = (n, t') \<Longrightarrow> guarded_op t t'"
| "enforce_timeouts flt now timeouts t = (signals, t') \<Longrightarrow> guarded_op t t'"
| "fail_unreplayable_pending_update flt now protection record t = (b, t') \<Longrightarrow> guarded_op t t'"
| "mark_owned_in_progress_as_interrupted_on_reconnect flt now svc inst t = (rs, t') \<Longrightarrow> guarded_op t t'"
| "mark_all_in_progress_as_interrupted_for_rollout flt now t = (rs, t') \<Longrightarrow> guarded_op t t'"
| "mark_orchestrator_inprogress_as_failed_on_reconnect flt now hosts t = (u, t') \<Longrightarrow> guarded_op t t'"
| "reap_overdue_updates flt time_max now budget grace t = (rs, t') \<Longrightarrow> guarded_op t t'"
| "reap_stalled_pending_updates flt now uids t = (rs, t') \<Longrightarrow> guarded_op t t'"
| "insert_protection_output_line flt i line_id text stream now t = (u, t') \<Longrightarrow> guarded_op t t'"

text \<open>What they write by id alone.\<close>

inductive unguarded_op :: "'z update_tables_scheme \<Rightarrow> 'z update_tables_scheme \<Rightarrow> bool" where
  "write_pre_update_protection_status flt i ps sm t = (u, t') \<Longrightarrow> unguarded_op t t'"
| "fail_before_agent_dispatch flt now i ps sm t = (u, t') \<Longrightarrow> unguarded_op t t'"
| "consolidate_protection_output flt i t = (u, t') \<Longrightarrow> unguarded_op t t'"
| "fail_dispatch flt now report i t = (u, t') \<Longrightarrow> unguarded_op t t'"
| "terminate_uninstalled flt now link t = (u, t') \<Longrightarrow> unguarded_op t t'"

definition update_op :: "'z update_tables_scheme \<Rightarrow> 'z update_tables_scheme \<Rightarrow> bool" where
  "update_op t t' \<longleftrightarrow> (\<exists>svc inst. agent_op svc inst t t') \<or> guarded_op t t' \<or> unguarded_op t t'"

lemma agent_op_runs:
  "agent_op svc inst t t' \<Longrightarrow> indexes_ok (ut_rows t) \<Longrightarrow> runs {ByAgent svc inst, ByPlugin, ByVersionCheck} t t'"
  by (induction rule: agent_op.induct)
    (auto elim!: withinD[rotated] intro!: within_claim within_append within_stdin within_finalize
      within_finalize_item within_fail_pending within_await within_post_update within_correlate)

lemma guarded_op_runs: "guarded_op t t' \<Longrightarrow> indexes_ok (ut_rows t) \<Longrightarrow> runs {ByQueue, ByRecovery, ByPlugin} t t'"
  by (induction rule: guarded_op.induct)
    (auto elim!: withinD[rotated] intro!: within_create within_promote within_protect within_timeouts within_unreplayable
      within_reconnect within_rollout within_orchestrated within_reap within_reap_pending within_protection_line)

lemma unguarded_op_runs: "unguarded_op t t' \<Longrightarrow> indexes_ok (ut_rows t) \<Longrightarrow> runs {Unguarded} t t'"
  by (induction rule: unguarded_op.induct)
    (auto elim!: withinD[rotated] intro!: within_protection within_fail_before within_consolidate within_fail_dispatch
      within_uninstalled)

lemma update_op_ok: "update_op t t' \<Longrightarrow> store_ok t \<Longrightarrow> store_ok t'"
  unfolding update_op_def
  by (meson agent_op_runs guarded_op_runs unguarded_op_runs runs_store_ok store_ok_def)

interpretation update_sm: state_machine "\<lambda>t. ut_rows t = []" update_op store_ok
  by unfold_locales (auto intro: update_op_ok store_sm.inv_init)

subsection \<open>Following a row\<close>

definition row_run :: "writer set \<Rightarrow> update_row \<Rightarrow> update_row \<Rightarrow> bool" where
  "row_run W = (\<lambda>r r'. \<exists>w \<in> W. row_step w r r')\<^sup>*\<^sup>*"

lemma row_step_id: "row_step w r r' \<Longrightarrow> uh_id r' = uh_id r \<and> uh_host_id r' = uh_host_id r"
  by (induction rule: row_step.induct) simp_all

lemma table_step_row:
  "table_step w t t' \<Longrightarrow> r \<in> set (ut_rows t) \<Longrightarrow>
     \<exists>r' \<in> set (ut_rows t'). uh_id r' = uh_id r \<and> (r' = r \<or> row_step w r r')"
proof (induction rule: table_step.induct)
  case (written t p w f)
  have m: "(if p r then f r else r) \<in> set (set_where p f (ut_rows t))"
    unfolding set_where_def set_map using written.prems by (rule image_eqI[rotated]) simp
  show ?case
    by (rule bexI[of _ "if p r then f r else r"]) (use written m in \<open>auto dest: row_step_id\<close>)
qed auto

lemma runs_row:
  "runs W t t' \<Longrightarrow> r \<in> set (ut_rows t) \<Longrightarrow> \<exists>r' \<in> set (ut_rows t'). uh_id r' = uh_id r \<and> row_run W r r'"
  unfolding runs_def
proof (induction rule: rtranclp_induct)
  case base
  then show ?case by (auto simp: row_run_def)
next
  case (step t1 t2)
  then obtain r1 where r1: "r1 \<in> set (ut_rows t1)" "uh_id r1 = uh_id r" "row_run W r r1" by blast
  obtain w where w: "w \<in> W" "table_step w t1 t2" using step by blast
  obtain r2 where r2: "r2 \<in> set (ut_rows t2)" "uh_id r2 = uh_id r1" "r2 = r1 \<or> row_step w r1 r2"
    using table_step_row[OF w(2) r1(1)] by blast
  have "row_run W r r2"
    using r1(3) r2(3) w(1) unfolding row_run_def by (metis (mono_tags, lifting) rtranclp.rtrancl_into_rtrancl)
  then show ?case using r2(1,2) r1(2) by auto
qed

text \<open>Equal but for the recovery hint and the mark of truncated output.\<close>

definition annotated :: "update_row \<Rightarrow> update_row \<Rightarrow> bool" where
  "annotated r r' \<longleftrightarrow> r'\<lparr>uh_recovery_hint := uh_recovery_hint r, uh_output_truncated := uh_output_truncated r\<rparr> = r"

lemma annotated_fields:
  "annotated r r' \<Longrightarrow> uh_status r' = uh_status r \<and> uh_owner_service r' = uh_owner_service r"
  by (cases r; cases r') (simp add: annotated_def)

lemma annotated_trans: "annotated r q \<Longrightarrow> annotated q r' \<Longrightarrow> annotated r r'"
  by (cases r; cases q; cases r') (simp add: annotated_def)

lemma annotated_intros [simp]:
  "annotated r r" "annotated r (r\<lparr>uh_recovery_hint := h\<rparr>)" "annotated r (r\<lparr>uh_output_truncated := b\<rparr>)"
  by (cases r; simp add: annotated_def)+

lemmas owned_defs = owned_in_progress_condition_def owned_finalizable_condition_def owned_status_condition_def

lemma row_step_finished:
  "row_step w r r' \<Longrightarrow> w \<noteq> Unguarded \<Longrightarrow> uh_status r = StCompleted \<or> uh_status r = StFailed \<Longrightarrow> annotated r r'"
  by (induction rule: row_step.induct) (simp_all add: owned_defs, metis update_status.distinct)






lemma row_run_annotated:
  assumes "row_run W r r'" "P r" "\<And>w q q'. w \<in> W \<Longrightarrow> row_step w q q' \<Longrightarrow> P q \<Longrightarrow> annotated q q' \<and> P q'"
  shows "annotated r r'"
proof -
  have "annotated r r' \<and> P r'"
    using assms(1) unfolding row_run_def
  proof (induction rule: rtranclp_induct)
    case base
    then show ?case using assms(2) by simp
  next
    case (step q q')
    then show ?case using assms(3) annotated_trans by blast
  qed
  then show ?thesis by simp
qed

lemma row_run_finished:
  assumes "row_run W r r'" "Unguarded \<notin> W" "uh_status r = StCompleted \<or> uh_status r = StFailed"
  shows "annotated r r'"
  using assms(1) assms(3)
proof (rule row_run_annotated)
  fix w q q' assume "w \<in> W" and s: "row_step w q q'" and q: "uh_status q = StCompleted \<or> uh_status q = StFailed"
  then have "w \<noteq> Unguarded" using assms(2) by auto
  from row_step_finished[OF s this q] have "annotated q q'" .
  then show "annotated q q' \<and> (uh_status q' = StCompleted \<or> uh_status q' = StFailed)"
    using annotated_fields[of q q'] q by simp
qed


lemma ops_runs:
  assumes "step\<^sup>*\<^sup>* t t'" "indexes_ok (ut_rows t)"
    and "\<And>t t'. step t t' \<Longrightarrow> indexes_ok (ut_rows t) \<Longrightarrow> runs W t t'"
  shows "runs W t t'"
  using assms(1)
proof (induction rule: rtranclp_induct)
  case (step u u')
  then have "indexes_ok (ut_rows u)" using runs_indexes assms(2) by blast
  then show ?case using step assms(3) runs_trans by blast
qed simp

lemma guarded_writers:
  "{ByAgent svc inst, ByPlugin, ByVersionCheck} \<subseteq> - {Unguarded}" "{ByQueue, ByRecovery, ByPlugin} \<subseteq> - {Unguarded}"
  by auto

subsection \<open>Terminal writes keep the indexes\<close>

lemma keys_shrink:
  assumes "\<And>r. r \<in> set rows \<Longrightarrow> P (g r) \<Longrightarrow> P r \<and> key (g r) = key r"
  shows "set (map key (filter P (map g rows))) \<subseteq> set (map key (filter P rows)) \<and>
    (distinct (map key (filter P rows)) \<longrightarrow> distinct (map key (filter P (map g rows))))"
  using assms
proof (induction rows)
  case (Cons r rows)
  have ih: "set (map key (filter P (map g rows))) \<subseteq> set (map key (filter P rows))"
      "distinct (map key (filter P rows)) \<Longrightarrow> distinct (map key (filter P (map g rows)))"
    using Cons by simp_all
  show ?case using ih Cons.prems[of r] by (cases "P (g r)"; cases "P r") auto
qed simp

lemma indexes_ok_terminal:
  assumes "indexes_ok rows"
    and "\<And>r. p r \<Longrightarrow> uh_id (f r) = uh_id r \<and> uh_status (f r) \<notin> set unfinished"
  shows "indexes_ok (set_where p f rows)"
proof -
  define g where "g = (\<lambda>r. if p r then f r else r)"
  have u: "map uh_id (map g rows) = map uh_id rows" using assms(2) by (simp add: g_def)
  have fin: "uh_status (g r) \<in> set unfinished \<Longrightarrow> g r = r" for r using assms(2) by (auto simp: g_def)
  then have blk: "uh_status (g r) \<in> set host_blocking \<Longrightarrow> g r = r" for r
    by (auto simp: host_blocking_def unfinished_def)
  have "distinct (host_active_keys (map g rows))"
    unfolding host_active_keys_def
    by (rule keys_shrink[THEN conjunct2, rule_format]) (use blk assms(1) in \<open>force simp: indexes_ok_def host_active_keys_def\<close>)+
  moreover have "distinct (item_active_keys (map g rows))"
    unfolding item_active_keys_def
    by (rule keys_shrink[THEN conjunct2, rule_format]) (use fin assms(1) in \<open>force simp: indexes_ok_def item_active_keys_def\<close>)+
  moreover have "distinct (map uh_id (map g rows))" using assms(1) unfolding u by (simp add: indexes_ok_def)
  ultimately show ?thesis unfolding indexes_ok_def set_where_def g_def[symmetric] by simp
qed

subsection \<open>The sweep of the reaper\<close>

definition reapable :: "instant \<Rightarrow> instant \<Rightarrow> int \<Rightarrow> int \<Rightarrow> update_row \<Rightarrow> bool" where
  "reapable time_max now budget grace r \<longleftrightarrow> uh_status r = StInProgress \<and> overdue time_max now budget grace r"

lemma long_running_reapable:
  "uh_status r = StInProgress \<Longrightarrow> uh_started_at r = Some s \<Longrightarrow> s + max budget MAX_BUDGET_SECS + grace < now \<Longrightarrow>
     reapable time_max now budget grace r"
  by (auto simp: reapable_def overdue_def row_budget_def Let_def split: option.split)

lemma reaped_candidates:
  "filter (overdue time_max now budget grace) (filter (\<lambda>r. uh_status r = StInProgress \<and> uh_started_at r \<noteq> None) rows) =
     filter (reapable time_max now budget grace) rows"
  by (induction rows) (auto simp: reapable_def overdue_def split: option.splits)

lemma interrupted_row_fields [simp]:
  "uh_id (interrupted_row now reason r) = uh_id r" "uh_status (interrupted_row now reason r) = StInterrupted"
  "uh_host_id (interrupted_row now reason r) = uh_host_id r"
  by (simp_all add: interrupted_row_def)

lemma indexes_ok_interrupted: "indexes_ok rows \<Longrightarrow> indexes_ok (set_where p (interrupted_row now reason) rows)"
  by (rule indexes_ok_terminal) (simp_all add: unfinished_def)

lemma set_where_cong: "(\<And>r. r \<in> set rows \<Longrightarrow> p r = q r) \<Longrightarrow> set_where p f rows = set_where q f rows"
  by (simp add: set_where_def)

lemma set_where_none: "(\<And>r. r \<in> set rows \<Longrightarrow> \<not> p r) \<Longrightarrow> set_where p f rows = rows"
  by (simp add: set_where_def map_idI)

lemma reap_overdue_eval:
  assumes ok: "indexes_ok (ut_rows t)"
  shows "\<exists>t'. reap_overdue_updates (\<lambda>_. None) time_max now budget grace t =
      (Ok (map (interrupted_row now REAP_REASON) (filter (reapable time_max now budget grace) (ut_rows t))), t') \<and>
    ut_rows t' = set_where (reapable time_max now budget grace) (interrupted_row now REAP_REASON) (ut_rows t)"
proof (cases "filter (reapable time_max now budget grace) (ut_rows t) = []")
  case True
  have "set_where (reapable time_max now budget grace) (interrupted_row now REAP_REASON) (ut_rows t) = ut_rows t"
    by (rule set_where_none) (use True in \<open>simp add: filter_empty_conv\<close>)
  then show ?thesis
    unfolding reap_overdue_updates_def using True
    by (intro exI[of _ t]) (simp add: act_simps reaped_candidates Let_def del: filter_filter not_None_eq)
next
  case False
  let ?od = "filter (reapable time_max now budget grace) (ut_rows t)"
  have same: "uh_id r \<in> uh_id ` set ?od \<and> uh_status r = StInProgress \<longleftrightarrow> reapable time_max now budget grace r"
    if "r \<in> set (ut_rows t)" for r
    using that indexes_ok_same[OF ok that] by (auto simp: reapable_def)
  have "set_where (\<lambda>r. uh_id r \<in> uh_id ` set ?od \<and> uh_status r = StInProgress) (interrupted_row now REAP_REASON) (ut_rows t) =
      set_where (reapable time_max now budget grace) (interrupted_row now REAP_REASON) (ut_rows t)"
    by (rule set_where_cong) (rule same)
  then show ?thesis
    unfolding reap_overdue_updates_def reaped_candidates
    using False indexes_ok_interrupted[OF ok]
    by (intro exI[of _ "t\<lparr>ut_rows := set_where (reapable time_max now budget grace) (interrupted_row now REAP_REASON) (ut_rows t)\<rparr>"])
      (simp add: act_simps reaped_candidates Let_def del: filter_filter set_filter not_None_eq)
qed

lemma reaped_host_free:
  assumes ok: "indexes_ok rows" and r: "r \<in> set rows" "reapable time_max now budget grace r"
  shows "filter (\<lambda>q. uh_host_id q = uh_host_id r \<and> uh_status q \<in> set host_blocking)
    (set_where (reapable time_max now budget grace) (interrupted_row now reason) rows) = []"
proof -
  have b: "uh_status r \<in> set host_blocking" using r(2) by (simp add: reapable_def host_blocking_def)
  have "q = r" if "q \<in> set rows" "uh_host_id q = uh_host_id r" "uh_status q \<in> set host_blocking" for q
    using ok that r(1) b by (auto simp: indexes_ok_def host_active_keys_def distinct_map inj_on_def)
  then show ?thesis using r(2) by (auto simp: filter_empty_conv set_where_def host_blocking_def)
qed

subsection \<open>Ownership\<close>

lemma row_step_owner:
  "row_step w r r' \<Longrightarrow> update_row_ok r \<Longrightarrow> uh_owner_service r = Some svc \<Longrightarrow>
     uh_owner_service r' = Some svc \<and> uh_owner_instance r' = uh_owner_instance r"
  by (induction rule: row_step.induct) (simp_all add: update_row_ok_def)

lemma row_run_owner:
  assumes "row_run W r r'" "update_row_ok r" "uh_owner_service r = Some svc"
  shows "uh_owner_service r' = Some svc \<and> uh_owner_instance r' = uh_owner_instance r"
proof -
  have "update_row_ok r' \<and> uh_owner_service r' = Some svc \<and> uh_owner_instance r' = uh_owner_instance r"
    using assms(1) unfolding row_run_def
  proof (induction rule: rtranclp_induct)
    case (step y z)
    then show ?case using row_step_owner[of _ y z svc] row_step_ok[of _ y z] by metis
  qed (use assms in simp)
  then show ?thesis by simp
qed

lemma update_op_runs: "update_op t t' \<Longrightarrow> indexes_ok (ut_rows t) \<Longrightarrow> runs UNIV t t'"
  unfolding update_op_def
  by (meson agent_op_runs guarded_op_runs unguarded_op_runs runs_mono subset_UNIV)

lemma find_row_iff:
  assumes "indexes_ok rows"
  shows "find_row i rows = Some r \<longleftrightarrow> r \<in> set rows \<and> uh_id r = i"
proof
  assume "find_row i rows = Some r"
  then show "r \<in> set rows \<and> uh_id r = i" using find_row_SomeD by (simp add: find_row_def)
next
  assume r: "r \<in> set rows \<and> uh_id r = i"
  then obtain q where q: "find_row i rows = Some q"
    by (cases "find_row i rows") (auto simp: find_row_def find_None_iff)
  then have "q \<in> set rows \<and> uh_id q = i" using find_row_SomeD by (simp add: find_row_def)
  then have "q = r" using indexes_ok_same[OF assms] r by metis
  then show "find_row i rows = Some r" using q by simp
qed

lemma delete_lines_Ok_iff [act_simps]:
  "delete_lines flt i ids t = (Ok a, t') \<longleftrightarrow> flt (DeleteLines i) = None \<and>
     t' = t\<lparr>ut_lines := filter (\<lambda>l. ol_update_history_id l \<notin> ids) (ut_lines t)\<rparr>"
  by (auto simp: delete_lines_def act_simps)

lemma select_row_Ok_iff [act_simps]:
  "select_row flt i t = (Ok a, t') \<longleftrightarrow> flt (SelectRows i) = None \<and> a = find_row i (ut_rows t) \<and> t' = t"
  by (auto simp: select_row_def act_simps)

lemma set_where_hit:
  assumes "filter p rows \<noteq> []" "\<And>q. p q \<Longrightarrow> P (f q)"
  shows "\<exists>r \<in> set (set_where p f rows). P r"
proof -
  obtain q where q: "q \<in> set rows" "p q" using assms(1) by (auto simp: filter_empty_conv)
  have "f q \<in> set (set_where p f rows)"
    unfolding set_where_def set_map using q by (intro image_eqI[of _ _ q]) simp_all
  then show ?thesis using assms(2)[OF q(2)] by blast
qed

lemma claim_Claimed_owner:
  assumes "indexes_ok (ut_rows t)"
    and "claim_or_replay_update_start_db flt now i svc inst interactive t = (Ok (Claimed info), t')"
  shows "\<exists>r \<in> set (ut_rows t'). uh_id r = i \<and> uh_status r = StInProgress \<and> uh_owner_service r = Some svc \<and>
    uh_owner_instance r = inst"
proof -
  have f: "find_row i (ut_rows t) = Some q \<Longrightarrow> uh_id q = i" for q
    using find_row_iff[OF assms(1)] by simp
  let ?p1 = "\<lambda>r. uh_id r = i \<and> uh_status r = StPending \<and> uh_owner_service r = None \<and> uh_owner_instance r = None"
  let ?f1 = "\<lambda>r. r\<lparr>uh_status := StInProgress, uh_started_at := Some now, uh_owner_service := Some svc,
    uh_owner_instance := inst, uh_interactive := interactive, uh_output := [], uh_output_bytes := 0,
    uh_output_truncated := False\<rparr>"
  let ?p2 = "\<lambda>r. uh_id r = i \<and> uh_status r = StInProgress \<and> uh_owner_service r = None"
  let ?f2 = "\<lambda>r. r\<lparr>uh_owner_service := Some svc, uh_owner_instance := inst, uh_interactive := interactive\<rparr>"
  have "filter ?p1 (ut_rows t) \<noteq> [] \<and> ut_rows t' = set_where ?p1 ?f1 (ut_rows t) \<or>
      filter ?p2 (ut_rows t) \<noteq> [] \<and> ut_rows t' = set_where ?p2 ?f2 (ut_rows t)"
  proof (cases "find_row i (ut_rows t)")
    case None
    then show ?thesis using assms(2) by (simp add: claim_or_replay_update_start_db_def act_simps)
  next
    case (Some q)
    note e = assms(2)[unfolded claim_or_replay_update_start_db_def act_bind_Ok_iff select_row_Ok_iff Some]
    consider "uh_status q = StPending \<and> uh_owner_service q = None \<and> uh_owner_instance q = None"
      | "uh_status q = StInProgress \<and> uh_owner_service q = None"
      | "\<not> (uh_status q = StPending \<and> uh_owner_service q = None \<and> uh_owner_instance q = None)"
        "\<not> (uh_status q = StInProgress \<and> uh_owner_service q = None)" by blast
    then show ?thesis
    proof cases
      case 1
      then show ?thesis using e f[OF Some] by (intro disjI1) (clarsimp simp: act_simps split: if_split_asm)
    next
      case 2
      then show ?thesis using e f[OF Some] by (intro disjI2) (clarsimp simp: act_simps split: if_split_asm)
    next
      case 3
      then show ?thesis using e by (simp split: if_split_asm)
    qed
  qed
  then show ?thesis
  proof (elim disjE conjE)
    assume h: "filter ?p1 (ut_rows t) \<noteq> []" "ut_rows t' = set_where ?p1 ?f1 (ut_rows t)"
    show ?thesis unfolding h(2) by (rule set_where_hit[OF h(1)]) simp
  next
    assume h: "filter ?p2 (ut_rows t) \<noteq> []" "ut_rows t' = set_where ?p2 ?f2 (ut_rows t)"
    show ?thesis unfolding h(2) by (rule set_where_hit[OF h(1)]) simp
  qed
qed

lemma claim_foreign_rejected:
  assumes "indexes_ok (ut_rows t)" "r \<in> set (ut_rows t)" "uh_id r = i" "uh_owner_service r = Some svc"
    and "(svc', inst') \<noteq> (svc, uh_owner_instance r)"
    and "claim_or_replay_update_start_db flt now i svc' inst' interactive t = (Ok out, t')"
  shows "out = ClaimRejected \<and> t' = t"
  using assms(6) find_row_iff[OF assms(1), of i r] assms(2-5)
  by (auto simp: claim_or_replay_update_start_db_def select_row_def act_simps)

section \<open>Properties\<close>

definition sample_params :: "uuid \<Rightarrow> uuid \<Rightarrow> uuid option \<Rightarrow> update_status \<Rightarrow> create_params" where
  "sample_params host item batch status =
     \<lparr>cp_tenant_id = 1, cp_host_id = host, cp_item_id = item, cp_host_software_item_id = Some item,
      cp_to_version = ''2.0'', cp_from_version = Some ''1.0'', cp_actor_type = ''user'', cp_actor_id = ''u'',
      cp_update_category = ''unknown'', cp_batch_id = batch, cp_initial_status = status, cp_interactive = False\<rparr>"

definition no_tables :: update_tables where
  "no_tables = \<lparr>ut_rows = [], ut_batches = [], ut_lines = []\<rparr>"

definition running_row :: update_row where
  "running_row = (new_history_row 1 0 (sample_params 7 1 None StPending))
     \<lparr>uh_status := StInProgress, uh_started_at := Some 5, uh_owner_service := Some 3\<rparr>"

definition claimed_tables :: update_tables where
  "claimed_tables = no_tables\<lparr>ut_rows := [running_row]\<rparr>"

abbreviation update_faultless :: update_faults where "update_faultless \<equiv> \<lambda>_. None"

lemma claim_sample:
  "claim_or_replay_update_start_db update_faultless 5 1 3 None False
     (no_tables\<lparr>ut_rows := [new_history_row 1 0 (sample_params 7 1 None StPending)]\<rparr>) =
   (Ok (Claimed (claim_info (new_history_row 1 0 (sample_params 7 1 None StPending)))), claimed_tables)"
  by (simp add: claim_or_replay_update_start_db_def act_bind_def sql_def write_rows_def no_tables_def
      indexes_ok_def host_active_keys_def item_active_keys_def select_row_def find_row_def new_history_row_def
      sample_params_def in_tx_def transaction_def update_history_many_def set_where_def delete_lines_def
      claimed_tables_def running_row_def)

lemma claimed_tables_reachable: "update_op\<^sup>*\<^sup>* no_tables claimed_tables"
proof -
  let ?t1 = "no_tables\<lparr>ut_rows := [new_history_row 1 0 (sample_params 7 1 None StPending)]\<rparr>"
  have "create_update_history_record update_faultless 1 0 (sample_params 7 1 None StPending) no_tables = (Ok 1, ?t1)"
    by (simp add: create_update_history_record_def act_bind_def sql_def write_rows_def no_tables_def
        indexes_ok_def host_active_keys_def item_active_keys_def)
  then have "update_op no_tables ?t1"
    unfolding update_op_def by (auto intro!: guarded_op.intros(1) simp: sample_params_def)
  moreover have "update_op ?t1 claimed_tables"
    unfolding update_op_def using agent_op.intros(1)[OF claim_sample] by blast
  ultimately show ?thesis by (meson rtranclp.simps)
qed

lemma claimed_tables_ok: "store_ok claimed_tables"
  using update_sm.inv_reachable[OF _ claimed_tables_reachable] by (simp add: no_tables_def)

text \<open>C27. Every row of a reachable table is well-formed: it has a start time, it is finished exactly when it
  has a time of completion, nobody owns it while it waits, one that awaits a restart has an owner and the
  time since when, and an unfinished one has counted between 0 and 50 MB of output.\<close>

theorem update_rows_well_formed:
  assumes "ut_rows t0 = []" "update_op\<^sup>*\<^sup>* t0 t" "r \<in> set (ut_rows t)"
  shows "uh_started_at r \<noteq> None \<and> (uh_completed_at r = None \<longleftrightarrow> uh_status r \<in> set unfinished) \<and>
    (uh_status r \<in> {StQueued, StPending} \<longrightarrow> uh_owner_service r = None \<and> uh_owner_instance r = None) \<and>
    (uh_status r = StAwaitingRestart \<longrightarrow> uh_owner_service r \<noteq> None \<and> uh_awaiting_restart_since r \<noteq> None) \<and>
    (uh_status r \<in> set unfinished \<longrightarrow> uh_output_bytes r \<in> {0..UPDATE_OUTPUT_BYTES_CAP})"
proof -
  have "update_row_ok r" using update_sm.inv_reachable[OF assms(1,2)] assms(3) by (simp add: store_ok_def list_all_iff)
  then show ?thesis by (simp add: update_row_ok_def)
qed

theorem update_rows_well_formed_witness:
  "uh_started_at running_row \<noteq> None \<and> (uh_completed_at running_row = None \<longleftrightarrow> uh_status running_row \<in> set unfinished) \<and>
    uh_output_bytes running_row \<in> {0..UPDATE_OUTPUT_BYTES_CAP}"
proof -
  have s: "uh_status running_row \<in> set unfinished" by (simp add: running_row_def unfinished_def)
  have "ut_rows no_tables = []" "running_row \<in> set (ut_rows claimed_tables)"
    by (simp_all add: no_tables_def claimed_tables_def)
  from update_rows_well_formed[OF this(1) claimed_tables_reachable this(2)] s show ?thesis by blast
qed

text \<open>C26. An update is executed by one agent process: once an agent has claimed it, whatever agents and
  controllers do afterwards, a claim by another service or by another process of the same service is
  rejected and changes nothing.\<close>

theorem claim_is_exclusive:
  assumes "store_ok t"
    and "claim_or_replay_update_start_db flt now i svc inst interactive t = (Ok (Claimed info), t1)"
    and "update_op\<^sup>*\<^sup>* t1 t2" "(svc', inst') \<noteq> (svc, inst)"
    and "claim_or_replay_update_start_db flt' now' i svc' inst' interactive' t2 = (Ok out, t3)"
  shows "out = ClaimRejected \<and> t3 = t2"
proof -
  have ok: "indexes_ok (ut_rows t)" using assms(1) by (simp add: store_ok_def)
  obtain r where r: "r \<in> set (ut_rows t1)" "uh_id r = i" "uh_owner_service r = Some svc" "uh_owner_instance r = inst"
    using claim_Claimed_owner[OF ok assms(2)] by blast
  have ok1: "store_ok t1"
    using update_op_ok assms(1) agent_op.intros(1)[OF assms(2)] unfolding update_op_def by blast
  then have i1: "indexes_ok (ut_rows t1)" and rok: "update_row_ok r"
    using r(1) by (auto simp: store_ok_def list_all_iff)
  have "runs UNIV t1 t2" by (rule ops_runs[OF assms(3) i1 update_op_runs])
  then obtain r2 where r2: "r2 \<in> set (ut_rows t2)" "uh_id r2 = i" "row_run UNIV r r2"
    and i2: "indexes_ok (ut_rows t2)"
    using runs_row[OF _ r(1)] runs_indexes[OF _ i1] r(2) by metis
  note o = row_run_owner[OF r2(3) rok r(3)]
  show ?thesis
    by (rule claim_foreign_rejected[OF i2 r2(1,2) _ _ assms(5)]) (use o r(4) assms(4) in auto)
qed

theorem claim_is_exclusive_witness:
  "\<exists>t. claim_or_replay_update_start_db update_faultless 9 1 4 None False claimed_tables = (Ok ClaimRejected, t)"
proof -
  let ?t0 = "no_tables\<lparr>ut_rows := [new_history_row 1 0 (sample_params 7 1 None StPending)]\<rparr>"
  obtain out t3 where e: "claim_or_replay_update_start_db update_faultless 9 1 4 None False claimed_tables = (Ok out, t3)"
    by (simp add: claim_or_replay_update_start_db_def act_bind_def sql_def select_row_def find_row_def claimed_tables_def
        running_row_def new_history_row_def no_tables_def)
  have "store_ok ?t0"
    by (simp add: store_ok_def indexes_ok_def host_active_keys_def item_active_keys_def no_tables_def
        new_history_row_wf sample_params_def)
  from claim_is_exclusive[OF this claim_sample rtranclp.rtrancl_refl _ e] show ?thesis using e by auto
qed

text \<open>C28. A finished update stays as it is: no message of an agent and no guarded operation of a controller
  changes a completed or failed row, but for its recovery hint and the mark of truncated output.\<close>

theorem finished_updates_stay_finished:
  assumes "(\<lambda>t t'. (\<exists>svc inst. agent_op svc inst t t') \<or> guarded_op t t')\<^sup>*\<^sup>* t t'" "indexes_ok (ut_rows t)"
    and "r \<in> set (ut_rows t)" "uh_status r = StCompleted \<or> uh_status r = StFailed"
  shows "\<exists>r' \<in> set (ut_rows t'). uh_id r' = uh_id r \<and>
    r'\<lparr>uh_recovery_hint := uh_recovery_hint r, uh_output_truncated := uh_output_truncated r\<rparr> = r"
proof -
  have "runs (- {Unguarded}) t t'"
    by (rule ops_runs[OF assms(1,2)]) (meson agent_op_runs guarded_op_runs runs_mono guarded_writers)
  then obtain r' where "r' \<in> set (ut_rows t')" "uh_id r' = uh_id r" "row_run (- {Unguarded}) r r'"
    using runs_row[OF _ assms(3)] by blast
  then show ?thesis using row_run_finished[OF _ _ assms(4)] unfolding annotated_def by blast
qed

definition finished_tables :: update_tables where
  "finished_tables = no_tables\<lparr>ut_rows := [running_row\<lparr>uh_status := StCompleted, uh_completed_at := Some 8\<rparr>]\<rparr>"

definition late_result :: finalize_args where
  "late_result = \<lparr>fa_update_history_id = 1, fa_service_id = 3, fa_runtime_instance_id = None, fa_status = FinalFailed,
     fa_error = Some ''late'', fa_output = [], fa_from_version = None, fa_to_version = None\<rparr>"

theorem finished_updates_stay_finished_witness:
  "\<exists>r' \<in> set (ut_rows (snd (finalize_update_result_if_owned update_faultless 9 late_result finished_tables))).
     uh_id r' = 1 \<and> uh_status r' = StCompleted"
proof -
  let ?r = "running_row\<lparr>uh_status := StCompleted, uh_completed_at := Some 8\<rparr>"
  obtain res t' where e: "finalize_update_result_if_owned update_faultless 9 late_result finished_tables = (res, t')"
    by fastforce
  have "agent_op 3 None finished_tables t'"
    by (rule agent_op.intros(4)[OF e]) (simp_all add: late_result_def)
  then have "(\<lambda>t t'. (\<exists>svc inst. agent_op svc inst t t') \<or> guarded_op t t')\<^sup>*\<^sup>* finished_tables t'" by blast
  then have "\<exists>r' \<in> set (ut_rows t'). uh_id r' = uh_id ?r \<and>
      r'\<lparr>uh_recovery_hint := uh_recovery_hint ?r, uh_output_truncated := uh_output_truncated ?r\<rparr> = ?r"
    by (rule finished_updates_stay_finished)
      (simp_all add: finished_tables_def indexes_ok_def host_active_keys_def item_active_keys_def unfinished_def host_blocking_def)
  then obtain r' where r': "r' \<in> set (ut_rows t')" "uh_id r' = uh_id ?r" "annotated ?r r'"
    unfolding annotated_def by blast
  have "uh_id ?r = 1" by (simp add: running_row_def new_history_row_def)
  then show ?thesis using r' annotated_fields[OF r'(3)] by (intro bexI[of _ r']) (simp_all add: e)
qed



text \<open>C30. The gap is real: the report of a version is matched by the software item that it names, and no
  owner is compared. Whichever service sends it, provided it is linked to some host, it finishes the
  update that awaits a restart, as failed when the version is not the expected one.\<close>

theorem version_report_finishes_any_update:
  assumes "store_ok t" "r \<in> set (ut_rows t)" "uh_status r = StAwaitingRestart" "uh_host_software_item_id r = Some hsi"
    and "filter (\<lambda>q. uh_host_software_item_id q = Some hsi \<and> uh_status q = StAwaitingRestart) (ut_rows t) = [r]"
    and "uh_to_version r = Some v" "hosts \<noteq> []"
  shows "handle_version_check_results update_faultless now (Some hosts)
      [\<lparr>vr_host_software_item_id = Some hsi, vr_installed_version = Some installed, vr_not_ready = None, vr_error = None\<rparr>] t =
    (Ok (), t\<lparr>ut_rows := map (\<lambda>q. if q = r then r\<lparr>uh_status := if installed = v then StCompleted else StFailed,
       uh_completed_at := Some now\<rparr> else q) (ut_rows t)\<rparr>)"
proof -
  have ok: "indexes_ok (ut_rows t)" using assms(1) by (simp add: store_ok_def)
  let ?f = "\<lambda>q. q\<lparr>uh_status := if installed = v then StCompleted else StFailed, uh_completed_at := Some now\<rparr>"
  let ?p = "\<lambda>q. uh_id q = uh_id r \<and> uh_status q = StAwaitingRestart"
  have fnd: "find (\<lambda>q. uh_host_software_item_id q = Some hsi \<and> uh_status q = StAwaitingRestart) (ut_rows t) = Some r"
    using assms(5) by (metis find_filter_hd)
  have p: "?p q \<longleftrightarrow> q = r" if "q \<in> set (ut_rows t)" for q
    using indexes_ok_same[OF ok that assms(2)] assms(3) by auto
  have w: "set_where ?p ?f (ut_rows t) = map (\<lambda>q. if q = r then ?f r else q) (ut_rows t)"
    using p by (auto simp: set_where_def)
  have i: "indexes_ok (set_where ?p ?f (ut_rows t))"
    by (rule indexes_ok_terminal[OF ok]) (auto simp: unfinished_def)
  have n: "filter ?p (ut_rows t) \<noteq> []" using p assms(2) by (auto simp: filter_empty_conv)
  show ?thesis
    using assms(6,7) n i w
    by (simp add: handle_version_check_results_def correlate_restart_def apply_awaiting_restart_version_check_def act_bind_def
        act_try_def sql_def fnd update_history_many_def write_rows_def Let_def)
qed

definition restarting_row :: update_row where
  "restarting_row = running_row\<lparr>uh_status := StAwaitingRestart, uh_awaiting_restart_since := Some 6\<rparr>"

theorem version_report_finishes_any_update_witness:
  "uh_owner_service restarting_row = Some 3 \<and>
   snd (handle_version_check_results update_faultless 9 (Some [12])
     [\<lparr>vr_host_software_item_id = Some 1, vr_installed_version = Some ''0.1'', vr_not_ready = None, vr_error = None\<rparr>]
     (no_tables\<lparr>ut_rows := [restarting_row]\<rparr>)) =
   no_tables\<lparr>ut_rows := [restarting_row\<lparr>uh_status := StFailed, uh_completed_at := Some 9\<rparr>]\<rparr>"
proof -
  let ?t = "no_tables\<lparr>ut_rows := [restarting_row]\<rparr>"
  have f: "uh_status restarting_row = StAwaitingRestart" "uh_host_software_item_id restarting_row = Some 1"
    "uh_to_version restarting_row = Some ''2.0''" "uh_owner_service restarting_row = Some 3"
    by (simp_all add: restarting_row_def running_row_def new_history_row_def sample_params_def)
  have ok: "store_ok ?t"
    by (simp add: store_ok_def indexes_ok_def host_active_keys_def item_active_keys_def update_row_ok_def
        restarting_row_def running_row_def new_history_row_def unfinished_def UPDATE_OUTPUT_BYTES_CAP_def)
  have m: "restarting_row \<in> set (ut_rows ?t)" "filter (\<lambda>q. uh_host_software_item_id q = Some 1 \<and> uh_status q = StAwaitingRestart)
      (ut_rows ?t) = [restarting_row]" using f by simp_all
  show ?thesis
    using version_report_finishes_any_update[OF ok m(1) f(1,2) m(2) f(3), of "[12]" 9 "''0.1''"] f(4) by simp
qed

text \<open>C31. Streamed output is stored up to the cap: of each piece the longest prefix that ends at a character
  boundary and keeps the count within 50 MB is stored, the count grows by its length, and exactly when
  the cap is reached the row is marked and the notice follows.\<close>

theorem streamed_output_capped:
  assumes "store_ok t" "r \<in> set (ut_rows t)" "uh_id r = i" "owned_in_progress_condition svc inst r"
    and "\<not> uh_output_truncated r"
    and "append_update_output_if_owned flt now ids i svc inst stream out t = (Ok res, t')"
  shows "\<exists>n. n \<le> length out \<and> is_char_boundary out n \<and> uh_output_bytes r + int n \<le> UPDATE_OUTPUT_BYTES_CAP \<and>
    (\<forall>k. k \<le> length out \<and> is_char_boundary out k \<and> uh_output_bytes r + int k \<le> UPDATE_OUTPUT_BYTES_CAP \<longrightarrow> k \<le> n) \<and>
    ut_lines t' = ut_lines t @ into_persisted_lines res \<and>
    (let full = n < length out \<or> uh_output_bytes r = UPDATE_OUTPUT_BYTES_CAP in
      r\<lparr>uh_output_bytes := uh_output_bytes r + int n, uh_output_truncated := full\<rparr> \<in> set (ut_rows t') \<and>
      concat (map ol_output (into_persisted_lines res)) = take n out @ (if full then OUTPUT_TRUNCATION_NOTICE else []))"
proof -
  have ok: "indexes_ok (ut_rows t)" and b: "uh_output_bytes r \<le> UPDATE_OUTPUT_BYTES_CAP"
    using assms(1,2,4) owned_conditionD(1)[OF assms(4)] by (auto simp: store_ok_def list_all_iff update_row_ok_def unfinished_def)
  have e: "res = output_outcome now ids i stream (uh_output_bytes r) out"
      "t' = t\<lparr>ut_rows := set_where (\<lambda>q. q = r) (output_row out) (ut_rows t), ut_lines := ut_lines t @ into_persisted_lines res\<rparr>"
    using append_accepted[OF ok assms(2-6)] by simp_all
  obtain n where n: "n = length (stored_part (uh_output_bytes r) out)" by simp
  note st = stored_part_longest[OF b n]
  have fits: "output_fits (uh_output_bytes r) out \<longleftrightarrow> \<not> (n < length out \<or> uh_output_bytes r = UPDATE_OUTPUT_BYTES_CAP)"
    using output_fits_iff[OF b n] .
  have row: "output_row out r = r\<lparr>uh_output_bytes := uh_output_bytes r + int n,
      uh_output_truncated := n < length out \<or> uh_output_bytes r = UPDATE_OUTPUT_BYTES_CAP\<rparr>"
    unfolding output_row_def n[symmetric] fits by simp
  have "r\<lparr>uh_output_bytes := uh_output_bytes r + int n,
      uh_output_truncated := n < length out \<or> uh_output_bytes r = UPDATE_OUTPUT_BYTES_CAP\<rparr> \<in> set (ut_rows t')"
    unfolding row[symmetric] e(2) using assms(2) by (auto simp: set_where_def)
  moreover have "concat (map ol_output (into_persisted_lines res)) =
      take n out @ (if n < length out \<or> uh_output_bytes r = UPDATE_OUTPUT_BYTES_CAP then OUTPUT_TRUNCATION_NOTICE else [])"
    unfolding e(1) using output_outcome_text[of now ids i stream "uh_output_bytes r" out] st fits by simp
  moreover have "ut_lines t' = ut_lines t @ into_persisted_lines res" unfolding e(2) by simp
  ultimately show ?thesis using st unfolding Let_def by (intro exI[of _ n] conjI) simp_all
qed

theorem streamed_output_capped_witness:
  "\<exists>n t' res. append_update_output_if_owned update_faultless 6 (20, 21) 1 3 None Stdout ''ok'' claimed_tables = (Ok res, t') \<and>
     n \<le> length ''ok'' \<and> ut_lines t' = ut_lines claimed_tables @ into_persisted_lines res"
proof -
  have own: "owned_in_progress_condition 3 None running_row"
    by (simp add: owned_defs running_row_def new_history_row_def)
  obtain res t' where
    e: "append_update_output_if_owned update_faultless 6 (20, 21) 1 3 None Stdout ''ok'' claimed_tables = (Ok res, t')"
    by (simp add: append_update_output_if_owned_def in_tx_def transaction_def act_bind_def sql_def owned_defs running_row_def
        new_history_row_def sample_params_def claimed_tables_def no_tables_def UPDATE_OUTPUT_BYTES_CAP_def
        update_history_many_def write_rows_def set_where_def insert_line_def indexes_ok_def host_active_keys_def
        item_active_keys_def)
  have "running_row \<in> set (ut_rows claimed_tables)" "uh_id running_row = 1" "\<not> uh_output_truncated running_row"
    by (simp_all add: claimed_tables_def running_row_def new_history_row_def)
  from streamed_output_capped[OF claimed_tables_ok this(1,2) own this(3) e] e show ?thesis by blast
qed

text \<open>C32. The reaper: a sweep that no statement disturbs interrupts exactly the running updates that are
  past their deadline, and a host whose running update started longer ago than any budget is free again.\<close>

theorem reaper_frees_hosts:
  assumes "store_ok t"
  shows "\<exists>reaped t'. reap_overdue_updates update_faultless time_max now budget grace t = (Ok reaped, t') \<and>
    reaped = map (interrupted_row now REAP_REASON) (filter (reapable time_max now budget grace) (ut_rows t)) \<and>
    ut_rows t' = map (\<lambda>r. if reapable time_max now budget grace r then interrupted_row now REAP_REASON r else r)
      (ut_rows t) \<and>
    (\<forall>r s. r \<in> set (ut_rows t) \<and> uh_status r = StInProgress \<and> uh_started_at r = Some s \<and>
      s + max budget MAX_BUDGET_SECS + grace < now \<longrightarrow>
      filter (\<lambda>q. uh_host_id q = uh_host_id r \<and> uh_status q \<in> set host_blocking) (ut_rows t') = [])"
proof -
  have ok: "indexes_ok (ut_rows t)" using assms by (simp add: store_ok_def)
  obtain t' where t': "reap_overdue_updates update_faultless time_max now budget grace t =
      (Ok (map (interrupted_row now REAP_REASON) (filter (reapable time_max now budget grace) (ut_rows t))), t')"
    "ut_rows t' = set_where (reapable time_max now budget grace) (interrupted_row now REAP_REASON) (ut_rows t)"
    using reap_overdue_eval[OF ok] by blast
  have "filter (\<lambda>q. uh_host_id q = uh_host_id r \<and> uh_status q \<in> set host_blocking) (ut_rows t') = []"
    if "r \<in> set (ut_rows t)" "uh_status r = StInProgress" "uh_started_at r = Some s"
      "s + max budget MAX_BUDGET_SECS + grace < now" for r s
    unfolding t'(2) by (rule reaped_host_free[OF ok that(1) long_running_reapable[OF that(2-4)]])
  then show ?thesis using t' by (intro exI[of _ t'] exI conjI) (auto simp: set_where_def)
qed

theorem reaper_frees_hosts_witness:
  "\<exists>reaped t'. reap_overdue_updates update_faultless 10000000 9000000 7200 60 claimed_tables = (Ok reaped, t') \<and>
     filter (\<lambda>q. uh_host_id q = uh_host_id running_row \<and> uh_status q \<in> set host_blocking) (ut_rows t') = []"
proof -
  have "running_row \<in> set (ut_rows claimed_tables) \<and> uh_status running_row = StInProgress \<and>
      uh_started_at running_row = Some 5 \<and> 5 + max 7200 MAX_BUDGET_SECS + 60 < 9000000"
    by (simp add: claimed_tables_def running_row_def MAX_BUDGET_SECS_def)
  then show ?thesis
    using reaper_frees_hosts[OF claimed_tables_ok, of 10000000 9000000 7200 60] by blast
qed

end
