(* ===== verification/Update_Dispatch.thy ===== *)
theory Update_Dispatch
  imports Update_Lifecycle "HOL-Library.AList" "HOL-Library.Sublist"
begin

text \<open>
  How an update gets to an agent (\<open>update_dispatch.rs\<close>, \<open>update_triggers.rs\<close> and \<open>update_batches\<close> of
  \<open>crates/ui/web-api-queries/src/queries\<close>): the inventory that a dispatch reads, the effective plugin
  configuration, the release that goes with an update, protection, the queue of a host, batches and
  triggers. The notifier and the plugins for protection and for the hook are parameters.
\<close>

section \<open>Plugin configuration\<close>

text \<open>A value of \<open>serde_json\<close>; the keys of an object are distinct.\<close>

datatype json =
    JNull | JBool bool | JNumber string | JString string | JArray "json list" | JObject "(string \<times> json) list"

definition json_get :: "string \<Rightarrow> json \<Rightarrow> json option" where
  "json_get k v = (case v of JObject kvs \<Rightarrow> map_of kvs k | _ \<Rightarrow> None)"

definition shallow_merge_into :: "json \<Rightarrow> json \<Rightarrow> json" where
  "shallow_merge_into target source = (case (target, source) of
       (JObject t, JObject s) \<Rightarrow> JObject (fold (\<lambda>(k, v). AList.update k v) s t)
     | _ \<Rightarrow> target)"

definition resolve_effective_config :: "json option \<Rightarrow> json option \<Rightarrow> json option \<Rightarrow> json" where
  "resolve_effective_config type_settings profile_config assignment_config =
     (let layer = (\<lambda>merged l. case l of Some v \<Rightarrow> shallow_merge_into merged v | None \<Rightarrow> merged)
      in layer (layer (layer (JObject []) type_settings) profile_config) assignment_config)"

section \<open>Inventory\<close>

text \<open>The columns that the update pipeline reads or writes.\<close>

record item_row =
  si_id :: uuid
  si_tenant_id :: uuid
  si_name :: string
  si_deactivated_at :: "instant option"

record host_row =
  ho_id :: uuid
  ho_tenant_id :: uuid
  ho_machine_id :: string
  ho_friendly_name :: string
  ho_deactivated_at :: "instant option"

record link_row =
  hl_id :: uuid
  hl_host_id :: uuid
  hl_software_item_id :: uuid
  hl_installed_version :: "string option"
  hl_installed_version_detected_at :: "instant option"
  hl_latest_version :: "string option"
  hl_latest_release_metadata :: "json option"
  hl_last_updated_at :: "instant option"
  hl_update_category :: string
  hl_deactivated_at :: "instant option"

datatype service_status = SvPending | SvApproved | SvRejected | SvDeactivated

record service_row =
  sv_id :: uuid
  sv_tenant_id :: uuid
  sv_status :: service_status
  sv_last_seen_at :: "instant option"
  sv_updated_at :: instant
  sv_deactivated_at :: "instant option"

record service_host_row =
  sh_service_id :: uuid
  sh_host_id :: uuid

record assignment_row =
  pa_host_id :: uuid
  pa_software_item_id :: uuid
  pa_plugin_config_id :: "uuid option"
  pa_plugin_type :: string
  pa_role :: string
  pa_ordinal :: int
  pa_package_identifier :: string
  pa_config :: "json option"

record plugin_config_row =
  pc_id :: uuid
  pc_config :: json
  pc_deactivated_at :: "instant option"

section \<open>Messages to an agent\<close>

datatype attestation_status = Verified | NotFound | Unverified | OtherAttestation string

record release_asset =
  as_name :: string
  as_download_url :: string
  as_size :: "nat option"
  as_content_type :: "string option"
  as_sha256_digest :: "string option"

record release_info =
  ri_tag :: string
  ri_release_url :: string
  ri_assets :: "release_asset list"
  ri_attestation_status :: "attestation_status option"
  ri_require_attestation :: bool

record metadata_release =
  md_tag :: string
  md_release_url :: string
  md_attestation_status :: "attestation_status option"
  md_assets :: "release_asset list"

record plugin_assignment =
  pl_plugin_type :: string
  pl_package_identifier :: string
  pl_config :: json

record execute_payload =
  ep_host_machine_id :: string
  ep_update_history_id :: uuid
  ep_software_item_id :: uuid
  ep_software_item_name :: string
  ep_to_version :: string
  ep_detect_version_plugin :: "plugin_assignment option"
  ep_execute_update_plugin :: plugin_assignment
  ep_pre_update_hook_plugins :: "plugin_assignment list"
  ep_post_update_hook_plugins :: "plugin_assignment list"
  ep_release_info :: "release_info option"
  ep_timeout :: int
  ep_interactive :: bool

text \<open>The tables of the inventory, the messages given to the notifier and the calls of the pre-update
  hook (tenant, host, item, update), oldest first.\<close>

record fleet = update_tables +
  fl_items :: "item_row list"
  fl_hosts :: "host_row list"
  fl_links :: "link_row list"
  fl_services :: "service_row list"
  fl_service_hosts :: "service_host_row list"
  fl_assignments :: "assignment_row list"
  fl_plugin_configs :: "plugin_config_row list"
  fl_sent :: "(uuid \<times> execute_payload) list"
  fl_hook_calls :: "(uuid \<times> uuid \<times> uuid \<times> uuid) list"

type_synonym ('z, 'a) fleet_act = "('z fleet_scheme, trigger_update_error, 'a) act"

section \<open>Reading the target of an update\<close>

text \<open>A query for one row returns the first that matches.\<close>

definition select_one :: "update_faults \<Rightarrow> update_stmt \<Rightarrow> ('z fleet_scheme \<Rightarrow> 'r list) \<Rightarrow> ('r \<Rightarrow> bool) \<Rightarrow>
  ('z, 'r option) fleet_act" where
  "select_one flt st table p = act_bind (sql flt st) (\<lambda>_. act_read (\<lambda>t. find p (table t)))"

definition select_all :: "update_faults \<Rightarrow> update_stmt \<Rightarrow> ('z fleet_scheme \<Rightarrow> 'r list) \<Rightarrow> ('r \<Rightarrow> bool) \<Rightarrow>
  ('z, 'r list) fleet_act" where
  "select_all flt st table p = act_bind (sql flt st) (\<lambda>_. act_read (\<lambda>t. filter p (table t)))"

definition or_fail :: "'e \<Rightarrow> ('s, 'e, 'a option) act \<Rightarrow> ('s, 'e, 'a) act" where
  "or_fail e m = act_bind m (\<lambda>found. case found of None \<Rightarrow> act_fail e | Some x \<Rightarrow> act_return x)"

text \<open>\<open>find_active_item\<close> takes a failed query for no row.\<close>

definition find_active_item :: "update_faults \<Rightarrow> uuid \<Rightarrow> uuid \<Rightarrow> ('z, item_row option) fleet_act" where
  "find_active_item flt tenant i =
     act_try (select_one flt (SelectItem i) fl_items
       (\<lambda>r. si_id r = i \<and> si_tenant_id r = tenant \<and> si_deactivated_at r = None))
     (\<lambda>res. act_return (case res of Inl _ \<Rightarrow> None | Inr found \<Rightarrow> found))"

definition merged_plugin_config :: "assignment_row \<Rightarrow> plugin_config_row option \<Rightarrow> json" where
  "merged_plugin_config a c = resolve_effective_config None (map_option pc_config c) (pa_config a)"

definition build_plugin_assignment :: "assignment_row \<Rightarrow> plugin_config_row option \<Rightarrow> plugin_assignment" where
  "build_plugin_assignment a c = \<lparr>pl_plugin_type = pa_plugin_type a, pl_package_identifier = pa_package_identifier a,
     pl_config = merged_plugin_config a c\<rparr>"

definition load_role_plugin ::
  "update_faults \<Rightarrow> uuid \<Rightarrow> uuid \<Rightarrow> string \<Rightarrow> ('z, (assignment_row \<times> plugin_config_row option) option) fleet_act" where
  "load_role_plugin flt host item role =
     act_bind (select_one flt (SelectPlugins item) fl_assignments
       (\<lambda>a. pa_host_id a = host \<and> pa_software_item_id a = item \<and> pa_role a = role)) (\<lambda>found. case found of
       None \<Rightarrow> act_return None
     | Some a \<Rightarrow> (case pa_plugin_config_id a of
         None \<Rightarrow> act_return (Some (a, None))
       | Some pc \<Rightarrow> act_bind (or_fail PluginConfigNotFound (select_one flt (SelectPluginConfig pc) fl_plugin_configs
             (\<lambda>c. pc_id c = pc \<and> pc_deactivated_at c = None))) (\<lambda>c.
           act_return (Some (a, Some c)))))"

fun build_all :: "update_faults \<Rightarrow> assignment_row list \<Rightarrow> ('z, plugin_assignment list) fleet_act" where
  "build_all flt [] = act_return []"
| "build_all flt (a # rest) =
     act_bind (case pa_plugin_config_id a of
         None \<Rightarrow> act_return None
       | Some pc \<Rightarrow> select_one flt (SelectPluginConfig pc) fl_plugin_configs
           (\<lambda>c. pc_id c = pc \<and> pc_deactivated_at c = None)) (\<lambda>c.
     act_bind (build_all flt rest) (\<lambda>result.
     act_return (build_plugin_assignment a c # result)))"

definition load_role_plugins_ordered ::
  "update_faults \<Rightarrow> uuid \<Rightarrow> uuid \<Rightarrow> string \<Rightarrow> ('z, plugin_assignment list) fleet_act" where
  "load_role_plugins_ordered flt host item role =
     act_bind (select_all flt (SelectPlugins item) fl_assignments
       (\<lambda>a. pa_host_id a = host \<and> pa_software_item_id a = item \<and> pa_role a = role)) (\<lambda>assignments.
     build_all flt (sort_key pa_ordinal assignments))"

text \<open>\<open>Iterator::max_by_key\<close>: the last of the greatest elements.\<close>

fun max_by_key :: "('a \<Rightarrow> 'k::linorder) \<Rightarrow> 'a list \<Rightarrow> 'a option" where
  "max_by_key key [] = None"
| "max_by_key key (x # xs) = Some (fold (\<lambda>y best. if key best \<le> key y then y else best) xs x)"

definition last_seen :: "service_row \<Rightarrow> instant" where
  "last_seen svc = (case sv_last_seen_at svc of Some s \<Rightarrow> s | None \<Rightarrow> sv_updated_at svc)"

definition choose_agent :: "service_row list \<Rightarrow> service_row option" where
  "choose_agent agents = (case max_by_key last_seen (filter (\<lambda>s. sv_status s = SvApproved) agents) of
       Some svc \<Rightarrow> Some svc
     | None \<Rightarrow> max_by_key last_seen agents)"

record validated_target =
  vt_item :: item_row
  vt_host :: host_row
  vt_link :: link_row
  vt_agent :: service_row
  vt_execute_update :: "assignment_row \<times> plugin_config_row option"
  vt_detect_version :: "(assignment_row \<times> plugin_config_row option) option"
  vt_fetch_releases_config :: "json option"
  vt_pre_update_hooks :: "plugin_assignment list"
  vt_post_update_hooks :: "plugin_assignment list"

definition load_target_for_dispatch ::
  "update_faults \<Rightarrow> uuid \<Rightarrow> uuid \<Rightarrow> uuid \<Rightarrow> ('z, validated_target) fleet_act" where
  "load_target_for_dispatch flt tenant host item_id =
     act_bind (or_fail SoftwareItemNotFound (find_active_item flt tenant item_id)) (\<lambda>item.
     act_bind (or_fail HostNotFound (select_one flt (SelectHost host) fl_hosts
       (\<lambda>h. ho_id h = host \<and> ho_tenant_id h = tenant \<and> ho_deactivated_at h = None))) (\<lambda>host_record.
     act_bind (or_fail HostNotAssigned (select_one flt (SelectLinks host) fl_links
       (\<lambda>l. hl_host_id l = host \<and> hl_software_item_id l = item_id \<and> hl_deactivated_at l = None))) (\<lambda>hsi_link.
     act_bind (sql flt (SelectAgents host)) (\<lambda>_.
     act_bind (act_read (\<lambda>t. map sh_service_id (filter (\<lambda>l. sh_host_id l = host \<and>
         (\<exists>s \<in> set (fl_services t). sv_id s = sh_service_id l \<and> sv_tenant_id s = tenant)) (fl_service_hosts t)))) (\<lambda>links.
     if links = [] then act_fail NoAgent
     else
     act_bind (select_all flt (SelectAgents tenant) fl_services
       (\<lambda>s. sv_id s \<in> set links \<and> sv_tenant_id s = tenant \<and> sv_deactivated_at s = None)) (\<lambda>agents.
     act_bind (or_fail NoAgent (act_return (choose_agent agents))) (\<lambda>agent.
     if sv_status agent \<noteq> SvApproved then act_fail AgentNotApproved
     else
     act_bind (or_fail NoExecuteUpdatePlugin (load_role_plugin flt host item_id ''execute_update'')) (\<lambda>execute_update.
     act_bind (load_role_plugin flt host item_id ''detect_version'') (\<lambda>detect_version.
     act_bind (load_role_plugin flt host item_id ''fetch_releases'') (\<lambda>fetch_releases.
     act_bind (load_role_plugins_ordered flt host item_id ''pre_update_hook'') (\<lambda>pre_hooks.
     act_bind (load_role_plugins_ordered flt host item_id ''post_update_hook'') (\<lambda>post_hooks.
     act_return
       \<lparr>vt_item = item, vt_host = host_record, vt_link = hsi_link, vt_agent = agent,
        vt_execute_update = execute_update, vt_detect_version = detect_version,
        vt_fetch_releases_config = map_option (\<lambda>(a, c). merged_plugin_config a c) fetch_releases,
        vt_pre_update_hooks = pre_hooks, vt_post_update_hooks = post_hooks\<rparr>))))))))))))"

section \<open>Dispatch\<close>

definition GENERIC_SHELL :: string where "GENERIC_SHELL = ''generic.shell''"

definition is_interactive_dispatch_plugin :: "string \<Rightarrow> bool" where
  "is_interactive_dispatch_plugin plugin_type \<longleftrightarrow> plugin_type \<in> set [GENERIC_SHELL]"

definition config_prefers_interactive :: "string \<Rightarrow> json \<Rightarrow> bool" where
  "config_prefers_interactive plugin_type config \<longleftrightarrow> is_interactive_dispatch_plugin plugin_type \<and>
     (case json_get ''prefer_interactive'' config of Some (JBool b) \<Rightarrow> b | _ \<Rightarrow> False)"

text \<open>\<open>parse_release\<close> and \<open>parse_require\<close> are the derived deserializers of \<open>MetadataRelease\<close> and
  \<open>RequireAttestation\<close>.\<close>

record release_parsers =
  parse_release :: "json \<Rightarrow> metadata_release option"
  parse_require :: "json \<Rightarrow> bool option"

definition enrich_asset :: "release_asset list \<Rightarrow> release_asset \<Rightarrow> release_asset" where
  "enrich_asset stored a = (case find (\<lambda>m. as_name m = as_name a) stored of
       Some m \<Rightarrow> a\<lparr>as_sha256_digest := as_sha256_digest m\<rparr>
     | None \<Rightarrow> a)"

definition stored_release :: "release_parsers \<Rightarrow> json option \<Rightarrow> metadata_release option" where
  "stored_release ps metadata = (case metadata of None \<Rightarrow> None | Some m \<Rightarrow> parse_release ps m)"

definition rebuilt_release :: "metadata_release \<Rightarrow> release_info" where
  "rebuilt_release m = \<lparr>ri_tag = md_tag m, ri_release_url = md_release_url m,
     ri_assets = filter (\<lambda>a. as_download_url a \<noteq> []) (md_assets m),
     ri_attestation_status = md_attestation_status m, ri_require_attestation = False\<rparr>"

definition enrich_release_info_with_attestation ::
  "release_parsers \<Rightarrow> release_info option \<Rightarrow> json option \<Rightarrow> json option \<Rightarrow> release_info option" where
  "enrich_release_info_with_attestation ps release metadata fetch_config =
     (let base = (case release of
          Some ri \<Rightarrow> (case stored_release ps metadata of
              Some m \<Rightarrow> Some (ri\<lparr>ri_attestation_status := md_attestation_status m,
                                ri_assets := map (enrich_asset (md_assets m)) (ri_assets ri)\<rparr>)
            | None \<Rightarrow> Some ri)
        | None \<Rightarrow> (case stored_release ps metadata of
              Some m \<Rightarrow> if md_tag m = [] then None else Some (rebuilt_release m)
            | None \<Rightarrow> None))
      in map_option (\<lambda>ri. case fetch_config of
             None \<Rightarrow> ri
           | Some config \<Rightarrow> (case parse_require ps config of
               Some b \<Rightarrow> ri\<lparr>ri_require_attestation := b\<rparr>
             | None \<Rightarrow> ri)) base)"

record protection_decision =
  pd_attempted :: bool
  pd_succeeded :: bool
  pd_protection_status :: "string option"
  pd_protection_summary :: "string option"

text \<open>The notifier of a dispatch context: which services are connected here, and whether messages are
  handed over at all (the one for the preparation of a replay drops them). The protection plugin answers
  for tenant, host, item and update; \<open>dc_hook\<close> says whether a pre-update hook plugin is registered.\<close>

record dispatch_ctx =
  dc_connected :: "uuid \<Rightarrow> bool"
  dc_delivers :: bool
  dc_parsers :: release_parsers
  dc_protection :: "(uuid \<Rightarrow> uuid \<Rightarrow> uuid \<Rightarrow> uuid \<Rightarrow> string + protection_decision) option"
  dc_hook :: bool

record dispatch_params =
  dp_update_history_id :: uuid
  dp_to_version :: string
  dp_release_info :: "release_info option"
  dp_interactive :: bool

definition execute_payload_of :: "dispatch_ctx \<Rightarrow> validated_target \<Rightarrow> dispatch_params \<Rightarrow> execute_payload" where
  "execute_payload_of ctx target params =
     (let plugin = build_plugin_assignment (fst (vt_execute_update target)) (snd (vt_execute_update target))
      in \<lparr>ep_host_machine_id = ho_machine_id (vt_host target),
          ep_update_history_id = dp_update_history_id params,
          ep_software_item_id = si_id (vt_item target), ep_software_item_name = si_name (vt_item target),
          ep_to_version = dp_to_version params,
          ep_detect_version_plugin = map_option (\<lambda>(a, c). build_plugin_assignment a c) (vt_detect_version target),
          ep_execute_update_plugin = plugin,
          ep_pre_update_hook_plugins = vt_pre_update_hooks target,
          ep_post_update_hook_plugins = vt_post_update_hooks target,
          ep_release_info = enrich_release_info_with_attestation (dc_parsers ctx) (dp_release_info params)
            (hl_latest_release_metadata (vt_link target)) (vt_fetch_releases_config target),
          ep_timeout = DEFAULT_UPDATE_TIMEOUT,
          ep_interactive = (dp_interactive params \<or>
            config_prefers_interactive (pl_plugin_type plugin) (pl_config plugin))\<rparr>)"

definition dispatch_update_to_agent ::
  "dispatch_ctx \<Rightarrow> validated_target \<Rightarrow> dispatch_params \<Rightarrow> ('z, bool) fleet_act" where
  "dispatch_update_to_agent ctx target params t =
     (let agent = sv_id (vt_agent target); payload = execute_payload_of ctx target params
      in if dc_delivers ctx then (Ok (dc_connected ctx agent), t\<lparr>fl_sent := fl_sent t @ [(agent, payload)]\<rparr>)
         else (Ok False, t))"

datatype protection_outcome = Proceed | ProtectionFailed

definition prepare_pre_update_protection ::
  "update_faults \<Rightarrow> instant \<Rightarrow> dispatch_ctx \<Rightarrow> validated_target \<Rightarrow> uuid \<Rightarrow> ('z, protection_outcome) fleet_act" where
  "prepare_pre_update_protection flt now ctx target i = (case dc_protection ctx of
       None \<Rightarrow> act_return Proceed
     | Some prepare \<Rightarrow>
         (case prepare (si_tenant_id (vt_item target)) (ho_id (vt_host target)) (si_id (vt_item target)) i of
           Inl _ \<Rightarrow> act_bind (fail_before_agent_dispatch flt now i None None) (\<lambda>_. act_return ProtectionFailed)
         | Inr decision \<Rightarrow>
             if \<not> pd_attempted decision
             then act_bind (write_pre_update_protection_status flt i (Some ''skipped'') (pd_protection_summary decision))
               (\<lambda>_. act_return Proceed)
             else if pd_succeeded decision
             then act_bind (write_pre_update_protection_status flt i (pd_protection_status decision)
                 (pd_protection_summary decision)) (\<lambda>_. act_return Proceed)
             else act_bind (fail_before_agent_dispatch flt now i (pd_protection_status decision)
                 (pd_protection_summary decision)) (\<lambda>_. act_return ProtectionFailed)))"

text \<open>The hook plugin gets its context and answers nothing; it cannot fail.\<close>

definition prepare_pre_update_hook :: "dispatch_ctx \<Rightarrow> validated_target \<Rightarrow> uuid \<Rightarrow> ('z, unit) fleet_act" where
  "prepare_pre_update_hook ctx target i t = (Ok (),
     if dc_hook ctx
     then t\<lparr>fl_hook_calls := fl_hook_calls t @
       [(si_tenant_id (vt_item target), ho_id (vt_host target), si_id (vt_item target), i)]\<rparr>
     else t)"

section \<open>Batches\<close>

record batch_completion =
  bc_batch_id :: uuid
  bc_tenant_id :: uuid
  bc_status :: batch_status
  bc_total_count :: "32 word"
  bc_completed_count :: int
  bc_failed_count :: int

definition count_in_batch :: "uuid \<Rightarrow> update_status list \<Rightarrow> update_row list \<Rightarrow> nat" where
  "count_in_batch batch statuses rows = length (filter (\<lambda>r. uh_batch_id r = Some batch \<and> uh_status r \<in> set statuses) rows)"

definition update_batch :: "update_faults \<Rightarrow> uuid \<Rightarrow> (batch_row \<Rightarrow> batch_row) \<Rightarrow> ('z, unit) upd" where
  "update_batch flt i f = act_bind (sql flt (UpdateBatch i)) (\<lambda>_ t.
     (Ok (), t\<lparr>ut_batches := set_where (\<lambda>b. ub_id b = i) f (ut_batches t)\<rparr>))"

definition maybe_complete_batch ::
  "update_faults \<Rightarrow> instant \<Rightarrow> uuid \<Rightarrow> uuid \<Rightarrow> ('z, batch_completion option) upd" where
  "maybe_complete_batch flt now batch_id tenant_id =
     transaction
      (act_bind (sql flt (BeginTx batch_id)) (\<lambda>_.
       act_bind (sql flt (SelectRows batch_id)) (\<lambda>_.
       act_bind (act_read (\<lambda>t. count_in_batch batch_id [StQueued, StPending, StInProgress, StAwaitingRestart] (ut_rows t))) (\<lambda>pending.
       if 0 < pending then act_return None
       else
       act_bind (act_read (\<lambda>t. count_in_batch batch_id [StFailed] (ut_rows t))) (\<lambda>failed.
       act_bind (act_read (\<lambda>t. count_in_batch batch_id [StCompleted] (ut_rows t))) (\<lambda>completed.
       let new_status = (if 0 < failed then BaPartiallyCompleted else BaCompleted) in
       act_bind (sql flt (SelectBatch batch_id)) (\<lambda>_.
       act_bind (act_read (\<lambda>t. find (\<lambda>b. ub_id b = batch_id) (ut_batches t))) (\<lambda>found. case found of
         None \<Rightarrow> act_return None
       | Some batch \<Rightarrow>
           if ub_status batch = BaCompleted \<or> ub_status batch = BaPartiallyCompleted then act_return None
           else
           act_bind (update_batch flt batch_id (\<lambda>b. b\<lparr>ub_status := new_status, ub_completed_at := Some now\<rparr>)) (\<lambda>_.
           act_bind (sql flt (CommitTx batch_id)) (\<lambda>_.
           act_return (Some \<lparr>bc_batch_id = batch_id, bc_tenant_id = tenant_id, bc_status = new_status,
             bc_total_count = ub_total_count batch, bc_completed_count = int completed,
             bc_failed_count = int failed\<rparr>)))))))))))"

definition complete_batch_of :: "update_faults \<Rightarrow> instant \<Rightarrow> update_row \<Rightarrow> ('z, unit) upd" where
  "complete_batch_of flt now r = (case uh_batch_id r of
       Some batch_id \<Rightarrow> act_bind (maybe_complete_batch flt now batch_id (uh_tenant_id r)) (\<lambda>_. act_return ())
     | None \<Rightarrow> act_return ())"

section \<open>The queue of a host\<close>

text \<open>One turn of the loop of \<open>dispatch_next_queued_for_host\<close>; the result says whether the function
  returns. \<open>others\<close> is what other tasks and controllers do to the tables between the read and the
  promotion, \<open>report\<close> prints an error.\<close>

definition act_update :: "('s \<Rightarrow> 's) \<Rightarrow> ('s, 'e, unit) act" where "act_update f s = (Ok (), f s)"

definition dispatch_promoted ::
  "update_faults \<Rightarrow> instant \<Rightarrow> dispatch_ctx \<Rightarrow> (trigger_update_error \<Rightarrow> string) \<Rightarrow> uuid \<Rightarrow> update_row \<Rightarrow> ('z, bool) fleet_act" where
  "dispatch_promoted flt now ctx report tenant r =
     act_try (load_target_for_dispatch flt tenant (uh_host_id r) (uh_software_item_id r)) (\<lambda>loaded. case loaded of
       Inl e \<Rightarrow>
         act_bind (fail_dispatch flt now (report e) (uh_id r)) (\<lambda>_.
         act_bind (complete_batch_of flt now r) (\<lambda>_. act_return False))
     | Inr target \<Rightarrow>
         act_bind (prepare_pre_update_protection flt now ctx target (uh_id r)) (\<lambda>outcome.
         if outcome = ProtectionFailed
         then act_bind (complete_batch_of flt now r) (\<lambda>_. act_return False)
         else
         act_bind (prepare_pre_update_hook ctx target (uh_id r)) (\<lambda>_.
         act_try (dispatch_update_to_agent ctx target
           \<lparr>dp_update_history_id = uh_id r,
            dp_to_version = (case uh_to_version r of Some v \<Rightarrow> v | None \<Rightarrow> []),
            dp_release_info = None, dp_interactive = uh_interactive r\<rparr>) (\<lambda>dispatched. case dispatched of
           Inr _ \<Rightarrow> act_return True
         | Inl e \<Rightarrow>
             act_bind (fail_dispatch flt now (report e) (uh_id r)) (\<lambda>_.
             act_bind (complete_batch_of flt now r) (\<lambda>_. act_return False))))))"

definition dispatch_turn ::
  "update_faults \<Rightarrow> instant \<Rightarrow> ('z fleet_scheme \<Rightarrow> 'z fleet_scheme) \<Rightarrow> dispatch_ctx \<Rightarrow> (trigger_update_error \<Rightarrow> string) \<Rightarrow>
   uuid \<Rightarrow> uuid \<Rightarrow> ('z, bool) fleet_act" where
  "dispatch_turn flt now others ctx report host tenant =
     act_bind (sql flt (SelectRows host)) (\<lambda>_.
     act_bind (act_read (\<lambda>t. next_queued host (ut_rows t))) (\<lambda>next_record. case next_record of
       None \<Rightarrow> act_return True
     | Some r \<Rightarrow>
         act_bind (act_update others) (\<lambda>_.
         act_bind (promote_queued flt (uh_id r)) (\<lambda>n.
         if n = 0 then act_return False else dispatch_promoted flt now ctx report tenant r))))"

definition queued_count :: "uuid \<Rightarrow> 'z update_tables_scheme \<Rightarrow> nat" where
  "queued_count host t = length (filter (\<lambda>r. uh_host_id r = host \<and> uh_status r = StQueued) (ut_rows t))"

subsection \<open>Actions that respect an order on states\<close>

text \<open>A relation that a sequence of actions keeps when each of them does.\<close>

locale state_order =
  fixes R :: "'s \<Rightarrow> 's \<Rightarrow> bool"
  assumes R_refl: "R s s" and R_trans: "R s s' \<Longrightarrow> R s' s'' \<Longrightarrow> R s s''"
begin

definition keeps :: "('s, 'e, 'a) act \<Rightarrow> bool" where
  "keeps m \<longleftrightarrow> (\<forall>s. R s (snd (m s)))"

lemma keepsD: "keeps m \<Longrightarrow> m s = (r, s') \<Longrightarrow> R s s'"
  unfolding keeps_def by (metis snd_conv)

lemma keeps_pure: "keeps (act_return a)" "keeps (act_fail e)" "keeps (act_read f)" "keeps (Pair x)"
  by (simp_all add: keeps_def R_refl)

lemma keeps_bind: "keeps m \<Longrightarrow> (\<And>a. keeps (k a)) \<Longrightarrow> keeps (act_bind m k)"
  unfolding keeps_def act_bind_def by (auto split: prod.split sum.split) (metis R_trans snd_conv)+

lemma keeps_try: "keeps m \<Longrightarrow> (\<And>x. keeps (k x)) \<Longrightarrow> keeps (act_try m k)"
  unfolding keeps_def act_try_def by (auto split: prod.split) (metis R_trans snd_conv)

lemma keeps_transaction: "keeps m \<Longrightarrow> keeps (transaction m)"
  unfolding keeps_def transaction_def by (auto split: prod.split sum.split intro: R_refl) (metis snd_conv)

lemma keeps_if: "keeps m \<Longrightarrow> keeps n \<Longrightarrow> keeps (if b then m else n)"
  by simp

lemma keeps_still: "(\<And>s. snd (m s) = s) \<Longrightarrow> keeps m"
  by (simp add: keeps_def R_refl)

lemma keeps_cases:
  "(\<And>e. keeps (f e)) \<Longrightarrow> (\<And>a. keeps (g a)) \<Longrightarrow> keeps (case x of Inl e \<Rightarrow> f e | Inr a \<Rightarrow> g a)"
  "keeps m \<Longrightarrow> (\<And>a. keeps (k a)) \<Longrightarrow> keeps (case y of None \<Rightarrow> m | Some a \<Rightarrow> k a)"
  "(\<And>a b. keeps (h a b)) \<Longrightarrow> keeps (case z of (a, b) \<Rightarrow> h a b)"
  by (simp_all split: sum.split option.split prod.split)

lemma keeps_each: "(\<And>a. keeps (h a)) \<Longrightarrow> keeps (act_each h as)"
  by (induction as) (simp_all add: keeps_pure keeps_bind)

lemmas keeps_rules = keeps_pure keeps_bind keeps_try keeps_transaction keeps_if keeps_cases keeps_each

end

interpretation still: state_order "(=)"
  by unfold_locales auto

interpretation rows: state_order "\<lambda>(t :: 'z update_tables_scheme) t'. ut_rows t' = ut_rows t"
  by unfold_locales auto

interpretation calm: state_order "\<lambda>(t :: 'z update_tables_scheme) t'. queued_count host t' \<le> queued_count host t" for host
  by unfold_locales auto

lemma queued_filter_map:
  "(\<And>r. P (g r) \<Longrightarrow> P r) \<Longrightarrow> length (filter P (map g rows)) \<le> length (filter P rows)"
  by (induction rows) auto

lemma queued_filter_map_less:
  "(\<And>r. P (g r) \<Longrightarrow> P r) \<Longrightarrow> q \<in> set rows \<Longrightarrow> P q \<Longrightarrow> \<not> P (g q) \<Longrightarrow>
     length (filter P (map g rows)) < length (filter P rows)"
proof (induction rows)
  case (Cons x rows)
  then show ?case using queued_filter_map[of P g rows] by (cases "x = q") (auto simp: less_Suc_eq_le)
qed simp

definition unqueues :: "(update_row \<Rightarrow> bool) \<Rightarrow> (update_row \<Rightarrow> update_row) \<Rightarrow> bool" where
  "unqueues p f \<longleftrightarrow> (\<forall>r. p r \<longrightarrow> uh_host_id (f r) = uh_host_id r \<and> (uh_status (f r) = StQueued \<longrightarrow> uh_status r = StQueued))"

lemma calm_update: "unqueues p f \<Longrightarrow> calm.keeps host (update_history_many flt i p f)"
  unfolding calm.keeps_def
proof (intro allI)
  fix t :: "'a update_tables_scheme"
  assume u: "unqueues p f"
  obtain x t' where e: "update_history_many flt i p f t = (x, t')" by fastforce
  let ?P = "\<lambda>r. uh_host_id r = host \<and> uh_status r = StQueued"
  have "length (filter ?P (map (\<lambda>r. if p r then f r else r) (ut_rows t))) \<le> length (filter ?P (ut_rows t))"
    by (rule queued_filter_map) (use u in \<open>auto simp: unqueues_def split: if_splits\<close>)
  then have "queued_count host (t\<lparr>ut_rows := set_where p f (ut_rows t)\<rparr>) \<le> queued_count host t"
    by (simp add: queued_count_def set_where_def)
  then show "queued_count host (snd (update_history_many flt i p f t)) \<le> queued_count host t"
    using update_history_many_eval[OF e] e by auto
qed

lemma stillD: "still.keeps m \<Longrightarrow> snd (m s) = s"
  unfolding still.keeps_def by metis

lemma still_calm: "still.keeps m \<Longrightarrow> calm.keeps host m"
  by (rule calm.keeps_still) (rule stillD)

lemma still_sql: "still.keeps (sql flt st)"
  by (auto simp: sql_def still.keeps_pure split: option.split)

lemma rows_calm: "rows.keeps m \<Longrightarrow> calm.keeps host m"
  unfolding calm.keeps_def rows.keeps_def by (simp add: queued_count_def)

lemma still_select: "still.keeps (select_one flt st tbl p)" "still.keeps (select_all flt st tbl p)"
  unfolding select_one_def select_all_def by (intro still.keeps_rules still_sql)+

lemma still_or_fail: "still.keeps m \<Longrightarrow> still.keeps (or_fail e m)"
  unfolding or_fail_def by (intro still.keeps_rules) (auto split: option.split intro: still.keeps_rules)

lemma still_role_plugin: "still.keeps (load_role_plugin flt host item role)"
  unfolding load_role_plugin_def
  by (auto split: option.split intro!: still.keeps_rules still_select still_or_fail)

lemma still_build_all: "still.keeps (build_all flt xs)"
  by (induction xs) (auto split: option.split intro!: still.keeps_rules still_select)

lemma still_load_target: "still.keeps (load_target_for_dispatch flt tenant host item)"
  unfolding load_target_for_dispatch_def find_active_item_def load_role_plugins_ordered_def
  by (intro still.keeps_rules still_select still_or_fail still_role_plugin still_sql still_build_all)

lemma rows_update_batch: "rows.keeps (update_batch flt i f)"
  unfolding rows.keeps_def by (auto simp: update_batch_def act_bind_def sql_def split: option.split)

lemma rows_sql: "rows.keeps (sql flt st)"
  by (rule rows.keeps_still) (rule stillD[OF still_sql])

lemma rows_maybe_complete: "rows.keeps (maybe_complete_batch flt now batch tenant)"
  unfolding maybe_complete_batch_def Let_def
  by (intro rows.keeps_rules rows_sql)
    (auto split: option.split intro!: rows.keeps_rules rows_sql rows_update_batch)

lemma rows_complete_batch: "rows.keeps (complete_batch_of flt now r)"
  unfolding complete_batch_of_def by (auto split: option.split intro!: rows.keeps_rules rows_maybe_complete)

lemma calm_fail_before: "calm.keeps host (fail_before_agent_dispatch flt now i ps sm)"
  unfolding fail_before_agent_dispatch_def Let_def
  by (intro calm.keeps_rules calm_update) (simp add: unqueues_def)

lemma calm_protection_status: "calm.keeps host (write_pre_update_protection_status flt i ps sm)"
  unfolding write_pre_update_protection_status_def
  by (intro calm.keeps_rules calm_update) (simp add: unqueues_def)

lemma calm_protection: "calm.keeps host (prepare_pre_update_protection flt now ctx target i)"
  unfolding prepare_pre_update_protection_def
  by (auto split: option.split sum.split intro!: calm.keeps_rules calm_fail_before calm_protection_status)

lemma calm_fail_dispatch: "calm.keeps host (fail_dispatch flt now rep i)"
  unfolding fail_dispatch_def Let_def
  by (auto intro!: calm.keeps_rules calm_update simp: unqueues_def)

lemma calm_dispatch: "calm.keeps host (dispatch_update_to_agent ctx target params)"
  unfolding calm.keeps_def by (simp add: dispatch_update_to_agent_def Let_def queued_count_def)

lemma calm_hook: "calm.keeps host (prepare_pre_update_hook ctx target i)"
  unfolding calm.keeps_def by (simp add: prepare_pre_update_hook_def queued_count_def)

lemma calm_promoted: "calm.keeps host (dispatch_promoted flt now ctx report tenant r)"
  unfolding dispatch_promoted_def
  by (intro calm.keeps_rules still_calm[OF still_load_target])
    (auto split: sum.split intro!: calm.keeps_rules calm_fail_dispatch calm_protection calm_dispatch calm_hook
      rows_calm[OF rows_complete_batch])

text \<open>Other tasks that write rows but insert none, and put no row into the queue.\<close>

definition writes_only :: "('z fleet_scheme \<Rightarrow> 'z fleet_scheme) \<Rightarrow> bool" where
  "writes_only others \<longleftrightarrow> (\<forall>t. \<exists>g. ut_rows (others t) = map g (ut_rows t) \<and> (\<forall>r. uh_id (g r) = uh_id r \<and>
     uh_host_id (g r) = uh_host_id r \<and> (uh_status (g r) = StQueued \<longrightarrow> uh_status r = StQueued)))"

lemma next_queued_SomeD:
  "next_queued host rows = Some r \<Longrightarrow> r \<in> set rows \<and> uh_host_id r = host \<and> uh_status r = StQueued"
proof -
  assume n: "next_queued host rows = Some r"
  let ?q = "filter (\<lambda>r. uh_host_id r = host \<and> uh_status r = StQueued) rows"
  obtain rest where "sort_key uh_id ?q = r # rest" using n by (auto simp: next_queued_def split: list.splits)
  then have "r \<in> set (sort_key uh_id ?q)" by (metis list.set_intros(1))
  then show ?thesis by simp
qed

definition promoted_state :: "uuid \<Rightarrow> 'z fleet_scheme \<Rightarrow> 'z fleet_scheme" where
  "promoted_state i t = t\<lparr>ut_rows := set_where (\<lambda>r. uh_id r = i \<and> uh_status r = StQueued) (\<lambda>r. r\<lparr>uh_status := StPending\<rparr>) (ut_rows t)\<rparr>"

lemma promote_Ok: "promote_queued flt i t = (Ok n, t') \<Longrightarrow> t' = promoted_state i t"
  by (simp add: promote_queued_def promoted_state_def act_simps)

text \<open>An attempt to promote a row takes it out of the queue, or finds that another task has.\<close>

lemma promotion_decreases:
  assumes "writes_only others" "next_queued host (ut_rows t) = Some r"
  shows "queued_count host (promoted_state (uh_id r) (others t)) < queued_count host t"
proof -
  note rq = next_queued_SomeD[OF assms(2)]
  let ?h = "\<lambda>q. if uh_id q = uh_id r \<and> uh_status q = StQueued then q\<lparr>uh_status := StPending\<rparr> else q"
  obtain g where g: "ut_rows (others t) = map g (ut_rows t)" "\<And>q. uh_id (g q) = uh_id q"
    "\<And>q. uh_host_id (g q) = uh_host_id q" "\<And>q. uh_status (g q) = StQueued \<Longrightarrow> uh_status q = StQueued"
    using assms(1) unfolding writes_only_def by blast
  let ?P = "\<lambda>q. uh_host_id q = host \<and> uh_status q = StQueued"
  have "length (filter ?P (map (\<lambda>q. ?h (g q)) (ut_rows t))) < length (filter ?P (ut_rows t))"
    by (rule queued_filter_map_less[where q = r]) (use rq g(2-4) in \<open>auto split: if_splits\<close>)
  then show ?thesis unfolding queued_count_def promoted_state_def set_where_def by (simp add: g(1) comp_def)
qed

lemma turn_decreases:
  assumes "writes_only others" "dispatch_turn flt now others ctx report host tenant t = (Ok False, t')"
  shows "queued_count host t' < queued_count host t"
proof -
  obtain r where r: "next_queued host (ut_rows t) = Some r"
    using assms(2) by (cases "next_queued host (ut_rows t)") (auto simp: dispatch_turn_def act_simps)
  let ?t2 = "promoted_state (uh_id r) (others t)"
  obtain b where b: "(if b then act_return False else dispatch_promoted flt now ctx report tenant r) ?t2 = (Ok False, t')"
    using assms(2) r by (auto simp: dispatch_turn_def act_simps act_update_def promoted_state_def promote_queued_def)
  have "calm.keeps host (if b then act_return False else dispatch_promoted flt now ctx report tenant r)"
    by (intro calm.keeps_rules calm_promoted)
  from calm.keepsD[OF this b] promotion_decreases[OF assms(1) r] show ?thesis by simp
qed

lemma writes_only_id: "writes_only (\<lambda>t. t)"
  unfolding writes_only_def by (intro allI exI[of _ id]) simp

text \<open>The loop, with what happens besides in its first turns. The faults and the clock of each turn are
  its own.\<close>

definition turn_others :: "('s \<Rightarrow> 's) list \<Rightarrow> 's \<Rightarrow> 's" where
  "turn_others others = (case others of [] \<Rightarrow> \<lambda>t. t | f # _ \<Rightarrow> f)"

function dispatch_loop ::
  "(nat \<Rightarrow> update_faults) \<Rightarrow> (nat \<Rightarrow> instant) \<Rightarrow> dispatch_ctx \<Rightarrow> (trigger_update_error \<Rightarrow> string) \<Rightarrow> uuid \<Rightarrow> uuid \<Rightarrow>
   ('z fleet_scheme \<Rightarrow> 'z fleet_scheme) list \<Rightarrow> nat \<Rightarrow> ('z, unit) fleet_act" where
  "dispatch_loop flts nows ctx report host tenant others n t =
     (case dispatch_turn (flts n) (nows n) (turn_others others) ctx report host tenant t of
        (Inl e, t') \<Rightarrow> (Err e, t')
      | (Inr True, t') \<Rightarrow> (Ok (), t')
      | (Inr False, t') \<Rightarrow> dispatch_loop flts nows ctx report host tenant (tl others) (Suc n) t')"
  by pat_completeness auto

termination
proof (relation "measures [\<lambda>(flts, nows, ctx, report, host, tenant, others, n, t). length others,
    \<lambda>(flts, nows, ctx, report, host, tenant, others, n, t). queued_count host t]")
  fix flts :: "nat \<Rightarrow> update_faults" and nows :: "nat \<Rightarrow> instant" and ctx :: dispatch_ctx
    and report :: "trigger_update_error \<Rightarrow> string" and host tenant :: uuid
    and others :: "('a fleet_scheme \<Rightarrow> 'a fleet_scheme) list" and n :: nat and t t' :: "'a fleet_scheme" and x ok
  assume e: "(x, t') = dispatch_turn (flts n) (nows n) (turn_others others) ctx report host tenant t" "x = Ok ok" "ok = False"
  have "queued_count host t' < queued_count host t" if "others = []"
    using turn_decreases[OF writes_only_id, of "flts n" "nows n" ctx report host tenant t t'] e that
    by (simp add: turn_others_def)
  then show "((flts, nows, ctx, report, host, tenant, tl others, Suc n, t'),
      (flts, nows, ctx, report, host, tenant, others, n, t)) \<in> measures
      [\<lambda>(flts, nows, ctx, report, host, tenant, others, n, t). length others,
       \<lambda>(flts, nows, ctx, report, host, tenant, others, n, t). queued_count host t]"
    by (cases others) auto
qed simp

declare dispatch_loop.simps [simp del]

definition dispatch_next_queued_for_host ::
  "(nat \<Rightarrow> update_faults) \<Rightarrow> (nat \<Rightarrow> instant) \<Rightarrow> ('z fleet_scheme \<Rightarrow> 'z fleet_scheme) list \<Rightarrow> dispatch_ctx \<Rightarrow>
   (trigger_update_error \<Rightarrow> string) \<Rightarrow> uuid \<Rightarrow> uuid \<Rightarrow> ('z, unit) fleet_act" where
  "dispatch_next_queued_for_host flts nows others ctx report host tenant =
     dispatch_loop flts nows ctx report host tenant others 0"

definition dispatch_next_in_batch ::
  "(nat \<Rightarrow> update_faults) \<Rightarrow> (nat \<Rightarrow> instant) \<Rightarrow> ('z fleet_scheme \<Rightarrow> 'z fleet_scheme) list \<Rightarrow> dispatch_ctx \<Rightarrow>
   (trigger_update_error \<Rightarrow> string) \<Rightarrow> uuid \<Rightarrow> uuid \<Rightarrow> uuid \<Rightarrow> ('z, batch_completion option) fleet_act" where
  "dispatch_next_in_batch flts nows others ctx report batch_id host tenant =
     act_bind (dispatch_next_queued_for_host flts nows others ctx report host tenant) (\<lambda>_.
     maybe_complete_batch (flts 0) (nows 0) batch_id tenant)"

section \<open>The queue advances\<close>

text \<open>Evaluation when no statement fails.\<close>

abbreviation faultless :: update_faults where "faultless \<equiv> \<lambda>_. None"

lemma sql_faultless [simp]: "sql faultless st t = (Ok (), t)"
  by (simp add: sql_def)

lemma act_bind_pure [simp]:
  "act_bind (sql faultless st) k t = k () t" "act_bind (act_return a) k t = k a t" "act_bind (act_read f) k t = k (f t) t"
  "act_bind (act_update g) k t = k () (g t)"
  by (simp_all add: act_bind_def act_update_def)

lemma maybe_complete_faultless:
  "\<exists>res b. maybe_complete_batch faultless now batch tenant t = (Ok res, t\<lparr>ut_batches := b\<rparr>)"
proof -
  have id: "t = t\<lparr>ut_batches := ut_batches t\<rparr>" by simp
  show ?thesis
    unfolding maybe_complete_batch_def transaction_def Let_def
    by (auto simp: update_batch_def split: option.split intro: id)
qed

lemma complete_batch_faultless: "\<exists>b. complete_batch_of faultless now r t = (Ok (), t\<lparr>ut_batches := b\<rparr>)"
proof (cases "uh_batch_id r")
  case None
  then show ?thesis by (intro exI[of _ "ut_batches t"]) (simp add: complete_batch_of_def)
next
  case (Some batch)
  obtain res b where "maybe_complete_batch faultless now batch (uh_tenant_id r) t = (Ok res, t\<lparr>ut_batches := b\<rparr>)"
    using maybe_complete_faultless by blast
  then show ?thesis using Some by (intro exI[of _ b]) (simp add: complete_batch_of_def)
qed

definition host_free :: "uuid \<Rightarrow> update_row list \<Rightarrow> bool" where
  "host_free host rows \<longleftrightarrow> (\<forall>r \<in> set rows. uh_host_id r = host \<longrightarrow> uh_status r \<notin> set host_blocking)"

definition replace_row :: "update_row \<Rightarrow> update_row \<Rightarrow> update_row list \<Rightarrow> update_row list" where
  "replace_row r r' rows = map (\<lambda>q. if q = r then r' else q) rows"

lemma indexes_ok_promote:
  assumes ok: "indexes_ok rows" and r: "r \<in> set rows" "uh_status r = StQueued" "host_free (uh_host_id r) rows"
  shows "indexes_ok (replace_row r (r\<lparr>uh_status := StPending\<rparr>) rows)"
proof -
  obtain xs ys where rows: "rows = xs @ r # ys" using r(1) split_list by metis
  have "distinct rows" using ok by (simp add: indexes_ok_def distinct_map)
  then have n: "r \<notin> set xs" "r \<notin> set ys" using rows by auto
  have m: "replace_row r (r\<lparr>uh_status := StPending\<rparr>) rows = xs @ r\<lparr>uh_status := StPending\<rparr> # ys"
    unfolding replace_row_def rows using n by (auto intro: map_idI)
  have free: "uh_host_id r \<notin> set (host_active_keys xs)" "uh_host_id r \<notin> set (host_active_keys ys)"
    using r(3) by (auto simp: host_free_def host_active_keys_def rows)
  have h: "host_active_keys (xs @ r\<lparr>uh_status := StPending\<rparr> # ys) = host_active_keys xs @ uh_host_id r # host_active_keys ys"
      "host_active_keys rows = host_active_keys xs @ host_active_keys ys"
    using r(2) by (simp_all add: rows host_active_keys_def host_blocking_def)
  have i: "item_active_keys (xs @ r\<lparr>uh_status := StPending\<rparr> # ys) = item_active_keys rows"
    using r(2) by (simp add: rows item_active_keys_def unfinished_def)
  have "map uh_id (xs @ r\<lparr>uh_status := StPending\<rparr> # ys) = map uh_id rows" by (simp add: rows)
  then show ?thesis
    using ok free unfolding m indexes_ok_def h i by auto
qed

lemma indexes_ok_same_keys:
  assumes "indexes_ok rows"
    and "\<And>r. p r \<Longrightarrow> uh_id (f r) = uh_id r \<and> uh_host_id (f r) = uh_host_id r \<and>
      uh_software_item_id (f r) = uh_software_item_id r \<and>
      (uh_status (f r) \<in> set host_blocking \<longleftrightarrow> uh_status r \<in> set host_blocking) \<and>
      (uh_status (f r) \<in> set unfinished \<longleftrightarrow> uh_status r \<in> set unfinished)"
  shows "indexes_ok (set_where p f rows)"
proof -
  let ?g = "\<lambda>r. if p r then f r else r"
  have m: "map uh_id (set_where p f rows) = map uh_id rows" using assms(2) by (simp add: set_where_def)
  have h: "host_active_keys (set_where p f rows) = host_active_keys rows"
    unfolding host_active_keys_def set_where_def using assms(2) by (induction rows) auto
  have i: "item_active_keys (set_where p f rows) = item_active_keys rows"
    unfolding item_active_keys_def set_where_def using assms(2) by (induction rows) auto
  show ?thesis using assms(1) by (simp add: indexes_ok_def m h i)
qed

lemma by_id_unique:
  assumes "indexes_ok rows" "r \<in> set rows"
  shows "length (filter (\<lambda>q. uh_id q = uh_id r) rows) = 1" "set_where (\<lambda>q. uh_id q = uh_id r) f rows = replace_row r (f r) rows"
  using set_where_unique[where p = "\<lambda>q. uh_id q = uh_id r", OF assms] unfolding replace_row_def by simp_all

lemma update_by_id_faultless:
  assumes "indexes_ok (ut_rows t)" "r \<in> set (ut_rows t)"
    and ix: "indexes_ok (set_where (\<lambda>q. uh_id q = uh_id r) f (ut_rows t))"
  shows "update_history_many faultless i (\<lambda>q. uh_id q = uh_id r) f t = (Ok 1, t\<lparr>ut_rows := replace_row r (f r) (ut_rows t)\<rparr>)"
    "indexes_ok (replace_row r (f r) (ut_rows t))"
  using ix by (simp_all only: update_history_many_Ok_iff by_id_unique[OF assms(1,2)] simp_thms)

lemma host_free_replaced:
  "host_free host rows \<Longrightarrow> uh_status r' \<notin> set host_blocking \<Longrightarrow>
     host_free host (replace_row r1 r' (replace_row r r1 rows))"
  by (auto simp: host_free_def replace_row_def)

lemma replace_row_in: "r \<in> set rows \<Longrightarrow> r' \<in> set (replace_row r r' rows)"
  by (auto simp: replace_row_def)

lemma promote_faultless:
  assumes "indexes_ok (ut_rows t)" "r \<in> set (ut_rows t)" "uh_status r = StQueued" "host_free (uh_host_id r) (ut_rows t)"
  shows "promote_queued faultless (uh_id r) t = (Ok 1, t\<lparr>ut_rows := replace_row r (r\<lparr>uh_status := StPending\<rparr>) (ut_rows t)\<rparr>)"
proof -
  have "length (filter (\<lambda>q. uh_id q = uh_id r \<and> uh_status q = StQueued) (ut_rows t)) = 1 \<and>
      set_where (\<lambda>q. uh_id q = uh_id r \<and> uh_status q = StQueued) (\<lambda>q. q\<lparr>uh_status := StPending\<rparr>) (ut_rows t) =
      replace_row r (r\<lparr>uh_status := StPending\<rparr>) (ut_rows t)"
    unfolding replace_row_def by (rule set_where_unique[OF assms(1,2)]) (use assms(3) in simp_all)
  then show ?thesis
    using indexes_ok_promote[OF assms] by (simp add: promote_queued_def update_history_many_Ok_iff)
qed

lemma fail_dispatch_faultless:
  assumes "indexes_ok (ut_rows t)" "r \<in> set (ut_rows t)"
  shows "\<exists>r'. fail_dispatch faultless now rep (uh_id r) t = (Ok (), t\<lparr>ut_rows := replace_row r r' (ut_rows t)\<rparr>) \<and>
    uh_status r' = StFailed \<and> indexes_ok (replace_row r r' (ut_rows t))"
proof -
  let ?f = "\<lambda>r. r\<lparr>uh_status := StFailed, uh_completed_at := Some now, uh_output := ''dispatch failed: '' @ rep,
    uh_output_bytes := int (length (''dispatch failed: '' @ rep))\<rparr>"
  have "indexes_ok (set_where (\<lambda>q. uh_id q = uh_id r) ?f (ut_rows t))"
    by (rule indexes_ok_terminal[OF assms(1)]) (simp add: unfinished_def)
  note u = update_by_id_faultless[OF assms this]
  show ?thesis using u by (intro exI[of _ "?f r"]) (simp add: fail_dispatch_def Let_def)
qed

lemma fail_before_faultless:
  assumes "indexes_ok (ut_rows t)" "r \<in> set (ut_rows t)"
  shows "\<exists>r'. fail_before_agent_dispatch faultless now (uh_id r) ps sm t = (Ok (), t\<lparr>ut_rows := replace_row r r' (ut_rows t)\<rparr>) \<and>
    uh_id r' = uh_id r \<and> uh_host_id r' = uh_host_id r \<and> uh_status r' = StFailed \<and> indexes_ok (replace_row r r' (ut_rows t))"
proof -
  define f where "f = (\<lambda>r :: update_row. r\<lparr>uh_status := StFailed, uh_completed_at := Some now,
    uh_protection_status := (case ps of Some s \<Rightarrow> Some s | None \<Rightarrow> Some ''failed''),
    uh_protection_summary := Some (case sm of Some s \<Rightarrow> if s \<noteq> [] then s else PRE_UPDATE_PROTECTION_FAILURE_SUMMARY
      | None \<Rightarrow> PRE_UPDATE_PROTECTION_FAILURE_SUMMARY)\<rparr>)"
  have "indexes_ok (set_where (\<lambda>q. uh_id q = uh_id r) f (ut_rows t))"
    by (rule indexes_ok_terminal[OF assms(1)]) (simp add: unfinished_def f_def)
  note u = update_by_id_faultless[OF assms this]
  then have "fail_before_agent_dispatch faultless now (uh_id r) ps sm t = (Ok (), t\<lparr>ut_rows := replace_row r (f r) (ut_rows t)\<rparr>)"
    by (simp add: fail_before_agent_dispatch_def Let_def f_def)
  then show ?thesis using u(2) by (intro exI[of _ "f r"]) (simp add: f_def)
qed

lemma protection_status_faultless:
  assumes "indexes_ok (ut_rows t)" "r \<in> set (ut_rows t)"
  shows "\<exists>r'. write_pre_update_protection_status faultless (uh_id r) ps sm t =
      (Ok (), t\<lparr>ut_rows := replace_row r r' (ut_rows t)\<rparr>) \<and>
    uh_id r' = uh_id r \<and> uh_host_id r' = uh_host_id r \<and> uh_status r' = uh_status r"
proof -
  define f where "f = (\<lambda>r :: update_row. r\<lparr>uh_protection_status := ps, uh_protection_summary := sm\<rparr>)"
  have "indexes_ok (set_where (\<lambda>q. uh_id q = uh_id r) f (ut_rows t))"
    by (rule indexes_ok_same_keys[OF assms(1)]) (simp add: f_def)
  from update_by_id_faultless(1)[OF assms this] have "write_pre_update_protection_status faultless (uh_id r) ps sm t =
      (Ok (), t\<lparr>ut_rows := replace_row r (f r) (ut_rows t)\<rparr>)"
    by (simp add: write_pre_update_protection_status_def f_def)
  then show ?thesis by (intro exI[of _ "f r"]) (simp add: f_def)
qed

text \<open>What protection does to the row it is run for.\<close>

lemma protection_faultless:
  assumes "indexes_ok (ut_rows t)" "r \<in> set (ut_rows t)"
  shows "\<exists>outcome r'. prepare_pre_update_protection faultless now ctx target (uh_id r) t =
      (Ok outcome, t\<lparr>ut_rows := replace_row r r' (ut_rows t)\<rparr>) \<and>
    uh_id r' = uh_id r \<and> uh_host_id r' = uh_host_id r \<and>
    (outcome = ProtectionFailed \<longrightarrow> uh_status r' = StFailed \<and> indexes_ok (replace_row r r' (ut_rows t))) \<and>
    (outcome = Proceed \<longrightarrow> uh_status r' = uh_status r)"
proof -
  have same: "replace_row r r (ut_rows t) = ut_rows t" by (auto simp: replace_row_def intro: map_idI)
  let ?answer = "\<lambda>prepare. prepare (si_tenant_id (vt_item target)) (ho_id (vt_host target)) (si_id (vt_item target)) (uh_id r)"
  consider "dc_protection ctx = None"
    | prepare e where "dc_protection ctx = Some prepare" "?answer prepare = Inl e"
    | prepare d where "dc_protection ctx = Some prepare" "?answer prepare = Inr d" "\<not> pd_attempted d"
    | prepare d where "dc_protection ctx = Some prepare" "?answer prepare = Inr d" "pd_attempted d" "pd_succeeded d"
    | prepare d where "dc_protection ctx = Some prepare" "?answer prepare = Inr d" "pd_attempted d" "\<not> pd_succeeded d"
    by (metis option.exhaust sum.exhaust)
  then show ?thesis
  proof cases
    case 1
    then show ?thesis
      by (intro exI[of _ Proceed] exI[of _ r]) (simp add: prepare_pre_update_protection_def same)
  next
    case 2
    then show ?thesis
      using fail_before_faultless[OF assms, of now None None]
      by (intro exI[of _ ProtectionFailed]) (auto simp: prepare_pre_update_protection_def)
  next
    case 3
    then show ?thesis
      using protection_status_faultless[OF assms, of "Some ''skipped''" "pd_protection_summary d"]
      by (intro exI[of _ Proceed]) (auto simp: prepare_pre_update_protection_def)
  next
    case 4
    then show ?thesis
      using protection_status_faultless[OF assms, of "pd_protection_status d" "pd_protection_summary d"]
      by (intro exI[of _ Proceed]) (auto simp: prepare_pre_update_protection_def)
  next
    case 5
    then show ?thesis
      using fail_before_faultless[OF assms, of now "pd_protection_status d" "pd_protection_summary d"]
      by (intro exI[of _ ProtectionFailed]) (auto simp: prepare_pre_update_protection_def)
  qed
qed

definition queued_params :: "update_row \<Rightarrow> dispatch_params" where
  "queued_params r = \<lparr>dp_update_history_id = uh_id r, dp_to_version = (case uh_to_version r of Some v \<Rightarrow> v | None \<Rightarrow> []),
     dp_release_info = None, dp_interactive = uh_interactive r\<rparr>"

definition sent_message :: "dispatch_ctx \<Rightarrow> validated_target \<Rightarrow> dispatch_params \<Rightarrow> (uuid \<times> execute_payload) list" where
  "sent_message ctx target params =
     (if dc_delivers ctx then [(sv_id (vt_agent target), execute_payload_of ctx target params)] else [])"

lemma dispatch_update_eval:
  "\<exists>c. dispatch_update_to_agent ctx target params t = (Ok c, t\<lparr>fl_sent := fl_sent t @ sent_message ctx target params\<rparr>)"
  by (auto simp: dispatch_update_to_agent_def sent_message_def Let_def)

definition hook_call :: "dispatch_ctx \<Rightarrow> validated_target \<Rightarrow> uuid \<Rightarrow> (uuid \<times> uuid \<times> uuid \<times> uuid) list" where
  "hook_call ctx target i = (if dc_hook ctx
     then [(si_tenant_id (vt_item target), ho_id (vt_host target), si_id (vt_item target), i)] else [])"

lemma hook_eval: "prepare_pre_update_hook ctx target i t = (Ok (), t\<lparr>fl_hook_calls := fl_hook_calls t @ hook_call ctx target i\<rparr>)"
  by (simp add: prepare_pre_update_hook_def hook_call_def)

lemma promoted_faultless:
  assumes ok: "indexes_ok (ut_rows t)" and r1: "r1 \<in> set (ut_rows t)" "uh_id r1 = uh_id r"
  shows "(\<exists>r' b. dispatch_promoted faultless now ctx report tenant r t =
      (Ok False, t\<lparr>ut_rows := replace_row r1 r' (ut_rows t), ut_batches := b\<rparr>) \<and>
      uh_status r' = StFailed \<and> indexes_ok (replace_row r1 r' (ut_rows t))) \<or>
    (\<exists>r' target. load_target_for_dispatch faultless tenant (uh_host_id r) (uh_software_item_id r) t = (Ok target, t) \<and>
      dispatch_promoted faultless now ctx report tenant r t =
      (Ok True, t\<lparr>ut_rows := replace_row r1 r' (ut_rows t), fl_sent := fl_sent t @ sent_message ctx target (queued_params r),
        fl_hook_calls := fl_hook_calls t @ hook_call ctx target (uh_id r)\<rparr>) \<and>
      uh_id r' = uh_id r1 \<and> uh_host_id r' = uh_host_id r1 \<and> uh_status r' = uh_status r1)"
proof -
  obtain x where x: "load_target_for_dispatch faultless tenant (uh_host_id r) (uh_software_item_id r) t = (x, t)"
    using stillD[OF still_load_target] by (metis prod.collapse)
  show ?thesis
  proof (cases x)
    case (Inl e)
    obtain r' where r': "fail_dispatch faultless now (report e) (uh_id r1) t = (Ok (), t\<lparr>ut_rows := replace_row r1 r' (ut_rows t)\<rparr>)"
      "uh_status r' = StFailed" "indexes_ok (replace_row r1 r' (ut_rows t))"
      using fail_dispatch_faultless[OF ok r1(1)] by blast
    obtain b where "complete_batch_of faultless now r (t\<lparr>ut_rows := replace_row r1 r' (ut_rows t)\<rparr>) =
        (Ok (), t\<lparr>ut_rows := replace_row r1 r' (ut_rows t), ut_batches := b\<rparr>)"
      using complete_batch_faultless[of now r "t\<lparr>ut_rows := replace_row r1 r' (ut_rows t)\<rparr>"] by auto
    then have "dispatch_promoted faultless now ctx report tenant r t =
        (Ok False, t\<lparr>ut_rows := replace_row r1 r' (ut_rows t), ut_batches := b\<rparr>)"
      using r'(1) x Inl by (simp add: dispatch_promoted_def act_try_def r1(2))
    then show ?thesis using r'(2,3) by (intro disjI1 exI conjI)
  next
    case (Inr target)
    obtain outcome r' where pr: "prepare_pre_update_protection faultless now ctx target (uh_id r1) t =
        (Ok outcome, t\<lparr>ut_rows := replace_row r1 r' (ut_rows t)\<rparr>)"
      "outcome = ProtectionFailed \<longrightarrow> uh_status r' = StFailed \<and> indexes_ok (replace_row r1 r' (ut_rows t))"
      "outcome = Proceed \<longrightarrow> uh_status r' = uh_status r1" "uh_id r' = uh_id r1" "uh_host_id r' = uh_host_id r1"
      using protection_faultless[OF ok r1(1)] by blast
    let ?t1 = "t\<lparr>ut_rows := replace_row r1 r' (ut_rows t)\<rparr>"
    show ?thesis
    proof (cases outcome)
      case ProtectionFailed
      obtain b where b: "complete_batch_of faultless now r ?t1 = (Ok (), ?t1\<lparr>ut_batches := b\<rparr>)"
        using complete_batch_faultless by blast
      have "dispatch_promoted faultless now ctx report tenant r t =
          (Ok False, t\<lparr>ut_rows := replace_row r1 r' (ut_rows t), ut_batches := b\<rparr>)"
        using b pr(1) x Inr ProtectionFailed by (simp add: dispatch_promoted_def act_try_def r1(2))
      moreover have "uh_status r' = StFailed" "indexes_ok (replace_row r1 r' (ut_rows t))"
        using pr(2) ProtectionFailed by simp_all
      ultimately show ?thesis by (intro disjI1 exI conjI)
    next
      case Proceed
      let ?t2 = "?t1\<lparr>fl_hook_calls := fl_hook_calls t @ hook_call ctx target (uh_id r)\<rparr>"
      obtain c where c: "dispatch_update_to_agent ctx target (queued_params r) ?t2 =
          (Ok c, ?t2\<lparr>fl_sent := fl_sent ?t2 @ sent_message ctx target (queued_params r)\<rparr>)"
        using dispatch_update_eval by blast
      have "dispatch_promoted faultless now ctx report tenant r t =
          (Ok True, t\<lparr>ut_rows := replace_row r1 r' (ut_rows t), fl_sent := fl_sent t @ sent_message ctx target (queued_params r),
            fl_hook_calls := fl_hook_calls t @ hook_call ctx target (uh_id r)\<rparr>)"
        using c pr(1) x Inr Proceed
        by (simp add: dispatch_promoted_def act_try_def r1(2) queued_params_def[symmetric] hook_eval)
      moreover have "uh_id r' = uh_id r1" "uh_host_id r' = uh_host_id r1" "uh_status r' = uh_status r1"
        using pr(3-5) Proceed by simp_all
      moreover note x[unfolded Inr]
      ultimately show ?thesis by (intro disjI2 exI conjI)
    qed
  qed
qed

lemma turn_faultless:
  assumes ok: "indexes_ok (ut_rows t)" and free: "host_free host (ut_rows t)"
  obtains (empty) "queued_count host t = 0" "dispatch_turn faultless now (\<lambda>t. t) ctx report host tenant t = (Ok True, t)"
  | (failed) t' where "dispatch_turn faultless now (\<lambda>t. t) ctx report host tenant t = (Ok False, t')"
      "indexes_ok (ut_rows t')" "host_free host (ut_rows t')" "fl_sent t' = fl_sent t"
  | (sent) t' r q target where "dispatch_turn faultless now (\<lambda>t. t) ctx report host tenant t = (Ok True, t')"
      "next_queued host (ut_rows t) = Some q" "r \<in> set (ut_rows t')" "uh_id r = uh_id q" "uh_host_id r = host"
      "uh_status r = StPending" "fl_sent t' = fl_sent t @ sent_message ctx target (queued_params q)"
      "fl_hook_calls t' = fl_hook_calls t @ hook_call ctx target (uh_id q)"
proof (cases "next_queued host (ut_rows t)")
  case None
  then have "sort_key uh_id (filter (\<lambda>r. uh_host_id r = host \<and> uh_status r = StQueued) (ut_rows t)) = []"
    by (simp add: next_queued_def split: list.splits)
  then have "queued_count host t = 0" unfolding queued_count_def by (metis length_sort list.size(3))
  then show ?thesis using empty None by (simp add: dispatch_turn_def)
next
  case (Some q)
  note q = next_queued_SomeD[OF Some]
  let ?r1 = "q\<lparr>uh_status := StPending\<rparr>" and ?rows1 = "replace_row q (q\<lparr>uh_status := StPending\<rparr>) (ut_rows t)"
  let ?t1 = "t\<lparr>ut_rows := ?rows1\<rparr>"
  have fr: "host_free (uh_host_id q) (ut_rows t)" using free q by simp
  have e: "dispatch_turn faultless now (\<lambda>t. t) ctx report host tenant t = dispatch_promoted faultless now ctx report tenant q ?t1"
    using promote_faultless[of t q] ok q fr Some by (simp add: dispatch_turn_def)
  have ok1: "indexes_ok (ut_rows ?t1)" and r1: "?r1 \<in> set (ut_rows ?t1)" "uh_id ?r1 = uh_id q"
    using indexes_ok_promote[OF ok] q fr replace_row_in[of q "ut_rows t"] by simp_all
  from promoted_faultless[OF ok1 r1, of now ctx report tenant]
  show ?thesis
  proof (elim disjE exE conjE)
    fix r' b
    assume d: "dispatch_promoted faultless now ctx report tenant q ?t1 =
        (Ok False, ?t1\<lparr>ut_rows := replace_row ?r1 r' (ut_rows ?t1), ut_batches := b\<rparr>)"
      and r': "uh_status r' = StFailed" "indexes_ok (replace_row ?r1 r' (ut_rows ?t1))"
    have "host_free host (replace_row ?r1 r' ?rows1)"
      by (rule host_free_replaced[OF free]) (simp add: r'(1) host_blocking_def)
    then show ?thesis by (intro failed[OF e[unfolded d]]) (use r'(2) in simp_all)
  next
    fix r' target
    assume d: "dispatch_promoted faultless now ctx report tenant q ?t1 =
        (Ok True, ?t1\<lparr>ut_rows := replace_row ?r1 r' (ut_rows ?t1),
          fl_sent := fl_sent ?t1 @ sent_message ctx target (queued_params q),
          fl_hook_calls := fl_hook_calls ?t1 @ hook_call ctx target (uh_id q)\<rparr>)"
      and r': "uh_id r' = uh_id ?r1" "uh_host_id r' = uh_host_id ?r1" "uh_status r' = uh_status ?r1"
    show ?thesis
      by (rule sent[OF e[unfolded d] Some, of r' target]) (use r' q replace_row_in[OF r1(1), of r'] in simp_all)
  qed
qed

lemma sent_message_single:
  "\<exists>agent payload. sent_message ctx target params = (if dc_delivers ctx then [(agent, payload)] else []) \<and>
     ep_update_history_id payload = dp_update_history_id params"
  by (intro exI[of _ "sv_id (vt_agent target)"] exI[of _ "execute_payload_of ctx target params"])
    (simp add: sent_message_def execute_payload_of_def Let_def)

lemma dispatch_loop_faultless:
  assumes "indexes_ok (ut_rows t)" "host_free host (ut_rows t)"
  shows "\<exists>t'. dispatch_loop (\<lambda>_. faultless) nows ctx report host tenant [] n t = (Ok (), t') \<and>
    (queued_count host t' = 0 \<and> host_free host (ut_rows t') \<and> fl_sent t' = fl_sent t \<or>
     (\<exists>r \<in> set (ut_rows t'). uh_host_id r = host \<and> uh_status r = StPending \<and>
       (\<exists>agent payload. fl_sent t' = fl_sent t @ (if dc_delivers ctx then [(agent, payload)] else []) \<and>
         ep_update_history_id payload = uh_id r)))"
  using assms
proof (induction "queued_count host t" arbitrary: t n rule: less_induct)
  case less
  from less.prems show ?case
  proof (cases rule: turn_faultless[where now = "nows n" and ctx = ctx and report = report and tenant = tenant])
    case empty
    then show ?thesis using less.prems
      by (subst dispatch_loop.simps) (simp add: turn_others_def)
  next
    case (failed t')
    have d: "queued_count host t' < queued_count host t" by (rule turn_decreases[OF writes_only_id failed(1)])
    show ?thesis
      using less.hyps[OF d failed(2,3), of "Suc n"] failed(1,4)
      by (subst dispatch_loop.simps) (simp add: turn_others_def)
  next
    case (sent t' r q target)
    have "dp_update_history_id (queued_params q) = uh_id r" by (simp add: queued_params_def sent(4))
    then have "\<exists>agent payload. fl_sent t' = fl_sent t @ (if dc_delivers ctx then [(agent, payload)] else []) \<and>
        ep_update_history_id payload = uh_id r"
      using sent_message_single[of ctx target "queued_params q"] sent(7) by metis
    moreover have "dispatch_loop (\<lambda>_. faultless) nows ctx report host tenant [] n t = (Ok (), t')"
      using sent(1) by (subst dispatch_loop.simps) (simp add: turn_others_def)
    ultimately show ?thesis using sent(3,5,6) by blast
  qed
qed

section \<open>Triggers\<close>

datatype actor_type = ActUser | ActApiToken | ActScheduler | ActService | ActSystemService | ActMqtt | ActSystem

fun actor_type_as_str :: "actor_type \<Rightarrow> string" where
  "actor_type_as_str ActUser = ''user''"
| "actor_type_as_str ActApiToken = ''api_token''"
| "actor_type_as_str ActScheduler = ''scheduler''"
| "actor_type_as_str ActService = ''service''"
| "actor_type_as_str ActSystemService = ''system_service''"
| "actor_type_as_str ActMqtt = ''uptrakit-mqtt''"
| "actor_type_as_str ActSystem = ''system''"

definition actor_type_from_str :: "string \<Rightarrow> unit + actor_type" where
  "actor_type_from_str s =
     (if s = ''user'' then Ok ActUser
      else if s = ''api_token'' then Ok ActApiToken
      else if s = ''scheduler'' then Ok ActScheduler
      else if s = ''service'' then Ok ActService
      else if s = ''system_service'' then Ok ActSystemService
      else if s = ''uptrakit-mqtt'' then Ok ActMqtt
      else if s = ''system'' then Ok ActSystem
      else Err ())"

definition from_service_app_name :: "string \<Rightarrow> actor_type" where
  "from_service_app_name s = (if s = ''uptrakit-mqtt'' then ActMqtt else ActService)"

datatype batch_type = HostUpdate | ItemRollout | HostPackage

fun batch_type_as_str :: "batch_type \<Rightarrow> string" where
  "batch_type_as_str HostUpdate = ''host_update''"
| "batch_type_as_str ItemRollout = ''item_rollout''"
| "batch_type_as_str HostPackage = ''host_package''"

record pending_work =
  pw_target :: validated_target
  pw_update_history_id :: uuid
  pw_to_version :: string
  pw_release_info :: "release_info option"
  pw_interactive :: bool

record trigger_result =
  tr_update_history_id :: uuid
  tr_initial_status :: update_status
  tr_work :: "pending_work option"

record trigger_params =
  tp_tenant_id :: uuid
  tp_item_id :: uuid
  tp_host_id :: uuid
  tp_to_version :: string
  tp_actor_type :: actor_type
  tp_actor_id :: string
  tp_release_info :: "release_info option"
  tp_interactive :: bool

text \<open>The message of a unique violation is recognised by its text.\<close>

definition is_unique_constraint_violation :: "trigger_update_error \<Rightarrow> bool" where
  "is_unique_constraint_violation e = (case e of
       DatabaseErr UniqueConstraint \<Rightarrow> True
     | DatabaseErr (DbFailure msg) \<Rightarrow> sublist ''UNIQUE constraint failed'' msg \<or>
         sublist ''duplicate key value violates unique constraint'' msg
     | _ \<Rightarrow> False)"

definition resolved_interactive :: "trigger_params \<Rightarrow> validated_target \<Rightarrow> bool" where
  "resolved_interactive params target =
     (let plugin = build_plugin_assignment (fst (vt_execute_update target)) (snd (vt_execute_update target))
      in tp_interactive params \<or> config_prefers_interactive (pl_plugin_type plugin) (pl_config plugin))"

definition build_record :: "trigger_params \<Rightarrow> validated_target \<Rightarrow> bool \<Rightarrow> update_status \<Rightarrow> create_params" where
  "build_record params target interactive status =
     \<lparr>cp_tenant_id = tp_tenant_id params, cp_host_id = tp_host_id params, cp_item_id = tp_item_id params,
      cp_host_software_item_id = Some (hl_id (vt_link target)), cp_to_version = tp_to_version params,
      cp_from_version = hl_installed_version (vt_link target),
      cp_actor_type = actor_type_as_str (tp_actor_type params), cp_actor_id = tp_actor_id params,
      cp_update_category = hl_update_category (vt_link target), cp_batch_id = None, cp_initial_status = status,
      cp_interactive = interactive\<rparr>"

text \<open>A queued row; a second unfinished update of the item is a conflict.\<close>

definition insert_queued ::
  "update_faults \<Rightarrow> uuid \<Rightarrow> instant \<Rightarrow> create_params \<Rightarrow> ('z, uuid) upd" where
  "insert_queued flt new_id now params =
     act_try (create_update_history_record flt new_id now params) (\<lambda>res. case res of
       Inr i \<Rightarrow> act_return i
     | Inl e \<Rightarrow> if is_unique_constraint_violation e then act_fail UpdateAlreadyActive else act_fail e)"

text \<open>\<open>others\<close> is what other tasks do between the checks and the first insert; \<open>ids\<close> are the ids that
  the two inserts would use.\<close>

definition trigger_update_for_host ::
  "update_faults \<Rightarrow> instant \<Rightarrow> uuid \<times> uuid \<Rightarrow> ('z fleet_scheme \<Rightarrow> 'z fleet_scheme) \<Rightarrow> trigger_params \<Rightarrow>
   ('z, trigger_result) fleet_act" where
  "trigger_update_for_host flt now ids others params =
     act_bind (load_target_for_dispatch flt (tp_tenant_id params) (tp_host_id params) (tp_item_id params)) (\<lambda>target.
     let interactive = resolved_interactive params target; record_of = build_record params target interactive in
     act_bind (has_active_update_for_host_software_item flt (tp_host_id params) (tp_item_id params)) (\<lambda>item_active.
     if item_active then act_fail UpdateAlreadyActive
     else
     act_bind (has_active_update_for_host flt (tp_host_id params)) (\<lambda>host_busy.
     act_bind (act_update others) (\<lambda>_.
     if host_busy
     then act_bind (insert_queued flt (fst ids) now (record_of StQueued)) (\<lambda>i.
       act_return \<lparr>tr_update_history_id = i, tr_initial_status = StQueued, tr_work = None\<rparr>)
     else
     act_try (create_update_history_record flt (fst ids) now (record_of StPending)) (\<lambda>inserted. case inserted of
       Inr i \<Rightarrow> act_return \<lparr>tr_update_history_id = i, tr_initial_status = StPending,
         tr_work = Some \<lparr>pw_target = target, pw_update_history_id = i, pw_to_version = tp_to_version params,
           pw_release_info = tp_release_info params, pw_interactive = interactive\<rparr>\<rparr>
     | Inl e \<Rightarrow>
         if is_unique_constraint_violation e
         then act_bind (insert_queued flt (snd ids) now (record_of StQueued)) (\<lambda>i.
           act_return \<lparr>tr_update_history_id = i, tr_initial_status = StQueued, tr_work = None\<rparr>)
         else act_fail e)))))"

datatype trigger_audit_outcome = AuDenied | AuValidationFailed | AuFailed

fun trigger_audit_classification :: "trigger_update_error \<Rightarrow> trigger_audit_outcome \<times> string" where
  "trigger_audit_classification SoftwareItemNotFound = (AuDenied, ''trigger_update.software_item_not_found'')"
| "trigger_audit_classification HostNotFound = (AuDenied, ''trigger_update.host_not_found'')"
| "trigger_audit_classification UpdateAlreadyActive = (AuDenied, ''trigger_update.update_already_active'')"
| "trigger_audit_classification HostNotAssigned = (AuValidationFailed, ''trigger_update.host_not_assigned'')"
| "trigger_audit_classification NoExecuteUpdatePlugin = (AuValidationFailed, ''trigger_update.no_execute_update_plugin'')"
| "trigger_audit_classification NoAgent = (AuValidationFailed, ''trigger_update.no_agent'')"
| "trigger_audit_classification AgentNotApproved = (AuValidationFailed, ''trigger_update.agent_not_approved'')"
| "trigger_audit_classification PluginConfigNotFound = (AuValidationFailed, ''trigger_update.plugin_config_not_found'')"
| "trigger_audit_classification (UnknownPluginType _) = (AuValidationFailed, ''trigger_update.unknown_plugin_type'')"
| "trigger_audit_classification (PreUpdateProtection _) = (AuValidationFailed, ''trigger_update.pre_update_protection_failed'')"
| "trigger_audit_classification (DatabaseErr _) = (AuFailed, ''trigger_update.database_error'')"
| "trigger_audit_classification (PostUpdateFinalization _) = (AuFailed, ''trigger_update.post_update_finalization_failed'')"
| "trigger_audit_classification PostUpdateFinalizationTimeout = (AuFailed, ''trigger_update.post_update_finalization_failed'')"

fun batch_trigger_audit_classification :: "trigger_update_error \<Rightarrow> trigger_audit_outcome \<times> string" where
  "batch_trigger_audit_classification SoftwareItemNotFound = (AuDenied, ''trigger_batch_update.software_item_not_found'')"
| "batch_trigger_audit_classification HostNotFound = (AuDenied, ''trigger_batch_update.host_not_found'')"
| "batch_trigger_audit_classification UpdateAlreadyActive = (AuDenied, ''trigger_batch_update.update_already_active'')"
| "batch_trigger_audit_classification HostNotAssigned = (AuValidationFailed, ''trigger_batch_update.host_not_assigned'')"
| "batch_trigger_audit_classification NoExecuteUpdatePlugin = (AuValidationFailed, ''trigger_batch_update.no_execute_update_plugin'')"
| "batch_trigger_audit_classification NoAgent = (AuValidationFailed, ''trigger_batch_update.no_agent'')"
| "batch_trigger_audit_classification AgentNotApproved = (AuValidationFailed, ''trigger_batch_update.agent_not_approved'')"
| "batch_trigger_audit_classification PluginConfigNotFound = (AuValidationFailed, ''trigger_batch_update.plugin_config_not_found'')"
| "batch_trigger_audit_classification (UnknownPluginType _) = (AuValidationFailed, ''trigger_batch_update.unknown_plugin_type'')"
| "batch_trigger_audit_classification (PreUpdateProtection _) = (AuValidationFailed, ''trigger_batch_update.pre_update_protection_failed'')"
| "batch_trigger_audit_classification (DatabaseErr _) = (AuFailed, ''trigger_batch_update.database_error'')"
| "batch_trigger_audit_classification (PostUpdateFinalization _) = (AuFailed, ''trigger_batch_update.post_update_finalization_failed'')"
| "batch_trigger_audit_classification PostUpdateFinalizationTimeout = (AuFailed, ''trigger_batch_update.post_update_finalization_failed'')"

lemma audit_classes_agree:
  "fst (batch_trigger_audit_classification e) = fst (trigger_audit_classification e)"
  "snd (batch_trigger_audit_classification e) =
     ''trigger_batch_update'' @ drop (length ''trigger_update'') (snd (trigger_audit_classification e))"
  by (cases e; simp)+

section \<open>What a trigger does\<close>

definition item_active :: "uuid \<Rightarrow> uuid \<Rightarrow> update_row list \<Rightarrow> bool" where
  "item_active host item rows \<longleftrightarrow>
     (\<exists>r \<in> set rows. uh_host_id r = host \<and> uh_software_item_id r = item \<and> uh_status r \<in> set unfinished)"

lemma indexes_ok_append:
  assumes "indexes_ok rows" "new_id \<notin> uh_id ` set rows"
    and "\<not> item_active (cp_host_id params) (cp_item_id params) rows"
    and "cp_initial_status params \<in> set host_blocking \<Longrightarrow> host_free (cp_host_id params) rows"
  shows "indexes_ok (rows @ [new_history_row new_id now params])"
proof -
  have "(cp_host_id params, cp_item_id params) \<notin> set (item_active_keys rows)"
    using assms(3) by (auto simp: item_active_keys_def item_active_def)
  moreover have "cp_initial_status params \<in> set host_blocking \<Longrightarrow> cp_host_id params \<notin> set (host_active_keys rows)"
    using assms(4) by (auto simp: host_active_keys_def host_free_def)
  ultimately show ?thesis
    using assms(1,2) by (simp add: indexes_ok_def host_active_keys_def item_active_keys_def new_history_row_def)
qed

lemma active_item_faultless:
  "has_active_update_for_host_software_item faultless host item t = (Ok (item_active host item (ut_rows t)), t)"
  by (auto simp: has_active_update_for_host_software_item_def filter_empty_conv item_active_def)

lemma active_host_faultless:
  "has_active_update_for_host faultless host t = (Ok (\<not> host_free host (ut_rows t)), t)"
  by (auto simp: has_active_update_for_host_def host_free_def filter_empty_conv)

lemma bind_active_faultless:
  "act_bind (has_active_update_for_host_software_item faultless host item) k t =
     k (item_active host item (ut_rows t)) t"
  "act_bind (has_active_update_for_host faultless host) k t = k (\<not> host_free host (ut_rows t)) t"
  by (simp_all add: act_bind_def active_item_faultless active_host_faultless)

lemma create_faultless:
  "indexes_ok (ut_rows t @ [new_history_row i now params]) \<Longrightarrow>
     create_update_history_record faultless i now params t = (Ok i, t\<lparr>ut_rows := ut_rows t @ [new_history_row i now params]\<rparr>)"
  by (simp add: create_update_history_record_def write_rows_def)

definition queued_result :: "uuid \<Rightarrow> trigger_result" where
  "queued_result i = \<lparr>tr_update_history_id = i, tr_initial_status = StQueued, tr_work = None\<rparr>"

definition pending_result :: "trigger_params \<Rightarrow> validated_target \<Rightarrow> uuid \<Rightarrow> trigger_result" where
  "pending_result params target i = \<lparr>tr_update_history_id = i, tr_initial_status = StPending,
     tr_work = Some \<lparr>pw_target = target, pw_update_history_id = i, pw_to_version = tp_to_version params,
       pw_release_info = tp_release_info params, pw_interactive = resolved_interactive params target\<rparr>\<rparr>"

definition triggered_row :: "uuid \<Rightarrow> instant \<Rightarrow> trigger_params \<Rightarrow> validated_target \<Rightarrow> update_status \<Rightarrow> update_row" where
  "triggered_row i now params target st =
     new_history_row i now (build_record params target (resolved_interactive params target) st)"

lemma trigger_unfold:
  assumes "load_target_for_dispatch faultless (tp_tenant_id params) (tp_host_id params) (tp_item_id params) t = (Ok target, t)"
    and "\<not> item_active (tp_host_id params) (tp_item_id params) (ut_rows t)"
  shows "trigger_update_for_host faultless now ids others params t =
    (if \<not> host_free (tp_host_id params) (ut_rows t)
     then act_bind (insert_queued faultless (fst ids) now (build_record params target (resolved_interactive params target) StQueued))
       (\<lambda>i. act_return (queued_result i)) (others t)
     else act_try (create_update_history_record faultless (fst ids) now
         (build_record params target (resolved_interactive params target) StPending)) (\<lambda>inserted. case inserted of
         Inr i \<Rightarrow> act_return (pending_result params target i)
       | Inl e \<Rightarrow> if is_unique_constraint_violation e
           then act_bind (insert_queued faultless (snd ids) now
             (build_record params target (resolved_interactive params target) StQueued)) (\<lambda>i. act_return (queued_result i))
           else act_fail e) (others t))"
  using assms unfolding trigger_update_for_host_def Let_def queued_result_def pending_result_def
  by (simp add: act_bind_def[of "load_target_for_dispatch f a b c" for f a b c] bind_active_faultless)

lemma insert_queued_faultless:
  "indexes_ok (ut_rows t @ [new_history_row i now params]) \<Longrightarrow>
     insert_queued faultless i now params t = (Ok i, t\<lparr>ut_rows := ut_rows t @ [new_history_row i now params]\<rparr>)"
  by (simp add: insert_queued_def act_try_def create_faultless)

lemma build_record_fields [simp]:
  "cp_host_id (build_record params target b st) = tp_host_id params"
  "cp_item_id (build_record params target b st) = tp_item_id params"
  "cp_initial_status (build_record params target b st) = st"
  by (simp_all add: build_record_def)

section \<open>Properties\<close>

definition sample_fleet :: "update_row list \<Rightarrow> batch_row list \<Rightarrow> fleet" where
  "sample_fleet rows batches = \<lparr>ut_rows = rows, ut_batches = batches, ut_lines = [],
     fl_items = [\<lparr>si_id = 6, si_tenant_id = 4, si_name = ''app'', si_deactivated_at = None\<rparr>],
     fl_hosts = [\<lparr>ho_id = 7, ho_tenant_id = 4, ho_machine_id = ''m'', ho_friendly_name = ''h'', ho_deactivated_at = None\<rparr>],
     fl_links = [\<lparr>hl_id = 5, hl_host_id = 7, hl_software_item_id = 6, hl_installed_version = Some ''1.0'',
       hl_installed_version_detected_at = None, hl_latest_version = Some ''2.0'', hl_latest_release_metadata = Some JNull,
       hl_last_updated_at = None, hl_update_category = ''unknown'', hl_deactivated_at = None\<rparr>],
     fl_services = [\<lparr>sv_id = 3, sv_tenant_id = 4, sv_status = SvApproved, sv_last_seen_at = None, sv_updated_at = 0,
       sv_deactivated_at = None\<rparr>],
     fl_service_hosts = [\<lparr>sh_service_id = 3, sh_host_id = 7\<rparr>],
     fl_assignments = [\<lparr>pa_host_id = 7, pa_software_item_id = 6, pa_plugin_config_id = None, pa_plugin_type = ''apt'',
       pa_role = ''execute_update'', pa_ordinal = 0, pa_package_identifier = ''app'', pa_config = None\<rparr>],
     fl_plugin_configs = [], fl_sent = [], fl_hook_calls = []\<rparr>"

definition sample_dispatch_ctx :: dispatch_ctx where
  "sample_dispatch_ctx = \<lparr>dc_connected = (\<lambda>_. True), dc_delivers = True,
     dc_parsers = \<lparr>parse_release = (\<lambda>_. None), parse_require = (\<lambda>_. None)\<rparr>, dc_protection = None, dc_hook = True\<rparr>"

definition queued_row :: "uuid \<Rightarrow> uuid \<Rightarrow> update_row" where
  "queued_row i item = new_history_row i 0 (sample_params 7 item None StQueued)"

lemma sample_row_fields [simp]:
  "uh_id (queued_row i item) = i" "uh_host_id (queued_row i item) = 7" "uh_software_item_id (queued_row i item) = item"
  "uh_status (queued_row i item) = StQueued" "uh_status running_row = StInProgress" "uh_host_id running_row = 7"
  "uh_id running_row = 1" "uh_software_item_id running_row = 1"
  by (simp_all add: queued_row_def new_history_row_def sample_params_def running_row_def)

text \<open>C38. The loop over the queue of a host ends: when from some turn on the other tasks only write rows,
  insert none and put none into the queue, the turns cannot go on for ever, whatever statements fail
  and however often another controller is faster.\<close>

theorem dispatch_loop_terminates:
  assumes "\<And>i. i \<ge> N \<Longrightarrow> writes_only (others i)"
  shows "\<not> (\<exists>s. \<forall>i. dispatch_turn (flts i) (nows i) (others i) ctx report host tenant (s i) = (Ok False, s (Suc i)))"
proof
  assume "\<exists>s. \<forall>i. dispatch_turn (flts i) (nows i) (others i) ctx report host tenant (s i) = (Ok False, s (Suc i))"
  then obtain s where s: "\<And>i. dispatch_turn (flts i) (nows i) (others i) ctx report host tenant (s i) = (Ok False, s (Suc i))"
    by blast
  have "queued_count host (s (N + k)) + k \<le> queued_count host (s N)" for k
  proof (induction k)
    case (Suc k)
    have "queued_count host (s (N + Suc k)) < queued_count host (s (N + k))"
      using turn_decreases[OF assms s[of "N + k"]] by simp
    then show ?case using Suc by simp
  qed simp
  from this[of "Suc (queued_count host (s N))"] show False by simp
qed

theorem dispatch_loop_terminates_witness:
  "\<not> (\<exists>s :: nat \<Rightarrow> fleet. \<forall>i. dispatch_turn faultless 0 (\<lambda>t. t) sample_dispatch_ctx (\<lambda>_. []) 7 4 (s i) = (Ok False, s (Suc i)))"
  by (rule dispatch_loop_terminates[where N = 0 and others = "\<lambda>_ t. t" and flts = "\<lambda>_. faultless" and nows = "\<lambda>_. 0"])
    (rule writes_only_id)

text \<open>C33. The loop over the queue of a host that follows the end of an update of a batch, the end of a
  restart, recovery at boot and a restart timeout. On a free host, when no statement fails and nobody
  interferes, either the queue is empty at the end, or the host has a pending update and exactly one
  message went out, which carries that update to an agent. (The end of an update outside a batch runs
  another loop.)\<close>

theorem queue_advances:
  assumes "indexes_ok (ut_rows t)" "host_free host (ut_rows t)"
  shows "\<exists>t'. dispatch_next_queued_for_host (\<lambda>_. faultless) nows [] ctx report host tenant t = (Ok (), t') \<and>
    (queued_count host t' = 0 \<and> host_free host (ut_rows t') \<and> fl_sent t' = fl_sent t \<or>
     (\<exists>r \<in> set (ut_rows t'). uh_host_id r = host \<and> uh_status r = StPending \<and>
       (\<exists>agent payload. fl_sent t' = fl_sent t @ (if dc_delivers ctx then [(agent, payload)] else []) \<and>
         ep_update_history_id payload = uh_id r)))"
  using dispatch_loop_faultless[OF assms] unfolding dispatch_next_queued_for_host_def .

theorem queue_advances_witness:
  "\<exists>t'. dispatch_next_queued_for_host (\<lambda>_. faultless) (\<lambda>_. 0) [] sample_dispatch_ctx (\<lambda>_. []) 7 4 (sample_fleet [queued_row 2 6] []) = (Ok (), t')"
proof -
  have "indexes_ok (ut_rows (sample_fleet [queued_row 2 6] []))" "host_free 7 (ut_rows (sample_fleet [queued_row 2 6] []))"
    by (simp_all add: sample_fleet_def indexes_ok_def host_active_keys_def item_active_keys_def host_free_def
        host_blocking_def unfinished_def)
  from queue_advances[OF this, of "\<lambda>_. 0" sample_dispatch_ctx "\<lambda>_. []" 4] show ?thesis by blast
qed

text \<open>C36. A trigger: its checks come first and change nothing when they fail; a second unfinished update
  of the item is refused; on a busy host the update is queued; on a free host it is pending and the work
  for the dispatcher is handed out. In both cases one row is added and nothing else changes.\<close>

theorem trigger_outcome:
  assumes "indexes_ok (ut_rows t)" "fst ids \<notin> uh_id ` set (ut_rows t)"
  shows "trigger_update_for_host faultless now ids (\<lambda>t. t) params t =
    (case fst (load_target_for_dispatch faultless (tp_tenant_id params) (tp_host_id params) (tp_item_id params) t) of
       Inl e \<Rightarrow> (Err e, t)
     | Inr target \<Rightarrow>
         if item_active (tp_host_id params) (tp_item_id params) (ut_rows t) then (Err UpdateAlreadyActive, t)
         else if \<not> host_free (tp_host_id params) (ut_rows t)
         then (Ok (queued_result (fst ids)), t\<lparr>ut_rows := ut_rows t @ [triggered_row (fst ids) now params target StQueued]\<rparr>)
         else (Ok (pending_result params target (fst ids)),
               t\<lparr>ut_rows := ut_rows t @ [triggered_row (fst ids) now params target StPending]\<rparr>))"
proof -
  obtain x where x: "load_target_for_dispatch faultless (tp_tenant_id params) (tp_host_id params) (tp_item_id params) t = (x, t)"
    using stillD[OF still_load_target] by (metis prod.collapse)
  show ?thesis
  proof (cases x)
    case (Inl e)
    then show ?thesis using x by (simp add: trigger_update_for_host_def)
  next
    case (Inr target)
    note l = x[unfolded Inr]
    show ?thesis
    proof (cases "item_active (tp_host_id params) (tp_item_id params) (ut_rows t)")
      case True
      then show ?thesis using l
        by (simp add: trigger_update_for_host_def Let_def act_bind_def[of "load_target_for_dispatch f a b c" for f a b c]
            bind_active_faultless)
    next
      case False
      have ix: "indexes_ok (ut_rows t @ [new_history_row (fst ids) now (build_record params target b st)])"
        if "st \<in> set host_blocking \<Longrightarrow> host_free (tp_host_id params) (ut_rows t)" for b st
        by (rule indexes_ok_append[OF assms]) (use False that in simp_all)
      show ?thesis
      proof (cases "host_free (tp_host_id params) (ut_rows t)")
        case True
        show ?thesis
          using l False True create_faultless[OF ix[of StPending]]
          by (simp add: trigger_unfold[OF l False] act_try_def triggered_row_def)
      next
        case busy: False
        show ?thesis
          using l False busy insert_queued_faultless[OF ix[of StQueued]]
          by (simp add: trigger_unfold[OF l False] triggered_row_def host_blocking_def)
      qed
    qed
  qed
qed

definition sample_trigger :: trigger_params where
  "sample_trigger = \<lparr>tp_tenant_id = 4, tp_item_id = 6, tp_host_id = 7, tp_to_version = ''2.0'', tp_actor_type = ActUser,
     tp_actor_id = ''u'', tp_release_info = None, tp_interactive = False\<rparr>"

lemma sample_trigger_fields:
  "tp_tenant_id sample_trigger = 4" "tp_item_id sample_trigger = 6" "tp_host_id sample_trigger = 7"
  by (simp_all add: sample_trigger_def)

definition sample_target :: validated_target where
  "sample_target = (let t = sample_fleet [] [] in
     \<lparr>vt_item = hd (fl_items t), vt_host = hd (fl_hosts t), vt_link = hd (fl_links t), vt_agent = hd (fl_services t),
      vt_execute_update = (hd (fl_assignments t), None), vt_detect_version = None, vt_fetch_releases_config = None,
      vt_pre_update_hooks = [], vt_post_update_hooks = []\<rparr>)"

lemma sample_target_load:
  "load_target_for_dispatch faultless 4 7 6 (sample_fleet rows batches) = (Ok sample_target, sample_fleet rows batches)"
  by (simp add: load_target_for_dispatch_def find_active_item_def select_one_def select_all_def or_fail_def act_try_def
      sample_fleet_def sample_target_def choose_agent_def load_role_plugin_def load_role_plugins_ordered_def)

theorem trigger_outcome_witness:
  "trigger_update_for_host faultless 9 (20, 21) (\<lambda>t. t) sample_trigger (sample_fleet [] []) =
     (Ok (pending_result sample_trigger sample_target 20),
      sample_fleet [triggered_row 20 9 sample_trigger sample_target StPending] [])"
proof -
  have "indexes_ok (ut_rows (sample_fleet [] []))" "fst (20, 21) \<notin> uh_id ` set (ut_rows (sample_fleet [] []))"
    by (simp_all add: sample_fleet_def indexes_ok_def host_active_keys_def item_active_keys_def)
  from trigger_outcome[OF this, of 9 sample_trigger] show ?thesis
    by (simp add: sample_trigger_fields sample_target_load item_active_def host_free_def) (simp add: sample_fleet_def)
qed

text \<open>C37. A trigger can come too late: when the update that made the host busy finishes between the
  check and the insert, the new update is queued on a host that is free, and no work is handed out.\<close>

theorem trigger_on_freed_host_stays_queued:
  assumes "load_target_for_dispatch faultless (tp_tenant_id params) (tp_host_id params) (tp_item_id params) t = (Ok target, t)"
    and "\<not> item_active (tp_host_id params) (tp_item_id params) (ut_rows t)" "\<not> host_free (tp_host_id params) (ut_rows t)"
    and "host_free (tp_host_id params) (ut_rows (others t))"
    and "trigger_update_for_host faultless now ids others params t = (Ok res, t')"
  shows "tr_initial_status res = StQueued \<and> tr_work res = None \<and> host_free (tp_host_id params) (ut_rows t') \<and>
    0 < queued_count (tp_host_id params) t' \<and> fl_sent t' = fl_sent (others t)"
proof -
  let ?row = "new_history_row (fst ids) now (build_record params target (resolved_interactive params target) StQueued)"
  have e: "res = queued_result (fst ids)" "t' = (others t)\<lparr>ut_rows := ut_rows (others t) @ [?row]\<rparr>"
    using assms(5) unfolding trigger_unfold[OF assms(1,2)] if_P[OF assms(3)]
    by (auto simp: act_simps insert_queued_def act_try_def create_update_history_record_def write_rows_def
        split: if_splits prod.splits sum.splits)
  have r: "uh_status ?row = StQueued" "uh_host_id ?row = tp_host_id params" by (simp_all add: new_history_row_def)
  show ?thesis using assms(4) r by (simp add: e queued_result_def host_free_def host_blocking_def queued_count_def)
qed

definition finish_running :: "fleet \<Rightarrow> fleet" where
  "finish_running t = snd (dispatch_next_queued_for_host (\<lambda>_. faultless) (\<lambda>_. 8) [] sample_dispatch_ctx (\<lambda>_. []) 7 4
     (snd (finalize_update_result_if_owned faultless 8 late_result t)))"

definition done_row :: update_row where
  "done_row = running_row\<lparr>uh_status := StFailed, uh_completed_at := Some 8, uh_output := ''late'', uh_output_bytes := 4,
     uh_from_version := None, uh_to_version := None\<rparr>"

lemma finish_running_eval: "finish_running (sample_fleet [running_row] []) = sample_fleet [done_row] []"
proof -
  have "finalize_update_result_if_owned faultless 8 late_result (sample_fleet [running_row] []) =
      (Ok 1, sample_fleet [done_row] [])"
    by (simp add: finalize_update_result_if_owned_def late_result_def final_output_def update_history_many_Ok_iff
        set_where_def owned_defs row_final_status_def)
      (simp add: sample_fleet_def running_row_def new_history_row_def done_row_def indexes_ok_def host_active_keys_def
        item_active_keys_def host_blocking_def unfinished_def)
  moreover have "next_queued 7 [done_row] = None"
    by (simp add: next_queued_def done_row_def)
  ultimately show ?thesis
    by (simp add: finish_running_def dispatch_next_queued_for_host_def dispatch_turn_def sample_fleet_def
        dispatch_loop.simps turn_others_def)
qed

theorem trigger_on_freed_host_stays_queued_witness:
  "\<exists>res t'. trigger_update_for_host faultless 9 (20, 21) finish_running sample_trigger (sample_fleet [running_row] []) = (Ok res, t') \<and>
     tr_initial_status res = StQueued \<and> host_free 7 (ut_rows t')"
proof -
  let ?t = "sample_fleet [running_row] []"
  have r: "ut_rows (sample_fleet rows b) = rows" for rows b by (simp add: sample_fleet_def)
  have l: "load_target_for_dispatch faultless (tp_tenant_id sample_trigger) (tp_host_id sample_trigger) (tp_item_id sample_trigger) ?t =
      (Ok sample_target, ?t)"
    by (simp add: sample_trigger_fields sample_target_load)
  have i: "\<not> item_active (tp_host_id sample_trigger) (tp_item_id sample_trigger) (ut_rows ?t)"
    "\<not> host_free (tp_host_id sample_trigger) (ut_rows ?t)"
    "host_free (tp_host_id sample_trigger) (ut_rows (finish_running ?t))"
    by (simp_all add: sample_trigger_fields item_active_def host_free_def finish_running_eval r host_blocking_def done_row_def)
  have "indexes_ok (ut_rows (finish_running ?t) @ [new_history_row (fst (20, 21)) 9
      (build_record sample_trigger sample_target (resolved_interactive sample_trigger sample_target) StQueued)])"
    by (rule indexes_ok_append)
      (simp_all add: finish_running_eval r done_row_def sample_trigger_fields item_active_def indexes_ok_def
        host_active_keys_def item_active_keys_def host_blocking_def unfinished_def)
  from insert_queued_faultless[OF this] obtain res t' where
    e: "trigger_update_for_host faultless 9 (20, 21) finish_running sample_trigger ?t = (Ok res, t')"
    using i(2) by (simp add: trigger_unfold[OF l i(1)])
  from trigger_on_freed_host_stays_queued[OF l i e] e show ?thesis by (simp add: sample_trigger_fields)
qed

end
