(* ===== verification/Update_Batches.thy ===== *)
theory Update_Batches
  imports Update_Dispatch
begin

text \<open>
  Batch updates (\<open>update_batches\<close> of \<open>crates/ui/web-api-queries/src/queries\<close>): which installations are
  outdated, and the creation of a batch with its rows and first dispatches.
\<close>

section \<open>Batch candidates\<close>

record batch_candidate =
  ca_software_item_id :: uuid
  ca_software_item_name :: string
  ca_host_id :: uuid
  ca_host_name :: string
  ca_installed_version :: string
  ca_latest_version :: string
  ca_update_category :: string

definition in_filter :: "'a list option \<Rightarrow> 'a \<Rightarrow> bool" where
  "in_filter xs x = (case xs of None \<Rightarrow> True | Some ys \<Rightarrow> x \<in> set ys)"

definition empty_filter :: "'a list option \<Rightarrow> bool" where
  "empty_filter xs \<longleftrightarrow> xs = Some []"

definition versioned_link :: "string list option \<Rightarrow> link_row \<Rightarrow> bool" where
  "versioned_link categories l \<longleftrightarrow> hl_installed_version l \<noteq> None \<and> hl_latest_version l \<noteq> None \<and>
     hl_deactivated_at l = None \<and> in_filter categories (hl_update_category l)"

fun item_candidates ::
  "host_row \<Rightarrow> uuid list option \<Rightarrow> item_row list \<Rightarrow> uuid set \<Rightarrow> link_row list \<Rightarrow> batch_candidate list" where
  "item_candidates host excludes items executable [] = []"
| "item_candidates host excludes items executable (l # ls) =
     (case (hl_installed_version l, hl_latest_version l) of
        (Some installed, Some latest) \<Rightarrow>
          if installed = latest then item_candidates host excludes items executable ls
          else if (case excludes of Some ex \<Rightarrow> hl_software_item_id l \<in> set ex | None \<Rightarrow> False)
          then item_candidates host excludes items executable ls
          else (case find (\<lambda>i. si_id i = hl_software_item_id l) items of
              None \<Rightarrow> item_candidates host excludes items executable ls
            | Some item \<Rightarrow>
                if hl_software_item_id l \<notin> executable then item_candidates host excludes items executable ls
                else \<lparr>ca_software_item_id = hl_software_item_id l, ca_software_item_name = si_name item,
                      ca_host_id = ho_id host, ca_host_name = ho_friendly_name host, ca_installed_version = installed,
                      ca_latest_version = latest, ca_update_category = hl_update_category l\<rparr>
                     # item_candidates host excludes items executable ls)
      | _ \<Rightarrow> item_candidates host excludes items executable ls)"

definition find_outdated_items_for_host ::
  "update_faults \<Rightarrow> uuid \<Rightarrow> uuid \<Rightarrow> string list option \<Rightarrow> string list option \<Rightarrow> uuid list option \<Rightarrow>
   ('z, batch_candidate list) fleet_act" where
  "find_outdated_items_for_host flt tenant host categories plugin_types excludes =
     (if empty_filter categories \<or> empty_filter plugin_types then act_return []
      else
      act_bind (or_fail HostNotFound (select_one flt (SelectHost host) fl_hosts
        (\<lambda>h. ho_id h = host \<and> ho_tenant_id h = tenant \<and> ho_deactivated_at h = None))) (\<lambda>host_record.
      act_bind (select_all flt (SelectLinks host) fl_links
        (\<lambda>l. hl_host_id l = host \<and> versioned_link categories l)) (\<lambda>links.
      if links = [] then act_return []
      else
      act_bind (select_all flt (SelectItem host) fl_items (\<lambda>i. si_tenant_id i = tenant \<and>
        si_id i \<in> hl_software_item_id ` set links \<and> si_deactivated_at i = None)) (\<lambda>items.
      act_bind (select_all flt (SelectPlugins host) fl_assignments (\<lambda>a. pa_host_id a = host \<and>
        pa_software_item_id a \<in> hl_software_item_id ` set links \<and> pa_role a = ''execute_update'' \<and>
        in_filter plugin_types (pa_plugin_type a))) (\<lambda>plugins.
      act_return (item_candidates host_record excludes items (pa_software_item_id ` set plugins) links))))))"

fun host_candidates :: "item_row \<Rightarrow> host_row list \<Rightarrow> uuid set \<Rightarrow> link_row list \<Rightarrow> batch_candidate list" where
  "host_candidates item hosts executable [] = []"
| "host_candidates item hosts executable (l # ls) =
     (case (hl_installed_version l, hl_latest_version l) of
        (Some installed, Some latest) \<Rightarrow>
          if installed = latest then host_candidates item hosts executable ls
          else (case find (\<lambda>h. ho_id h = hl_host_id l) hosts of
              None \<Rightarrow> host_candidates item hosts executable ls
            | Some host \<Rightarrow>
                if hl_host_id l \<notin> executable then host_candidates item hosts executable ls
                else \<lparr>ca_software_item_id = si_id item, ca_software_item_name = si_name item,
                      ca_host_id = hl_host_id l, ca_host_name = ho_friendly_name host, ca_installed_version = installed,
                      ca_latest_version = latest, ca_update_category = hl_update_category l\<rparr>
                     # host_candidates item hosts executable ls)
      | _ \<Rightarrow> host_candidates item hosts executable ls)"

definition find_outdated_hosts_for_item ::
  "update_faults \<Rightarrow> uuid \<Rightarrow> uuid \<Rightarrow> uuid list option \<Rightarrow> string list option \<Rightarrow> string list option \<Rightarrow>
   ('z, batch_candidate list) fleet_act" where
  "find_outdated_hosts_for_item flt tenant item_id host_ids categories plugin_types =
     (if empty_filter categories \<or> empty_filter plugin_types then act_return []
      else
      act_bind (or_fail SoftwareItemNotFound (select_one flt (SelectItem item_id) fl_items
        (\<lambda>i. si_id i = item_id \<and> si_tenant_id i = tenant \<and> si_deactivated_at i = None))) (\<lambda>item.
      act_bind (select_all flt (SelectLinks item_id) fl_links
        (\<lambda>l. hl_software_item_id l = item_id \<and> in_filter host_ids (hl_host_id l) \<and> versioned_link categories l)) (\<lambda>links.
      if links = [] then act_return []
      else
      act_bind (select_all flt (SelectHost item_id) fl_hosts (\<lambda>h. ho_id h \<in> hl_host_id ` set links \<and>
        ho_tenant_id h = tenant \<and> ho_deactivated_at h = None)) (\<lambda>hosts.
      act_bind (select_all flt (SelectPlugins item_id) fl_assignments (\<lambda>a. pa_software_item_id a = item_id \<and>
        pa_host_id a \<in> hl_host_id ` set links \<and> pa_role a = ''execute_update'' \<and>
        in_filter plugin_types (pa_plugin_type a))) (\<lambda>plugins.
      act_return (host_candidates item hosts (pa_host_id ` set plugins) links))))))"

section \<open>Creation of a batch\<close>

datatype trigger_update_status = TrPending | TrQueued | TrFailed

fun trigger_status_from_update_history_status :: "update_status \<Rightarrow> trigger_update_status" where
  "trigger_status_from_update_history_status StQueued = TrQueued"
| "trigger_status_from_update_history_status StFailed = TrFailed"
| "trigger_status_from_update_history_status StInterrupted = TrFailed"
| "trigger_status_from_update_history_status StPending = TrPending"
| "trigger_status_from_update_history_status StInProgress = TrPending"
| "trigger_status_from_update_history_status StCompleted = TrPending"
| "trigger_status_from_update_history_status StAwaitingRestart = TrQueued"

record create_batch_params =
  bp_tenant_id :: uuid
  bp_batch_type :: batch_type
  bp_actor_type :: actor_type
  bp_actor_id :: string

record batch_item =
  bi_update_history_id :: uuid
  bi_software_item_id :: uuid
  bi_software_item_name :: string
  bi_host_id :: uuid
  bi_host_name :: string
  bi_to_version :: string
  bi_trigger_status :: trigger_update_status

record skipped_item =
  sk_software_item_id :: uuid
  sk_software_item_name :: string
  sk_host_id :: uuid
  sk_host_name :: string
  sk_reason :: string

record batch_response =
  br_batch_id :: "uuid option"
  br_total_created :: nat
  br_updates :: "batch_item list"
  br_skipped :: "skipped_item list"

definition validate_update_preconditions ::
  "update_faults \<Rightarrow> uuid \<Rightarrow> uuid \<Rightarrow> uuid \<Rightarrow> ('z, validated_target) fleet_act" where
  "validate_update_preconditions flt tenant host item = load_target_for_dispatch flt tenant host item"

fun validate_candidates ::
  "update_faults \<Rightarrow> (trigger_update_error \<Rightarrow> string) \<Rightarrow> uuid \<Rightarrow> batch_candidate list \<Rightarrow>
   ('z, (batch_candidate \<times> validated_target) list \<times> skipped_item list) fleet_act" where
  "validate_candidates flt report tenant [] = act_return ([], [])"
| "validate_candidates flt report tenant (c # cs) =
     act_try (validate_update_preconditions flt tenant (ca_host_id c) (ca_software_item_id c)) (\<lambda>loaded.
     act_bind (validate_candidates flt report tenant cs) (\<lambda>(validated, skipped).
     act_return (case loaded of
         Inr target \<Rightarrow> ((c, target) # validated, skipped)
       | Inl e \<Rightarrow> (validated, \<lparr>sk_software_item_id = ca_software_item_id c,
           sk_software_item_name = ca_software_item_name c, sk_host_id = ca_host_id c,
           sk_host_name = ca_host_name c, sk_reason = report e\<rparr> # skipped))))"

text \<open>A failed query counts as not busy.\<close>

fun busy_hosts :: "update_faults \<Rightarrow> uuid set \<Rightarrow> uuid list \<Rightarrow> ('z, uuid set) fleet_act" where
  "busy_hosts flt busy [] = act_return busy"
| "busy_hosts flt busy (h # hs) =
     (if h \<in> busy then busy_hosts flt busy hs
      else act_try (has_active_update_for_host flt h) (\<lambda>res.
        busy_hosts flt (if res = Ok True then insert h busy else busy) hs))"

definition insert_batch :: "update_faults \<Rightarrow> batch_row \<Rightarrow> ('z, unit) upd" where
  "insert_batch flt b = act_bind (sql flt (InsertBatch (ub_id b))) (\<lambda>_ t.
     if ub_id b \<in> ub_id ` set (ut_batches t) then (Err (DatabaseErr UniqueConstraint), t)
     else (Ok (), t\<lparr>ut_batches := ut_batches t @ [b]\<rparr>))"

definition new_batch :: "uuid \<Rightarrow> instant \<Rightarrow> create_batch_params \<Rightarrow> nat \<Rightarrow> batch_row" where
  "new_batch batch_id now params count =
     \<lparr>ub_id = batch_id, ub_tenant_id = bp_tenant_id params, ub_batch_type = batch_type_as_str (bp_batch_type params),
      ub_status = BaInProgress, ub_total_count = word_of_nat count,
      ub_actor_type = actor_type_as_str (bp_actor_type params), ub_actor_id = bp_actor_id params, ub_output = [],
      ub_output_bytes = 0, ub_created_at = now, ub_completed_at = None\<rparr>"

definition batch_record_params ::
  "create_batch_params \<Rightarrow> uuid \<Rightarrow> batch_candidate \<Rightarrow> validated_target \<Rightarrow> update_status \<Rightarrow> create_params" where
  "batch_record_params params batch_id c target initial_status =
     \<lparr>cp_tenant_id = bp_tenant_id params, cp_host_id = ca_host_id c, cp_item_id = ca_software_item_id c,
      cp_host_software_item_id = Some (hl_id (vt_link target)), cp_to_version = ca_latest_version c,
      cp_from_version = Some (ca_installed_version c), cp_actor_type = actor_type_as_str (bp_actor_type params),
      cp_actor_id = bp_actor_id params, cp_update_category = ca_update_category c, cp_batch_id = Some batch_id,
      cp_initial_status = initial_status, cp_interactive = False\<rparr>"

text \<open>The rows of the batch with the ids they get; the result says which are to be dispatched.\<close>

fun insert_batch_rows ::
  "update_faults \<Rightarrow> instant \<Rightarrow> create_batch_params \<Rightarrow> uuid \<Rightarrow> uuid set \<Rightarrow> uuid set \<Rightarrow>
   ((batch_candidate \<times> validated_target) \<times> uuid) list \<Rightarrow> ('z, (uuid \<times> bool) list) fleet_act" where
  "insert_batch_rows flt now params batch_id busy first [] = act_return []"
| "insert_batch_rows flt now params batch_id busy first (((c, target), new_id) # rest) =
     (let dispatched = (ca_host_id c \<notin> busy \<and> ca_host_id c \<notin> first) in
      act_bind (create_update_history_record flt new_id now
        (batch_record_params params batch_id c target (if dispatched then StPending else StQueued))) (\<lambda>i.
      act_bind (insert_batch_rows flt now params batch_id busy
        (if ca_host_id c \<in> busy then first else insert (ca_host_id c) first) rest) (\<lambda>ids.
      act_return ((i, dispatched) # ids))))"

definition batch_item_of :: "batch_candidate \<Rightarrow> uuid \<Rightarrow> trigger_update_status \<Rightarrow> batch_item" where
  "batch_item_of c i st = \<lparr>bi_update_history_id = i, bi_software_item_id = ca_software_item_id c,
     bi_software_item_name = ca_software_item_name c, bi_host_id = ca_host_id c, bi_host_name = ca_host_name c,
     bi_to_version = ca_latest_version c, bi_trigger_status = st\<rparr>"

definition dispatch_batch_item ::
  "update_faults \<Rightarrow> instant \<Rightarrow> dispatch_ctx \<Rightarrow> (trigger_update_error \<Rightarrow> string) \<Rightarrow> create_batch_params \<Rightarrow> uuid \<Rightarrow>
   batch_candidate \<Rightarrow> validated_target \<Rightarrow> uuid \<Rightarrow> ('z, trigger_update_status) fleet_act" where
  "dispatch_batch_item flt now ctx report params batch_id c target i =
     act_bind (prepare_pre_update_protection flt now ctx target i) (\<lambda>outcome.
     if outcome = ProtectionFailed
     then act_bind (dispatch_next_in_batch (\<lambda>_. flt) (\<lambda>_. now) [] ctx report batch_id (ca_host_id c) (bp_tenant_id params))
       (\<lambda>_. act_return TrFailed)
     else
     act_bind (prepare_pre_update_hook ctx target i) (\<lambda>_.
     act_bind (dispatch_update_to_agent ctx target \<lparr>dp_update_history_id = i,
         dp_to_version = ca_latest_version c, dp_release_info = None, dp_interactive = False\<rparr>)
       (\<lambda>connected. act_return (if connected then TrPending else TrQueued))))"

fun dispatch_batch_items ::
  "update_faults \<Rightarrow> instant \<Rightarrow> dispatch_ctx \<Rightarrow> (trigger_update_error \<Rightarrow> string) \<Rightarrow> create_batch_params \<Rightarrow> uuid \<Rightarrow>
   ((batch_candidate \<times> validated_target) \<times> (uuid \<times> bool)) list \<Rightarrow> ('z, batch_item list) fleet_act" where
  "dispatch_batch_items flt now ctx report params batch_id [] = act_return []"
| "dispatch_batch_items flt now ctx report params batch_id (((c, target), (i, dispatched)) # rest) =
     act_bind (if dispatched then dispatch_batch_item flt now ctx report params batch_id c target i
               else act_return TrQueued) (\<lambda>st.
     act_bind (dispatch_batch_items flt now ctx report params batch_id rest) (\<lambda>items.
     act_return (batch_item_of c i st # items)))"

definition refresh_status :: "update_row list \<Rightarrow> batch_item \<Rightarrow> batch_item" where
  "refresh_status rows item = (case find_row (bi_update_history_id item) rows of
       Some r \<Rightarrow> item\<lparr>bi_trigger_status := trigger_status_from_update_history_status (uh_status r)\<rparr>
     | None \<Rightarrow> item)"

text \<open>\<open>others\<close> is what other tasks do between the check of the hosts and the transaction; the tasks
  beside the loop of \<open>dispatch_next_in_batch\<close> are left out here.\<close>

definition create_batch ::
  "update_faults \<Rightarrow> instant \<Rightarrow> uuid \<Rightarrow> (nat \<Rightarrow> uuid) \<Rightarrow> ('z fleet_scheme \<Rightarrow> 'z fleet_scheme) \<Rightarrow> dispatch_ctx \<Rightarrow>
   (trigger_update_error \<Rightarrow> string) \<Rightarrow> create_batch_params \<Rightarrow> batch_candidate list \<Rightarrow> ('z, batch_response) fleet_act" where
  "create_batch flt now batch_id ids others ctx report params candidates =
     (if candidates = []
      then act_return \<lparr>br_batch_id = None, br_total_created = 0, br_updates = [], br_skipped = []\<rparr>
      else
      act_bind (validate_candidates flt report (bp_tenant_id params) candidates) (\<lambda>(validated, skipped).
      if validated = []
      then act_return \<lparr>br_batch_id = None, br_total_created = 0, br_updates = [], br_skipped = skipped\<rparr>
      else
      act_bind (busy_hosts flt {} (map (ca_host_id \<circ> fst) validated)) (\<lambda>busy.
      act_bind (act_update others) (\<lambda>_.
      act_bind (in_tx flt batch_id
        (act_bind (insert_batch flt
          (new_batch batch_id now params (length validated))) (\<lambda>_.
         insert_batch_rows flt now params batch_id busy {} (zip validated (map ids [0..<length validated]))))) (\<lambda>history_ids.
      act_bind (dispatch_batch_items flt now ctx report params batch_id (zip validated history_ids)) (\<lambda>updates.
      act_bind (sql flt (SelectRows batch_id)) (\<lambda>_.
      act_bind (act_read ut_rows) (\<lambda>rows.
      act_return \<lparr>br_batch_id = Some batch_id, br_total_created = length updates,
        br_updates = map (refresh_status rows) updates, br_skipped = skipped\<rparr>))))))))"

section \<open>What a batch does\<close>

definition candidate_key :: "batch_candidate \<Rightarrow> uuid \<times> uuid" where
  "candidate_key c = (ca_host_id c, ca_software_item_id c)"

definition candidate_valid :: "update_faults \<Rightarrow> uuid \<Rightarrow> 'z fleet_scheme \<Rightarrow> batch_candidate \<Rightarrow> bool" where
  "candidate_valid flt tenant t c \<longleftrightarrow>
     (case fst (load_target_for_dispatch flt tenant (ca_host_id c) (ca_software_item_id c) t) of Inr _ \<Rightarrow> True | Inl _ \<Rightarrow> False)"

lemma validate_candidates_eval:
  "\<exists>v s. validate_candidates flt report tenant cs t = (Ok (v, s), t) \<and>
     map fst v = filter (candidate_valid flt tenant t) cs \<and>
     map (\<lambda>k. (sk_host_id k, sk_software_item_id k)) s = map candidate_key (filter (\<lambda>c. \<not> candidate_valid flt tenant t c) cs)"
proof (induction cs)
  case (Cons c cs)
  obtain x where x: "load_target_for_dispatch flt tenant (ca_host_id c) (ca_software_item_id c) t = (x, t)"
    using stillD[OF still_load_target] by (metis prod.collapse)
  from Cons obtain v s where "validate_candidates flt report tenant cs t = (Ok (v, s), t)"
    "map fst v = filter (candidate_valid flt tenant t) cs"
    "map (\<lambda>k. (sk_host_id k, sk_software_item_id k)) s = map candidate_key (filter (\<lambda>c. \<not> candidate_valid flt tenant t c) cs)"
    by blast
  then show ?case using x
    by (cases x) (simp_all add: act_try_def validate_update_preconditions_def candidate_valid_def[of _ _ _ c] candidate_key_def)
qed simp

lemma still_active_host: "still.keeps (has_active_update_for_host flt host)"
  unfolding has_active_update_for_host_def by (intro still.keeps_rules still_sql)

lemma busy_hosts_eval: "\<exists>b. busy_hosts flt busy hs t = (Ok b, t)"
proof (induction hs arbitrary: busy)
  case (Cons h hs)
  obtain x where "has_active_update_for_host flt h t = (x, t)"
    using stillD[OF still_active_host] by (metis prod.collapse)
  then show ?case using Cons.IH by (simp add: act_try_def)
qed simp

lemma busy_hosts_faultless:
  "busy_hosts faultless busy hs t = (Ok (busy \<union> {h \<in> set hs. \<not> host_free h (ut_rows t)}), t)"
  by (induction hs arbitrary: busy) (auto simp: act_try_def active_host_faultless)

subsection \<open>The rows of a batch\<close>

text \<open>The status of each row, by the hosts that come before it.\<close>

definition staged :: "uuid set \<Rightarrow> uuid set \<Rightarrow> update_row list \<Rightarrow> bool" where
  "staged busy first new \<longleftrightarrow> (\<forall>k < length new. uh_status (new ! k) =
     (if uh_host_id (new ! k) \<in> busy \<union> first \<union> uh_host_id ` set (take k new) then StQueued else StPending))"

lemma staged_Cons:
  assumes "uh_status r = (if uh_host_id r \<in> busy \<union> first then StQueued else StPending)"
    and "staged busy (if uh_host_id r \<in> busy then first else insert (uh_host_id r) first) new"
  shows "staged busy first (r # new)"
  unfolding staged_def
proof (intro allI impI)
  fix k assume "k < length (r # new)"
  then show "uh_status ((r # new) ! k) =
      (if uh_host_id ((r # new) ! k) \<in> busy \<union> first \<union> uh_host_id ` set (take k (r # new)) then StQueued else StPending)"
    using assms by (cases k) (auto simp: staged_def)
qed

lemma batch_record_fields [simp]:
  "cp_host_id (batch_record_params params batch c target st) = ca_host_id c"
  "cp_item_id (batch_record_params params batch c target st) = ca_software_item_id c"
  "cp_batch_id (batch_record_params params batch c target st) = Some batch"
  "cp_initial_status (batch_record_params params batch c target st) = st"
  by (simp_all add: batch_record_params_def)

lemma create_Ok_iff [act_simps]:
  "create_update_history_record flt i now params t = (Ok a, t') \<longleftrightarrow>
     flt (InsertRow i) = None \<and> indexes_ok (ut_rows t @ [new_history_row i now params]) \<and> a = i \<and>
     t' = t\<lparr>ut_rows := ut_rows t @ [new_history_row i now params]\<rparr>"
  by (auto simp: create_update_history_record_def act_simps write_rows_def)

lemma insert_batch_rows_Ok:
  assumes "insert_batch_rows flt now params batch busy first xs t = (Ok ids, t')"
  shows "\<exists>new. t' = t\<lparr>ut_rows := ut_rows t @ new\<rparr> \<and> map uh_id new = map snd xs \<and>
    map (\<lambda>r. (uh_host_id r, uh_software_item_id r)) new = map (candidate_key \<circ> fst \<circ> fst) xs \<and>
    staged busy first new \<and> ids = map (\<lambda>r. (uh_id r, uh_status r = StPending)) new \<and>
    (\<forall>r \<in> set new. uh_batch_id r = Some batch)"
  using assms
proof (induction xs arbitrary: t ids first)
  case (Cons x xs)
  obtain c target i where x: "x = ((c, target), i)" by (metis prod.collapse)
  from Cons.prems obtain r ids' where r: "insert_batch_rows flt now params batch busy
      (if ca_host_id c \<in> busy then first else insert (ca_host_id c) first) xs (t\<lparr>ut_rows := ut_rows t @ [r]\<rparr>) = (Ok ids', t')"
    and f: "uh_id r = i" "uh_host_id r = ca_host_id c" "uh_software_item_id r = ca_software_item_id c" "uh_batch_id r = Some batch"
      "uh_status r = (if ca_host_id c \<in> busy \<union> first then StQueued else StPending)"
      "ids = (i, ca_host_id c \<notin> busy \<and> ca_host_id c \<notin> first) # ids'"
    by (auto simp: x act_simps new_history_row_def Let_def)
  from Cons.IH[OF r] obtain new where new: "t' = t\<lparr>ut_rows := ut_rows t @ [r] @ new\<rparr>" "map uh_id new = map snd xs"
    "map (\<lambda>r. (uh_host_id r, uh_software_item_id r)) new = map (candidate_key \<circ> fst \<circ> fst) xs"
    "staged busy (if ca_host_id c \<in> busy then first else insert (ca_host_id c) first) new"
    "ids' = map (\<lambda>r. (uh_id r, uh_status r = StPending)) new" "\<forall>r \<in> set new. uh_batch_id r = Some batch"
    by auto
  have "staged busy first (r # new)"
    by (rule staged_Cons) (use new(4) f in \<open>simp_all only: f\<close>)
  then show ?case
    using new f by (intro exI[of _ "r # new"]) (simp add: x candidate_key_def)
qed (auto simp: staged_def)

lemma insert_batch_rows_faultless:
  assumes "indexes_ok (ut_rows t)" "distinct (map snd xs)" "set (map snd xs) \<inter> uh_id ` set (ut_rows t) = {}"
    and "distinct (map (candidate_key \<circ> fst \<circ> fst) xs)"
    and "\<And>h i. (h, i) \<in> set (map (candidate_key \<circ> fst \<circ> fst) xs) \<Longrightarrow> \<not> item_active h i (ut_rows t)"
    and "\<And>h. h \<in> set (map (ca_host_id \<circ> fst \<circ> fst) xs) \<Longrightarrow> h \<notin> busy \<union> first \<Longrightarrow> host_free h (ut_rows t)"
  shows "\<exists>ids t'. insert_batch_rows faultless now params batch busy first xs t = (Ok ids, t')"
  using assms
proof (induction xs arbitrary: t first)
  case (Cons x xs)
  obtain c target i where x: "x = ((c, target), i)" by (metis prod.collapse)
  define cp where "cp = batch_record_params params batch c target
    (if ca_host_id c \<notin> busy \<and> ca_host_id c \<notin> first then StPending else StQueued)"
  let ?r = "new_history_row i now cp"
  let ?t = "t\<lparr>ut_rows := ut_rows t @ [?r]\<rparr>"
  let ?first = "if ca_host_id c \<in> busy then first else insert (ca_host_id c) first"
  have f: "uh_id ?r = i" "uh_host_id ?r = ca_host_id c" "uh_software_item_id ?r = ca_software_item_id c"
    "uh_status ?r = (if ca_host_id c \<notin> busy \<and> ca_host_id c \<notin> first then StPending else StQueued)"
    by (simp_all add: new_history_row_def cp_def)
  have ix: "indexes_ok (ut_rows t @ [?r])"
    by (rule indexes_ok_append)
      (use Cons.prems in \<open>auto simp: cp_def x candidate_key_def host_blocking_def split: if_split_asm\<close>)
  have "\<exists>ids t'. insert_batch_rows faultless now params batch busy ?first xs ?t = (Ok ids, t')"
  proof (rule Cons.IH)
    show "\<not> item_active h j (ut_rows ?t)" if "(h, j) \<in> set (map (candidate_key \<circ> fst \<circ> fst) xs)" for h j
    proof -
      have "\<not> item_active h j (ut_rows t)" using Cons.prems(5) that by auto
      moreover have "candidate_key c \<notin> set (map (candidate_key \<circ> fst \<circ> fst) xs)"
        using Cons.prems(4) by (simp add: x)
      then have "(h, j) \<noteq> (ca_host_id c, ca_software_item_id c)"
        using that unfolding candidate_key_def[of c] by metis
      ultimately show ?thesis by (auto simp: item_active_def f)
    qed
    show "host_free h (ut_rows ?t)" if "h \<in> set (map (ca_host_id \<circ> fst \<circ> fst) xs)" "h \<notin> busy \<union> ?first" for h
    proof -
      have "h \<notin> busy \<union> first" "h \<noteq> ca_host_id c" using that(2) by (auto split: if_split_asm)
      moreover from this have "host_free h (ut_rows t)" using Cons.prems(6) that(1) by auto
      ultimately show ?thesis by (auto simp: host_free_def f)
    qed
  qed (use Cons.prems ix f in \<open>auto simp: x\<close>)
  then obtain ids t' where "insert_batch_rows faultless now params batch busy ?first xs ?t = (Ok ids, t')" by blast
  then show ?case using create_faultless[OF ix] by (simp add: x Let_def cp_def[symmetric])
qed simp

lemma item_active_keys_iff: "(h, i) \<in> set (item_active_keys rows) \<longleftrightarrow> item_active h i rows"
  by (auto simp: item_active_keys_def item_active_def image_iff)

text \<open>One candidate whose item already has an unfinished update makes the insertion fail.\<close>

lemma insert_batch_rows_conflict:
  assumes "x \<in> set xs" "item_active (ca_host_id (fst (fst x))) (ca_software_item_id (fst (fst x))) (ut_rows t)"
  shows "\<exists>t'. insert_batch_rows faultless now params batch busy first xs t = (Err (DatabaseErr UniqueConstraint), t')"
  using assms
proof (induction xs arbitrary: t first)
  case (Cons y ys)
  obtain c target i where y: "y = ((c, target), i)" by (metis prod.collapse)
  define cp where "cp = batch_record_params params batch c target
    (if ca_host_id c \<notin> busy \<and> ca_host_id c \<notin> first then StPending else StQueued)"
  let ?rows = "ut_rows t @ [new_history_row i now cp]"
  show ?case
  proof (cases "indexes_ok ?rows")
    case False
    then have "create_update_history_record faultless i now cp t = (Err (DatabaseErr UniqueConstraint), t)"
      by (simp add: create_update_history_record_def write_rows_def)
    then show ?thesis by (simp add: y Let_def cp_def[symmetric])
  next
    case True
    have "x \<noteq> y"
    proof
      assume "x = y"
      then have "(cp_host_id cp, cp_item_id cp) \<in> set (item_active_keys (ut_rows t))"
        using Cons.prems(2) by (simp add: y cp_def item_active_keys_iff)
      then show False
        using True by (simp add: indexes_ok_def item_active_keys_def new_history_row_def cp_def unfinished_def split: if_split_asm)
    qed
    then have "x \<in> set ys" using Cons.prems(1) by simp
    moreover have "item_active (ca_host_id (fst (fst x))) (ca_software_item_id (fst (fst x))) (ut_rows (t\<lparr>ut_rows := ?rows\<rparr>))"
      using Cons.prems(2) by (auto simp: item_active_def)
    ultimately obtain t' where "insert_batch_rows faultless now params batch busy
        (if ca_host_id c \<in> busy then first else insert (ca_host_id c) first) ys (t\<lparr>ut_rows := ?rows\<rparr>) =
        (Err (DatabaseErr UniqueConstraint), t')"
      using Cons.IH by blast
    then show ?thesis using create_faultless[OF True] by (simp add: y Let_def cp_def[symmetric])
  qed
qed simp

subsection \<open>Dispatch and response\<close>

lemma dispatch_batch_items_keys:
  assumes "dispatch_batch_items flt now ctx report params batch xs t = (Ok items, t')"
  shows "map (\<lambda>u. (bi_host_id u, bi_software_item_id u)) items = map (candidate_key \<circ> fst \<circ> fst) xs"
  using assms
proof (induction xs arbitrary: t items)
  case (Cons x xs)
  obtain c target i d where x: "x = ((c, target), (i, d))" by (metis prod.collapse)
  from Cons.prems show ?case
    by (auto simp: x act_bind_Ok_iff act_eval batch_item_of_def candidate_key_def dest!: Cons.IH)
qed simp

text \<open>Without protection the dispatches call the hook, send their messages and write nothing.\<close>

definition dispatched_ids :: "('a \<times> (uuid \<times> bool)) list \<Rightarrow> uuid list" where
  "dispatched_ids xs = map (fst \<circ> snd) (filter (snd \<circ> snd) xs)"

definition handed_out :: "(uuid \<times> execute_payload) list \<Rightarrow> (uuid \<times> uuid \<times> uuid \<times> uuid) list \<Rightarrow>
  'z fleet_scheme \<Rightarrow> 'z fleet_scheme" where
  "handed_out sent calls t = t\<lparr>fl_sent := fl_sent t @ sent, fl_hook_calls := fl_hook_calls t @ calls\<rparr>"

lemma handed_out_append: "handed_out s2 c2 (handed_out s1 c1 t) = handed_out (s1 @ s2) (c1 @ c2) t"
  by (simp add: handed_out_def)

lemma handed_out_fields [simp]:
  "ut_rows (handed_out sent calls t) = ut_rows t" "fl_sent (handed_out sent calls t) = fl_sent t @ sent"
  "fl_hook_calls (handed_out sent calls t) = fl_hook_calls t @ calls"
  by (simp_all add: handed_out_def)

lemma dispatch_batch_items_unprotected:
  fixes t :: "'z fleet_scheme"
  assumes "dc_protection ctx = None"
  shows "\<exists>items sent calls. dispatch_batch_items flt now ctx report params batch xs t = (Ok items, handed_out sent calls t) \<and>
    map bi_update_history_id items = map (fst \<circ> snd) xs \<and>
    map (ep_update_history_id \<circ> snd) sent = (if dc_delivers ctx then dispatched_ids xs else []) \<and>
    map (snd \<circ> snd \<circ> snd) calls = (if dc_hook ctx then dispatched_ids xs else [])"
proof (induction xs arbitrary: t)
  case Nil
  have "t = handed_out [] [] t" by (simp add: handed_out_def)
  then show ?case by (intro exI[of _ "[]"]) (simp add: dispatched_ids_def)
next
  case (Cons x xs)
  obtain c target i d where x: "x = ((c, target), (i, d))" by (metis prod.collapse)
  let ?p = "\<lparr>dp_update_history_id = i, dp_to_version = ca_latest_version c, dp_release_info = None, dp_interactive = False\<rparr>"
  let ?m = "if d then sent_message ctx target ?p else []" and ?h = "if d then hook_call ctx target i else []"
  define one :: "('z, trigger_update_status) fleet_act"
    where "one = (if d then dispatch_batch_item flt now ctx report params batch c target i else act_return TrQueued)"
  obtain st where st: "one t = (Ok st, handed_out ?m ?h t)"
    using dispatch_update_eval[of ctx target ?p "t\<lparr>fl_hook_calls := fl_hook_calls t @ ?h\<rparr>"] assms
    by (cases d) (auto simp: one_def dispatch_batch_item_def prepare_pre_update_protection_def handed_out_def act_bind_def hook_eval)
  from Cons.IH[of "handed_out ?m ?h t"] obtain items sent calls where
    i: "dispatch_batch_items flt now ctx report params batch xs (handed_out ?m ?h t) =
        (Ok items, handed_out (?m @ sent) (?h @ calls) t)"
    "map bi_update_history_id items = map (fst \<circ> snd) xs"
    "map (ep_update_history_id \<circ> snd) sent = (if dc_delivers ctx then dispatched_ids xs else [])"
    "map (snd \<circ> snd \<circ> snd) calls = (if dc_hook ctx then dispatched_ids xs else [])"
    unfolding handed_out_append by blast
  have m: "map (ep_update_history_id \<circ> snd) ?m = (if dc_delivers ctx \<and> d then [i] else [])"
    "map (snd \<circ> snd \<circ> snd) ?h = (if dc_hook ctx \<and> d then [i] else [])"
    by (simp_all add: sent_message_def execute_payload_of_def Let_def hook_call_def)
  have "dispatch_batch_items flt now ctx report params batch (x # xs) t =
      (Ok (batch_item_of c i st # items), handed_out (?m @ sent) (?h @ calls) t)"
    using st i(1) by (simp add: x one_def[symmetric] act_bind_def)
  moreover have "map (ep_update_history_id \<circ> snd) (?m @ sent) = (if dc_delivers ctx then dispatched_ids (x # xs) else [])"
    "map (snd \<circ> snd \<circ> snd) (?h @ calls) = (if dc_hook ctx then dispatched_ids (x # xs) else [])"
    unfolding map_append m i(3,4) by (simp_all add: x dispatched_ids_def)
  moreover have "map bi_update_history_id (batch_item_of c i st # items) = map (fst \<circ> snd) (x # xs)"
    using i(2) by (simp add: x batch_item_of_def)
  ultimately show ?case by blast
qed

lemma refresh_status_key [simp]:
  "bi_host_id (refresh_status rows u) = bi_host_id u" "bi_software_item_id (refresh_status rows u) = bi_software_item_id u"
  "bi_update_history_id (refresh_status rows u) = bi_update_history_id u"
  by (simp_all add: refresh_status_def split: option.splits)

lemma refresh_status_ids: "map (bi_update_history_id \<circ> refresh_status rows) items = map bi_update_history_id items"
  by simp

lemma map_candidates_zip: "length ys = length v \<Longrightarrow> map (f \<circ> fst \<circ> fst) (zip v ys) = map f (map fst v)"
  by (metis map_fst_zip map_map comp_assoc)

lemma zip_snd:
  assumes "length ys = length v"
  shows "map (f \<circ> snd) (zip v ys) = map f ys" "map (f \<circ> snd) (filter (p \<circ> snd) (zip v ys)) = map f (filter p ys)"
proof -
  have z: "map snd (zip v ys) = ys" using assms by simp
  show "map (f \<circ> snd) (zip v ys) = map f ys" by (metis z map_map)
  show "map (f \<circ> snd) (filter (p \<circ> snd) (zip v ys)) = map f (filter p ys)"
    by (metis z filter_map map_map)
qed

lemmas bind_validate = act_bind_def[of "validate_candidates flt report tenant cs" for flt report tenant cs]
  act_bind_def[of "busy_hosts flt busy hs" for flt busy hs]

lemma create_batch_unfold:
  assumes "validate_candidates flt report (bp_tenant_id params) candidates t = (Ok (validated, skipped), t)"
    and "validated \<noteq> []" and "busy_hosts flt {} (map (ca_host_id \<circ> fst) validated) t = (Ok busy, t)"
  shows "create_batch flt now batch_id ids others ctx report params candidates t =
     act_bind (in_tx flt batch_id
        (act_bind (insert_batch flt
          (new_batch batch_id now params (length validated))) (\<lambda>_.
         insert_batch_rows flt now params batch_id busy {} (zip validated (map ids [0..<length validated]))))) (\<lambda>history_ids.
      act_bind (dispatch_batch_items flt now ctx report params batch_id (zip validated history_ids)) (\<lambda>updates.
      act_bind (sql flt (SelectRows batch_id)) (\<lambda>_.
      act_bind (act_read ut_rows) (\<lambda>rows.
      act_return \<lparr>br_batch_id = Some batch_id, br_total_created = length updates,
        br_updates = map (refresh_status rows) updates, br_skipped = skipped\<rparr>)))) (others t)"
proof -
  have "candidates \<noteq> []" using assms(1,2) by auto
  then show ?thesis using assms(2) unfolding create_batch_def
    by (simp add: bind_validate assms(1,3))
qed

subsection \<open>Candidates\<close>

definition outdated_link ::
  "'z fleet_scheme \<Rightarrow> uuid \<Rightarrow> uuid \<Rightarrow> string list option \<Rightarrow> string list option \<Rightarrow> uuid list option \<Rightarrow> link_row \<Rightarrow> bool" where
  "outdated_link t tenant host categories plugin_types excludes l \<longleftrightarrow>
     hl_host_id l = host \<and> hl_deactivated_at l = None \<and> in_filter categories (hl_update_category l) \<and>
     (\<exists>installed latest. hl_installed_version l = Some installed \<and> hl_latest_version l = Some latest \<and> installed \<noteq> latest) \<and>
     \<not> (\<exists>ex. excludes = Some ex \<and> hl_software_item_id l \<in> set ex) \<and>
     (\<exists>i \<in> set (fl_items t). si_id i = hl_software_item_id l \<and> si_tenant_id i = tenant \<and> si_deactivated_at i = None) \<and>
     (\<exists>a \<in> set (fl_assignments t). pa_host_id a = host \<and> pa_software_item_id a = hl_software_item_id l \<and>
        pa_role a = ''execute_update'' \<and> in_filter plugin_types (pa_plugin_type a))"

lemma item_candidates_exact:
  "map (\<lambda>c. (ca_host_id c, ca_software_item_id c, ca_installed_version c, ca_latest_version c))
      (item_candidates host excludes items executable ls) =
    map (\<lambda>l. (ho_id host, hl_software_item_id l, the (hl_installed_version l), the (hl_latest_version l)))
      (filter (\<lambda>l. (\<exists>installed latest. hl_installed_version l = Some installed \<and> hl_latest_version l = Some latest \<and> installed \<noteq> latest) \<and>
        \<not> (\<exists>ex. excludes = Some ex \<and> hl_software_item_id l \<in> set ex) \<and> hl_software_item_id l \<in> si_id ` set items \<and>
        hl_software_item_id l \<in> executable) ls)"
proof (induction ls)
  case (Cons l ls)
  have "find (\<lambda>i. si_id i = hl_software_item_id l) items = None \<longleftrightarrow> hl_software_item_id l \<notin> si_id ` set items"
    by (auto simp: find_None_iff image_iff)
  then show ?case using Cons
    by (cases "find (\<lambda>i. si_id i = hl_software_item_id l) items") (auto split: option.splits)
qed simp

lemma select_Ok_iff [act_simps]:
  "select_one flt st tbl p t = (Ok x, t') \<longleftrightarrow> flt st = None \<and> x = find p (tbl t) \<and> t' = t"
  "select_all flt st tbl p t = (Ok xs, t') \<longleftrightarrow> flt st = None \<and> xs = filter p (tbl t) \<and> t' = t"
  by (auto simp: select_one_def select_all_def act_simps)

lemma or_fail_Ok_iff [act_simps]: "or_fail e m t = (Ok x, t') \<longleftrightarrow> m t = (Ok (Some x), t')"
  by (auto simp: or_fail_def act_simps split: option.splits)

section \<open>Properties\<close>

definition sample_candidate :: batch_candidate where
  "sample_candidate = \<lparr>ca_software_item_id = 6, ca_software_item_name = ''app'', ca_host_id = 7, ca_host_name = ''h'',
     ca_installed_version = ''1.0'', ca_latest_version = ''2.0'', ca_update_category = ''unknown''\<rparr>"

definition sample_batch :: create_batch_params where
  "sample_batch = \<lparr>bp_tenant_id = 4, bp_batch_type = HostUpdate, bp_actor_type = ActUser, bp_actor_id = ''u''\<rparr>"

text \<open>Every candidate of a batch is accounted for, whatever statements fail: when the creation answers
  at all, the created updates are those of the candidates that pass validation and the skipped ones
  those of the others, both in the order of the request, and there is a batch exactly when something
  was created.\<close>

theorem batch_accounts_for_candidates:
  assumes "create_batch flt now batch_id ids others ctx report params candidates t = (Ok res, t')"
  shows "map (\<lambda>u. (bi_host_id u, bi_software_item_id u)) (br_updates res) =
      map candidate_key (filter (candidate_valid flt (bp_tenant_id params) t) candidates) \<and>
    map (\<lambda>k. (sk_host_id k, sk_software_item_id k)) (br_skipped res) =
      map candidate_key (filter (\<lambda>c. \<not> candidate_valid flt (bp_tenant_id params) t c) candidates) \<and>
    br_total_created res = length (br_updates res) \<and>
    br_batch_id res = (if br_updates res = [] then None else Some batch_id)"
proof -
  obtain v s where v: "validate_candidates flt report (bp_tenant_id params) candidates t = (Ok (v, s), t)"
    "map fst v = filter (candidate_valid flt (bp_tenant_id params) t) candidates"
    "map (\<lambda>k. (sk_host_id k, sk_software_item_id k)) s =
       map candidate_key (filter (\<lambda>c. \<not> candidate_valid flt (bp_tenant_id params) t c) candidates)"
    using validate_candidates_eval by blast
  show ?thesis
  proof (cases "v = []")
    case True
    then show ?thesis using assms v
      by (cases "candidates = []") (auto simp: create_batch_def bind_validate)
  next
    case False
    obtain busy where b: "busy_hosts flt {} (map (ca_host_id \<circ> fst) v) t = (Ok busy, t)" using busy_hosts_eval by blast
    have "\<exists>t1 t2 hs updates. insert_batch_rows flt now params batch_id busy {} (zip v (map ids [0..<length v])) t1 = (Ok hs, t2) \<and>
      dispatch_batch_items flt now ctx report params batch_id (zip v hs) t2 = (Ok updates, t') \<and>
      res = \<lparr>br_batch_id = Some batch_id, br_total_created = length updates,
        br_updates = map (refresh_status (ut_rows t')) updates, br_skipped = s\<rparr>"
      using assms unfolding create_batch_unfold[OF v(1) False b]
      by (clarsimp simp: act_simps) (rule exI conjI | assumption | rule refl)+
    then obtain t1 t2 hs updates where r: "insert_batch_rows flt now params batch_id busy {} (zip v (map ids [0..<length v])) t1 = (Ok hs, t2)"
      "dispatch_batch_items flt now ctx report params batch_id (zip v hs) t2 = (Ok updates, t')"
      "res = \<lparr>br_batch_id = Some batch_id, br_total_created = length updates,
        br_updates = map (refresh_status (ut_rows t')) updates, br_skipped = s\<rparr>"
      by blast
    from insert_batch_rows_Ok[OF r(1)] have "length hs = length v" by (metis length_map length_upt length_zip min.idem diff_zero)
    then have k: "map (\<lambda>u. (bi_host_id u, bi_software_item_id u)) updates =
        map candidate_key (filter (candidate_valid flt (bp_tenant_id params) t) candidates)"
      using dispatch_batch_items_keys[OF r(2)] by (simp only: map_candidates_zip v(2))
    moreover have "updates \<noteq> []" using k False v(2) by auto
    ultimately show ?thesis using v(3) by (simp add: r(3) comp_def)
  qed
qed

text \<open>C39. A batch is created completely: when nothing fails, no candidate has an unfinished update and no
  protection plugin is installed, every candidate gets its row in the order of the request; on a host
  that was free the first row is pending and the others wait, on a busy host all wait; exactly the
  pending updates are sent to their agents, and the hook plugin is called for these if there is one.\<close>

theorem batch_created_completely:
  assumes "indexes_ok (ut_rows t)" "batch_id \<notin> ub_id ` set (ut_batches t)" "candidates \<noteq> []"
    and "inj ids" "range ids \<inter> uh_id ` set (ut_rows t) = {}" "distinct (map candidate_key candidates)"
    and valid: "\<And>c. c \<in> set candidates \<Longrightarrow> candidate_valid faultless (bp_tenant_id params) t c \<and>
      \<not> item_active (ca_host_id c) (ca_software_item_id c) (ut_rows t)"
    and "dc_protection ctx = None" "dc_delivers ctx"
  shows "\<exists>res t' new sent calls. create_batch faultless now batch_id ids (\<lambda>t. t) ctx report params candidates t = (Ok res, t') \<and>
    ut_rows t' = ut_rows t @ new \<and> map uh_id new = map ids [0..<length candidates] \<and>
    map (\<lambda>r. (uh_host_id r, uh_software_item_id r)) new = map candidate_key candidates \<and>
    (\<forall>k < length new. uh_status (new ! k) =
      (if host_free (uh_host_id (new ! k)) (ut_rows t) \<and> uh_host_id (new ! k) \<notin> uh_host_id ` set (take k new)
       then StPending else StQueued)) \<and>
    fl_sent t' = fl_sent t @ sent \<and>
    map (ep_update_history_id \<circ> snd) sent = map uh_id (filter (\<lambda>r. uh_status r = StPending) new) \<and>
    fl_hook_calls t' = fl_hook_calls t @ calls \<and>
    map (snd \<circ> snd \<circ> snd) calls = (if dc_hook ctx then map uh_id (filter (\<lambda>r. uh_status r = StPending) new) else []) \<and>
    map bi_update_history_id (br_updates res) = map uh_id new"
proof -
  obtain v s where v: "validate_candidates faultless report (bp_tenant_id params) candidates t = (Ok (v, s), t)"
    "map fst v = filter (candidate_valid faultless (bp_tenant_id params) t) candidates"
    using validate_candidates_eval by blast
  have v2: "map fst v = candidates" using v(2) valid by simp
  then have n: "length v = length candidates" "v \<noteq> []" using \<open>candidates \<noteq> []\<close> by auto
  define busy where "busy = {} \<union> {h \<in> set (map (ca_host_id \<circ> fst) v). \<not> host_free h (ut_rows t)}"
  have b: "busy_hosts faultless {} (map (ca_host_id \<circ> fst) v) t = (Ok busy, t)" by (simp only: busy_hosts_faultless busy_def)
  let ?xs = "zip v (map ids [0..<length v])"
  have xs: "map snd ?xs = map ids [0..<length candidates]" "map (f \<circ> fst \<circ> fst) ?xs = map f candidates" for f :: "batch_candidate \<Rightarrow> 'b"
    by (simp_all add: n v2 map_candidates_zip)
  let ?b = "new_batch batch_id now params (length v)"
  let ?t1 = "t\<lparr>ut_batches := ut_batches t @ [?b]\<rparr>"
  have bt: "insert_batch faultless ?b t = (Ok (), ?t1)" using assms(2) by (simp add: insert_batch_def new_batch_def)
  have "\<exists>hs t2. insert_batch_rows faultless now params batch_id busy {} ?xs ?t1 = (Ok hs, t2)"
  proof (rule insert_batch_rows_faultless, unfold xs)
    show "distinct (map ids [0..<length candidates])" using assms(4) by (auto simp: distinct_map intro: inj_on_subset)
  qed (use assms valid v2 in \<open>auto simp: busy_def candidate_key_def\<close>)
  then obtain hs t2 where hs: "insert_batch_rows faultless now params batch_id busy {} ?xs ?t1 = (Ok hs, t2)" by blast
  obtain new where new: "t2 = ?t1\<lparr>ut_rows := ut_rows ?t1 @ new\<rparr>" "map uh_id new = map snd ?xs"
    "map (\<lambda>r. (uh_host_id r, uh_software_item_id r)) new = map (candidate_key \<circ> fst \<circ> fst) ?xs"
    "staged busy {} new" "hs = map (\<lambda>r. (uh_id r, uh_status r = StPending)) new"
    using insert_batch_rows_Ok[OF hs] by blast
  obtain items sent calls where d: "dispatch_batch_items faultless now ctx report params batch_id (zip v hs) t2 =
      (Ok items, handed_out sent calls t2)" "map bi_update_history_id items = map (fst \<circ> snd) (zip v hs)"
    "map (ep_update_history_id \<circ> snd) sent = (if dc_delivers ctx then dispatched_ids (zip v hs) else [])"
    "map (snd \<circ> snd \<circ> snd) calls = (if dc_hook ctx then dispatched_ids (zip v hs) else [])"
    using dispatch_batch_items_unprotected[OF assms(8)] by blast
  have l: "length hs = length v" using arg_cong[OF new(2), of length] by (simp add: new(5))
  have e: "create_batch faultless now batch_id ids (\<lambda>t. t) ctx report params candidates t =
      (Ok \<lparr>br_batch_id = Some batch_id, br_total_created = length items,
        br_updates = map (refresh_status (ut_rows t2)) items, br_skipped = s\<rparr>, handed_out sent calls t2)"
    unfolding create_batch_unfold[OF v(1) n(2) b]
    by (simp add: act_bind_def in_tx_def transaction_def bt hs d(1))
  have "map uh_host_id new = map ca_host_id candidates"
    using arg_cong[OF new(3)[unfolded xs], of "map fst"] by (simp add: comp_def candidate_key_def)
  also have "\<dots> = map (ca_host_id \<circ> fst) v" by (simp add: v2[symmetric])
  finally have "uh_host_id ` set new = (ca_host_id \<circ> fst) ` set v" by (metis set_map)
  then have busy_iff: "uh_host_id (new ! k) \<in> busy \<longleftrightarrow> \<not> host_free (uh_host_id (new ! k)) (ut_rows t)" if "k < length new" for k
    using that nth_mem[OF that] by (auto simp: busy_def)
  have "map (fst \<circ> snd) (zip v hs) = map uh_id new" "dispatched_ids (zip v hs) =
      map uh_id (filter (\<lambda>r. uh_status r = StPending) new)"
    unfolding dispatched_ids_def zip_snd[OF l] by (simp_all add: new(5) comp_def filter_map)
  then show ?thesis
    using d(2,3,4) new(2,3,4) assms(9) busy_iff unfolding e
    by (intro exI conjI) (rule refl, auto simp: new(1) xs staged_def refresh_status_ids)
qed

theorem batch_created_completely_witness:
  "\<exists>res t' new sent. create_batch faultless 9 30 ((+) 40) (\<lambda>t. t) sample_dispatch_ctx (\<lambda>_. []) sample_batch
      [sample_candidate] (sample_fleet [] []) = (Ok res, t') \<and>
    ut_rows t' = new \<and> map uh_id new = [40] \<and> map uh_status new = [StPending] \<and>
    fl_sent t' = sent \<and> map (ep_update_history_id \<circ> snd) sent = [40] \<and> map (snd \<circ> snd \<circ> snd) (fl_hook_calls t') = [40]"
proof -
  let ?t = "sample_fleet [] []"
  have r: "ut_rows ?t = []" "ut_batches ?t = []" "fl_sent ?t = []" "fl_hook_calls ?t = []" "dc_hook sample_dispatch_ctx" by (simp_all add: sample_fleet_def sample_dispatch_ctx_def)
  have f: "bp_tenant_id sample_batch = 4" "ca_host_id sample_candidate = 7" "ca_software_item_id sample_candidate = 6"
    "candidate_key sample_candidate = (7, 6)"
    by (simp_all add: sample_batch_def sample_candidate_def candidate_key_def)
  have "\<exists>res t' new sent calls. create_batch faultless 9 30 ((+) 40) (\<lambda>t. t) sample_dispatch_ctx (\<lambda>_. []) sample_batch [sample_candidate] ?t = (Ok res, t') \<and>
      ut_rows t' = ut_rows ?t @ new \<and> map uh_id new = map ((+) 40) [0..<length [sample_candidate]] \<and>
      map (\<lambda>r. (uh_host_id r, uh_software_item_id r)) new = map candidate_key [sample_candidate] \<and>
      (\<forall>k < length new. uh_status (new ! k) =
        (if host_free (uh_host_id (new ! k)) (ut_rows ?t) \<and> uh_host_id (new ! k) \<notin> uh_host_id ` set (take k new)
         then StPending else StQueued)) \<and>
      fl_sent t' = fl_sent ?t @ sent \<and>
      map (ep_update_history_id \<circ> snd) sent = map uh_id (filter (\<lambda>r. uh_status r = StPending) new) \<and>
      fl_hook_calls t' = fl_hook_calls ?t @ calls \<and>
      map (snd \<circ> snd \<circ> snd) calls = (if dc_hook sample_dispatch_ctx then map uh_id (filter (\<lambda>r. uh_status r = StPending) new) else []) \<and>
      map bi_update_history_id (br_updates res) = map uh_id new"
    by (rule batch_created_completely)
      (simp_all add: r f candidate_valid_def sample_target_load item_active_def sample_dispatch_ctx_def
        indexes_ok_def host_active_keys_def item_active_keys_def)
  then obtain res t' new sent where e:
    "create_batch faultless 9 30 ((+) 40) (\<lambda>t. t) sample_dispatch_ctx (\<lambda>_. []) sample_batch [sample_candidate] ?t = (Ok res, t')"
    "ut_rows t' = new" "map uh_id new = [40]" "\<forall>k < length new. uh_status (new ! k) =
        (if uh_host_id (new ! k) \<notin> uh_host_id ` set (take k new) then StPending else StQueued)"
    "fl_sent t' = sent" "map (ep_update_history_id \<circ> snd) sent = map uh_id (filter (\<lambda>r. uh_status r = StPending) new)"
    "map (snd \<circ> snd \<circ> snd) (fl_hook_calls t') = map uh_id (filter (\<lambda>r. uh_status r = StPending) new)"
    by (auto simp: r host_free_def)
  then obtain r where "new = [r]" by auto
  then show ?thesis using e by auto
qed

text \<open>C40. One candidate whose item already has an unfinished update makes the whole request fail: the
  database reports a duplicate key, no batch and no row is stored, and no other candidate is updated.\<close>

theorem batch_with_active_item_rejected:
  assumes "c \<in> set candidates" "candidate_valid faultless (bp_tenant_id params) t c"
    and "item_active (ca_host_id c) (ca_software_item_id c) (ut_rows (others t))"
  shows "create_batch faultless now batch_id ids others ctx report params candidates t =
    (Err (DatabaseErr UniqueConstraint), others t)"
proof -
  obtain v s where v: "validate_candidates faultless report (bp_tenant_id params) candidates t = (Ok (v, s), t)"
    "map fst v = filter (candidate_valid faultless (bp_tenant_id params) t) candidates"
    using validate_candidates_eval by blast
  obtain target where "(c, target) \<in> set v"
    using arg_cong[OF v(2), of set] assms(1,2) by (force simp: image_iff)
  then obtain k where k: "k < length v" "v ! k = (c, target)" by (auto simp: in_set_conv_nth)
  then have x: "((c, target), ids k) \<in> set (zip v (map ids [0..<length v]))" and ne: "v \<noteq> []"
    by (auto simp: set_zip intro!: exI[of _ k])
  obtain busy where b: "busy_hosts faultless {} (map (ca_host_id \<circ> fst) v) t = (Ok busy, t)"
    using busy_hosts_eval by blast
  let ?b = "new_batch batch_id now params (length v)"
  have "item_active (ca_host_id (fst (fst ((c, target), ids k)))) (ca_software_item_id (fst (fst ((c, target), ids k))))
      (ut_rows (others t\<lparr>ut_batches := ut_batches (others t) @ [?b]\<rparr>))"
    by (simp add: assms(3))
  from insert_batch_rows_conflict[OF x this] obtain t' where "insert_batch_rows faultless now params batch_id busy {}
      (zip v (map ids [0..<length v])) (others t\<lparr>ut_batches := ut_batches (others t) @ [?b]\<rparr>) =
      (Err (DatabaseErr UniqueConstraint), t')"
    by blast
  then show ?thesis
    unfolding create_batch_unfold[OF v(1) ne b]
    by (simp add: act_bind_def in_tx_def transaction_def insert_batch_def)
qed

theorem batch_with_active_item_rejected_witness:
  "create_batch faultless 9 30 ((+) 40) (\<lambda>t. t) sample_dispatch_ctx (\<lambda>_. []) sample_batch [sample_candidate]
      (sample_fleet [queued_row 2 6] []) = (Err (DatabaseErr UniqueConstraint), sample_fleet [queued_row 2 6] [])"
proof -
  have f: "bp_tenant_id sample_batch = 4" "ca_host_id sample_candidate = 7" "ca_software_item_id sample_candidate = 6"
    by (simp_all add: sample_batch_def sample_candidate_def)
  show ?thesis
    by (rule batch_with_active_item_rejected[of sample_candidate])
      (simp_all add: f candidate_valid_def sample_target_load item_active_def unfinished_def, simp add: sample_fleet_def)
qed

text \<open>The candidates of a host are exactly its outdated items, in the order of the links: installed
  and latest version known and different, of a wanted category, not excluded, active, and with an
  assigned plugin of a wanted type that executes updates; finding them changes nothing.\<close>

theorem outdated_items_exact:
  assumes "find_outdated_items_for_host flt tenant host categories plugin_types excludes t = (Ok cs, t')"
    and "\<not> empty_filter categories" "\<not> empty_filter plugin_types"
  shows "t' = t \<and> map (\<lambda>c. (ca_host_id c, ca_software_item_id c, ca_installed_version c, ca_latest_version c)) cs =
    map (\<lambda>l. (host, hl_software_item_id l, the (hl_installed_version l), the (hl_latest_version l)))
      (filter (outdated_link t tenant host categories plugin_types excludes) (fl_links t))"
proof -
  define links where "links = filter (\<lambda>l. hl_host_id l = host \<and> versioned_link categories l) (fl_links t)"
  define items where "items = filter (\<lambda>i. si_tenant_id i = tenant \<and> si_id i \<in> hl_software_item_id ` set links \<and>
    si_deactivated_at i = None) (fl_items t)"
  define executable where "executable = pa_software_item_id ` set (filter (\<lambda>a. pa_host_id a = host \<and>
    pa_software_item_id a \<in> hl_software_item_id ` set links \<and> pa_role a = ''execute_update'' \<and>
    in_filter plugin_types (pa_plugin_type a)) (fl_assignments t))"
  let ?out = "outdated_link t tenant host categories plugin_types excludes"
  have sub: "?out l \<Longrightarrow> l \<in> set (fl_links t) \<Longrightarrow> l \<in> set links" for l
    by (auto simp: links_def outdated_link_def versioned_link_def)
  have out: "filter ?out (fl_links t) = filter (\<lambda>l. (\<exists>installed latest. hl_installed_version l = Some installed \<and>
      hl_latest_version l = Some latest \<and> installed \<noteq> latest) \<and> \<not> (\<exists>ex. excludes = Some ex \<and> hl_software_item_id l \<in> set ex) \<and>
      hl_software_item_id l \<in> si_id ` set items \<and> hl_software_item_id l \<in> executable) links" (is "_ = filter ?p links")
  proof -
    have "?out l \<longleftrightarrow> (hl_host_id l = host \<and> versioned_link categories l) \<and> ?p l" if l: "l \<in> set (fl_links t)" for l
    proof (cases "hl_host_id l = host \<and> versioned_link categories l")
      case True
      then have "hl_software_item_id l \<in> hl_software_item_id ` set links" using l by (simp add: links_def)
      then have "hl_software_item_id l \<in> si_id ` set items \<longleftrightarrow> (\<exists>i \<in> set (fl_items t). si_id i = hl_software_item_id l \<and>
          si_tenant_id i = tenant \<and> si_deactivated_at i = None)"
        "hl_software_item_id l \<in> executable \<longleftrightarrow> (\<exists>a \<in> set (fl_assignments t). pa_host_id a = host \<and>
          pa_software_item_id a = hl_software_item_id l \<and> pa_role a = ''execute_update'' \<and> in_filter plugin_types (pa_plugin_type a))"
        by (force simp: items_def executable_def)+
      then show ?thesis using True unfolding outdated_link_def versioned_link_def by blast
    qed (auto simp: outdated_link_def versioned_link_def)
    then show ?thesis unfolding links_def filter_filter by (intro filter_cong) auto
  qed
  show ?thesis
  proof (cases "links = []")
    case True
    then show ?thesis using assms sub out
      by (auto simp: find_outdated_items_for_host_def act_simps links_def[symmetric] split: if_split_asm)
  next
    case False
    have h: "ho_id h = host" if "Some h = find (\<lambda>h. ho_id h = host \<and> ho_tenant_id h = tenant \<and> ho_deactivated_at h = None) hs" for h hs
      using that[symmetric] by (auto simp: find_Some_iff)
    from False obtain h where "ho_id h = host" "t' = t" "cs = item_candidates h excludes items executable links"
      using assms
      by (auto simp: find_outdated_items_for_host_def act_simps links_def[symmetric] items_def[symmetric]
          executable_def dest!: h split: if_split_asm)
    then show ?thesis using item_candidates_exact[of h excludes items executable links] by (simp add: out)
  qed
qed

end
