(* ===== verification/Update_Orchestrator.thy ===== *)
theory Update_Orchestrator
  imports Update_Dispatch
begin

text \<open>
  What follows the end of an update outside a batch (\<open>dispatch_next_queued_update\<close> of
  \<open>service_ws/handler/updates/dispatch.rs\<close> in \<open>crates/ui/web-api\<close>), and the task that protects a pending
  update and hands it to its agent (\<open>run_protection_and_dispatch\<close> of
  \<open>crates/ui/controller-core/src/update/controller.rs\<close>).
\<close>

section \<open>The queue after an update outside a batch\<close>

text \<open>The failed update is written as well as possible: an error is only logged.\<close>

definition fail_dispatch_target_load :: "update_faults \<Rightarrow> instant \<Rightarrow> string \<Rightarrow> update_row \<Rightarrow> ('z, unit) upd" where
  "fail_dispatch_target_load flt now report r = act_try (fail_dispatch flt now report (uh_id r)) (\<lambda>_. act_return ())"

definition queued_work :: "validated_target \<Rightarrow> update_row \<Rightarrow> pending_work" where
  "queued_work target r = \<lparr>pw_target = target, pw_update_history_id = uh_id r,
     pw_to_version = (case uh_to_version r of Some v \<Rightarrow> v | None \<Rightarrow> []), pw_release_info = None,
     pw_interactive = uh_interactive r\<rparr>"

text \<open>One turn of the loop: it goes on, or returns with the work it has handed out. As in the loop for
  batches, \<open>others\<close> acts between the read and the promotion.\<close>

datatype queue_turn = Continue | Return "pending_work option"

definition standalone_turn ::
  "update_faults \<Rightarrow> instant \<Rightarrow> ('z fleet_scheme \<Rightarrow> 'z fleet_scheme) \<Rightarrow> (trigger_update_error \<Rightarrow> string) \<Rightarrow> uuid \<Rightarrow> uuid \<Rightarrow>
   ('z, queue_turn) fleet_act" where
  "standalone_turn flt now others report host tenant =
     act_try (sql flt (SelectRows host)) (\<lambda>selected. case selected of
       Inl _ \<Rightarrow> act_return (Return None)
     | Inr _ \<Rightarrow>
         act_bind (act_read (\<lambda>t. next_queued host (ut_rows t))) (\<lambda>next_record. case next_record of
           None \<Rightarrow> act_return (Return None)
         | Some r \<Rightarrow>
             act_bind (act_update others) (\<lambda>_.
             act_try (promote_queued flt (uh_id r)) (\<lambda>cas_result. case cas_result of
               Inl _ \<Rightarrow> act_return (Return None)
             | Inr n \<Rightarrow>
                 if n = 0 then act_return Continue
                 else
                 act_try (load_target_for_dispatch flt tenant (uh_host_id r) (uh_software_item_id r)) (\<lambda>loaded. case loaded of
                   Inl e \<Rightarrow> act_bind (fail_dispatch_target_load flt now (report e) r) (\<lambda>_. act_return (Return None))
                 | Inr target \<Rightarrow> act_return (Return (Some (queued_work target r))))))))"

lemma standalone_turn_decreases:
  assumes "writes_only others" "standalone_turn flt now others report host tenant t = (Ok Continue, t')"
  shows "queued_count host t' < queued_count host t"
proof -
  obtain r where r: "next_queued host (ut_rows t) = Some r"
    using assms(2) by (auto simp: standalone_turn_def act_try_def act_simps split: prod.splits sum.splits option.splits)
  obtain n where p: "promote_queued flt (uh_id r) (others t) = (Ok n, t')"
    using assms(2) r
    by (auto simp: standalone_turn_def act_try_def act_update_def act_simps split: prod.splits sum.splits if_splits)
  show ?thesis using promotion_decreases[OF assms(1) r] by (simp add: promote_Ok[OF p])
qed

function standalone_loop ::
  "(nat \<Rightarrow> update_faults) \<Rightarrow> (nat \<Rightarrow> instant) \<Rightarrow> (trigger_update_error \<Rightarrow> string) \<Rightarrow> uuid \<Rightarrow> uuid \<Rightarrow>
   ('z fleet_scheme \<Rightarrow> 'z fleet_scheme) list \<Rightarrow> nat \<Rightarrow> ('z, pending_work option) fleet_act" where
  "standalone_loop flts nows report host tenant others n t =
     (case standalone_turn (flts n) (nows n) (turn_others others) report host tenant t of
        (Inl e, t') \<Rightarrow> (Err e, t')
      | (Inr (Return w), t') \<Rightarrow> (Ok w, t')
      | (Inr Continue, t') \<Rightarrow> standalone_loop flts nows report host tenant (tl others) (Suc n) t')"
  by pat_completeness auto

termination
proof (relation "measures [\<lambda>(flts, nows, report, host, tenant, others, n, t). length others,
    \<lambda>(flts, nows, report, host, tenant, others, n, t). queued_count host t]")
  fix flts :: "nat \<Rightarrow> update_faults" and nows :: "nat \<Rightarrow> instant"
    and report :: "trigger_update_error \<Rightarrow> string" and host tenant :: uuid
    and others :: "('a fleet_scheme \<Rightarrow> 'a fleet_scheme) list" and n :: nat and t t' :: "'a fleet_scheme" and x ok
  assume e: "(x, t') = standalone_turn (flts n) (nows n) (turn_others others) report host tenant t" "x = Ok ok" "ok = Continue"
  have "queued_count host t' < queued_count host t" if "others = []"
    using standalone_turn_decreases[OF writes_only_id, of "flts n" "nows n" report host tenant t t'] e that
    by (simp add: turn_others_def)
  then show "((flts, nows, report, host, tenant, tl others, Suc n, t'),
      (flts, nows, report, host, tenant, others, n, t)) \<in> measures
      [\<lambda>(flts, nows, report, host, tenant, others, n, t). length others,
       \<lambda>(flts, nows, report, host, tenant, others, n, t). queued_count host t]"
    by (cases others) auto
qed simp

declare standalone_loop.simps [simp del]

text \<open>The tenant is that of the service that reported the end; the result is the work given to
  \<open>spawn_pending_protection\<close>.\<close>

definition dispatch_next_queued_update ::
  "(nat \<Rightarrow> update_faults) \<Rightarrow> (nat \<Rightarrow> instant) \<Rightarrow> ('z fleet_scheme \<Rightarrow> 'z fleet_scheme) list \<Rightarrow>
   (trigger_update_error \<Rightarrow> string) \<Rightarrow> uuid \<Rightarrow> uuid \<Rightarrow> ('z, pending_work option) fleet_act" where
  "dispatch_next_queued_update flts nows others report service host =
     act_try (select_one (flts 0) (SelectAgents service) fl_services (\<lambda>s. sv_id s = service)) (\<lambda>found. case found of
       Inr (Some svc) \<Rightarrow> standalone_loop flts nows report host (sv_tenant_id svc) others 0
     | _ \<Rightarrow> act_return None)"

section \<open>Protection and hand-over\<close>





section \<open>Evaluation when no statement fails\<close>

definition dispatch_failed :: "instant \<Rightarrow> string \<Rightarrow> update_row \<Rightarrow> update_row" where
  "dispatch_failed now rep r = r\<lparr>uh_status := StFailed, uh_completed_at := Some now, uh_output := ''dispatch failed: '' @ rep,
     uh_output_bytes := int (length (''dispatch failed: '' @ rep))\<rparr>"

lemma replace_row_twice:
  assumes "indexes_ok rows" "r \<in> set rows" "uh_id r2 = uh_id r"
  shows "replace_row r2 r3 (replace_row r r2 rows) = replace_row r r3 rows"
proof -
  have "q = r" if "q \<in> set rows" "q = r2" for q
    using assms that by (auto simp: indexes_ok_def distinct_map inj_on_def)
  then show ?thesis unfolding replace_row_def by auto
qed

lemma fail_dispatch_exact:
  assumes "indexes_ok (ut_rows t)" "r \<in> set (ut_rows t)"
  shows "fail_dispatch faultless now rep (uh_id r) t = (Ok (), t\<lparr>ut_rows := replace_row r (dispatch_failed now rep r) (ut_rows t)\<rparr>)"
proof -
  have "indexes_ok (set_where (\<lambda>q. uh_id q = uh_id r) (dispatch_failed now rep) (ut_rows t))"
    by (rule indexes_ok_terminal[OF assms(1)]) (simp add: unfinished_def dispatch_failed_def)
  from update_by_id_faultless(1)[OF assms this] show ?thesis
    by (simp add: fail_dispatch_def Let_def dispatch_failed_def[abs_def])
qed

lemma standalone_turn_faultless:
  assumes ok: "indexes_ok (ut_rows t)" and free: "host_free host (ut_rows t)" and q: "next_queued host (ut_rows t) = Some q"
  defines "t1 \<equiv> t\<lparr>ut_rows := replace_row q (q\<lparr>uh_status := StPending\<rparr>) (ut_rows t)\<rparr>"
  shows "standalone_turn faultless now (\<lambda>t. t) report host tenant t =
    (case fst (load_target_for_dispatch faultless tenant host (uh_software_item_id q) t1) of
       Inl e \<Rightarrow> (Ok (Return None), t\<lparr>ut_rows := replace_row q (dispatch_failed now (report e) q) (ut_rows t)\<rparr>)
     | Inr target \<Rightarrow> (Ok (Return (Some (queued_work target q))), t1))"
proof -
  note m = next_queued_SomeD[OF q]
  let ?r1 = "q\<lparr>uh_status := StPending\<rparr>"
  have pr: "promote_queued faultless (uh_id q) t = (Ok 1, t1)"
    unfolding t1_def by (rule promote_faultless) (use m ok free in simp_all)
  have ok1: "indexes_ok (ut_rows t1)" and r1: "?r1 \<in> set (ut_rows t1)"
    using indexes_ok_promote[OF ok] m free replace_row_in[of q "ut_rows t"] by (simp_all add: t1_def)
  have tw: "replace_row ?r1 r3 (ut_rows t1) = replace_row q r3 (ut_rows t)" for r3
    unfolding t1_def using replace_row_twice[OF ok, of q ?r1] m by simp
  have d: "dispatch_failed now rep ?r1 = dispatch_failed now rep q" for rep by (simp add: dispatch_failed_def)
  have f: "fail_dispatch faultless now rep (uh_id q) t1 = (Ok (), t\<lparr>ut_rows := replace_row q (dispatch_failed now rep q) (ut_rows t)\<rparr>)" for rep
    using fail_dispatch_exact[OF ok1 r1, of now rep] unfolding tw d by (simp add: t1_def)
  obtain x where x: "load_target_for_dispatch faultless tenant host (uh_software_item_id q) t1 = (x, t1)"
    using stillD[OF still_load_target] by (metis prod.collapse)
  show ?thesis
    using m by (simp add: standalone_turn_def act_try_def q pr x f fail_dispatch_target_load_def split: sum.split)
qed

lemma standalone_faultless:
  assumes "indexes_ok (ut_rows t)" "host_free host (ut_rows t)" "find (\<lambda>s. sv_id s = service) (fl_services t) = Some svc"
  shows "dispatch_next_queued_update (\<lambda>_. faultless) nows [] report service host t = (case next_queued host (ut_rows t) of
      None \<Rightarrow> (Ok None, t)
    | Some q \<Rightarrow> (case standalone_turn faultless (nows 0) (\<lambda>t. t) report host (sv_tenant_id svc) t of
        (Inl e, t') \<Rightarrow> (Err e, t')
      | (Inr (Return w), t') \<Rightarrow> (Ok w, t')
      | (Inr Continue, t') \<Rightarrow> (Ok None, t')))"
proof (cases "next_queued host (ut_rows t)")
  case None
  then show ?thesis
    using assms(3) by (simp add: dispatch_next_queued_update_def act_try_def select_one_def standalone_loop.simps
        standalone_turn_def turn_others_def)
next
  case (Some q)
  then show ?thesis
    using assms(3) standalone_turn_faultless[OF assms(1,2) Some, of "nows 0" report "sv_tenant_id svc"]
    by (simp add: dispatch_next_queued_update_def act_try_def select_one_def standalone_loop.simps turn_others_def split: sum.split)
qed

lemma queued_count_replace:
  assumes "indexes_ok (ut_rows t)" "q \<in> set (ut_rows t)" "uh_status r' \<noteq> StQueued"
  shows "queued_count host (t\<lparr>ut_rows := replace_row q r' (ut_rows t)\<rparr>) +
    (if uh_host_id q = host \<and> uh_status q = StQueued then 1 else 0) = queued_count host t"
proof -
  obtain xs ys where rows: "ut_rows t = xs @ q # ys" using assms(2) split_list by metis
  have "distinct (ut_rows t)" using assms(1) by (simp add: indexes_ok_def distinct_map)
  then have "replace_row q r' (ut_rows t) = xs @ r' # ys"
    unfolding replace_row_def rows by (auto intro: map_idI)
  then show ?thesis using assms(3) by (simp add: queued_count_def rows)
qed




definition orchestrated_row :: "instant \<Rightarrow> update_row \<Rightarrow> update_row" where
  "orchestrated_row now r = r\<lparr>uh_status := StInProgress, uh_protection_status := Some ''in_progress'',
     uh_owner_service := None, uh_started_at := Some now\<rparr>"

lemma orchestrated_row_fields [simp]:
  "uh_id (orchestrated_row now r) = uh_id r" "uh_host_id (orchestrated_row now r) = uh_host_id r"
  "uh_status (orchestrated_row now r) = StInProgress" "uh_software_item_id (orchestrated_row now r) = uh_software_item_id r"
  by (simp_all add: orchestrated_row_def)






section \<open>Properties\<close>

text \<open>C34. What follows the end of an update outside a batch, on the host that is now free, when no statement
  fails and nobody interferes: the oldest queued update becomes pending and its work is handed out.
  When its target cannot be loaded, that update fails and the function returns: no work is handed
  out, and the other queued updates stay queued although the host is free. (The loop for batches goes
  on with the next update.)\<close>

theorem standalone_end_exact:
  assumes "indexes_ok (ut_rows t)" "host_free host (ut_rows t)" "find (\<lambda>s. sv_id s = service) (fl_services t) = Some svc"
    and "dispatch_next_queued_update (\<lambda>_. faultless) nows [] report service host t = (res, t')"
  shows "case next_queued host (ut_rows t) of
      None \<Rightarrow> res = Ok None \<and> t' = t
    | Some q \<Rightarrow>
       (let t1 = t\<lparr>ut_rows := replace_row q (q\<lparr>uh_status := StPending\<rparr>) (ut_rows t)\<rparr> in
        case fst (load_target_for_dispatch faultless (sv_tenant_id svc) host (uh_software_item_id q) t1) of
          Inr target \<Rightarrow> res = Ok (Some (queued_work target q)) \<and> t' = t1
        | Inl e \<Rightarrow> res = Ok None \<and>
            t' = t\<lparr>ut_rows := replace_row q (dispatch_failed (nows 0) (report e) q) (ut_rows t)\<rparr> \<and>
            host_free host (ut_rows t') \<and> Suc (queued_count host t') = queued_count host t)"
proof (cases "next_queued host (ut_rows t)")
  case None
  then show ?thesis using assms(4) by (simp add: standalone_faultless[OF assms(1-3)])
next
  case (Some q)
  note m = next_queued_SomeD[OF Some]
  have "Suc (queued_count host (t\<lparr>ut_rows := replace_row q (dispatch_failed now rep q) (ut_rows t)\<rparr>)) = queued_count host t" for now rep
    using queued_count_replace[of t q "dispatch_failed now rep q" host] assms(1) m by (simp add: dispatch_failed_def)
  moreover have "host_free host (replace_row q (dispatch_failed now rep q) (ut_rows t))" for now rep
    using assms(2) by (auto simp: host_free_def replace_row_def dispatch_failed_def host_blocking_def)
  ultimately show ?thesis
    using assms(4) standalone_turn_faultless[OF assms(1,2) Some, of "nows 0" report "sv_tenant_id svc"]
    by (auto simp: standalone_faultless[OF assms(1-3)] Some Let_def split: sum.splits)
qed

definition stalled_fleet :: fleet where
  "stalled_fleet = sample_fleet [queued_row 2 8, queued_row 3 6] []"

text \<open>The second update of the sample could be dispatched, and waits.\<close>

theorem standalone_end_exact_witness:
  "\<exists>t'. dispatch_next_queued_update (\<lambda>_. faultless) (\<lambda>_. 9) [] (\<lambda>_. ''gone'') 3 7 stalled_fleet = (Ok None, t') \<and>
     host_free 7 (ut_rows t') \<and> queued_count 7 t' = 1"
proof -
  obtain res t' where e: "dispatch_next_queued_update (\<lambda>_. faultless) (\<lambda>_. 9) [] (\<lambda>_. ''gone'') 3 7 stalled_fleet = (res, t')"
    by fastforce
  have s: "indexes_ok (ut_rows stalled_fleet)" "host_free 7 (ut_rows stalled_fleet)" "queued_count 7 stalled_fleet = 2"
    "next_queued 7 (ut_rows stalled_fleet) = Some (queued_row 2 8)"
    "find (\<lambda>s. sv_id s = 3) (fl_services stalled_fleet) = Some (hd (fl_services stalled_fleet))"
    by (simp_all add: stalled_fleet_def sample_fleet_def indexes_ok_def host_active_keys_def item_active_keys_def host_free_def
        host_blocking_def unfinished_def queued_count_def next_queued_def)
  have l: "fst (load_target_for_dispatch faultless 4 7 8 (stalled_fleet\<lparr>ut_rows := rows\<rparr>)) = Err SoftwareItemNotFound" for rows
    by (simp add: load_target_for_dispatch_def find_active_item_def select_one_def or_fail_def act_try_def
        stalled_fleet_def sample_fleet_def)
  have v: "sv_tenant_id (hd (fl_services stalled_fleet)) = 4" by (simp add: stalled_fleet_def sample_fleet_def)
  have "res = Ok None \<and> host_free 7 (ut_rows t') \<and> queued_count 7 t' = 1"
    using standalone_end_exact[OF s(1,2,5) e] by (auto simp: s(3,4) v l Let_def)
  with e show ?thesis by blast
qed




end
