(* ===== verification/Spec2Isabelle.thy ===== *)
theory Spec2Isabelle
  imports Access_Handlers Workload_Handlers Task_Claims Reload_Subsystems Update_Batches Update_Orchestrator
begin

text \<open>
  Verification of uptrakit, a self-hosted update tracker: a controller with a web API, services
  that connect to it, a scheduler, and a relational store. Source paths are below \<open>src/crates\<close>.

  \<^bold>\<open>Foundations.\<close> \<open>Uptrakit_Prelude\<close> has results, strings, ordered iteration, and the interfaces \<open>codec\<close>
  (a printer and its parser) and \<open>state_machine\<close> (an invariant of a step relation).

  \<^bold>\<open>Access control\<close>: who may do what, and that administration is never lost.
  \<^item> \<open>Access_Catalog\<close> (\<open>shared/types/src/access\<close>): verbs, resources, the action catalog and the textual
    form of actions; round trips.
  \<^item> \<open>Access_Pattern\<close> (\<open>pattern.rs\<close>, \<open>bounds.rs\<close>): action patterns, what they match, the checks at write
    time; parsing, and that \<open>can_match_any\<close> is exact.
  \<^item> \<open>Access_Selector\<close> (\<open>selector.rs\<close>, \<open>decision.rs\<close>): selectors, capability levels, targets, visibility.
  \<^item> \<open>Access_Grants\<close> (\<open>shared/db/src/access_grants.rs\<close>): the grant table and its operations; the table
    invariant under interleaved writes, by how much the cap of a subject can be exceeded, planes, and
    what a load returns.
  \<^item> \<open>Access_Lockout\<close> (the guard in the same file): sets of holders, the state after a mutation, the verdict.
  \<^item> \<open>Access_Engine\<close> (\<open>ui/controller-core/src/access\<close>): the cached authority and its age, the decision, the
    gates, invalidation. Calls interleave with writes and flushes: a history of states records what each
    call read. The cache crate is the locale \<open>authority_cache\<close>, the plugin actions the locale
    \<open>action_registry\<close>.
  \<^item> \<open>Access_Handlers\<close> (\<open>ui/web-api/src/routes\<close>: grants, roles, users): the endpoints as transitions; no
    lockout, no escalation to the system plane, rejected requests change nothing unless only the
    answer failed after the commit.

  \<^bold>\<open>Workload claims\<close>: which service serves which configuration key, on several controllers.
  \<^item> \<open>Workload_Claims\<close> (\<open>ui/controller-core/src/workload_claims.rs\<close>): the registry; its indices are exact
    (locale \<open>claim_views\<close>), it refines a map from keys to owners, and announcements commute.
  \<^item> \<open>Workload_Handlers\<close> (\<open>service_ws/handler/workload.rs\<close>, \<open>event_delivery.rs\<close> of \<open>ui/web-api\<close>): messages
    of services and of other controllers; fail-over on disconnect, the sync exchange, and two ways in
    which the registries and the services come apart.

  \<^bold>\<open>Scheduler.\<close> \<open>Task_Claims\<close> (\<open>core/scheduler-runtime\<close>): the task table, its claim statements, heartbeat,
  poll cycle and loop; mutual exclusion while claims are fresh, recovery of abandoned tasks.

  \<^bold>\<open>Configuration reload.\<close>
  \<^item> \<open>Config_Sections\<close> (\<open>shared/config-reload/src/config\<close>, \<open>delta.rs\<close>, \<open>triage.rs\<close>): sections, validation, the
    re-exec decision and the deltas, which say exactly what changed.
  \<^item> \<open>Reload_Coordinator\<close> (\<open>shared/config-reload/src/coordinator\<close>): phases, requests, audit trail, Degraded.
    The locale \<open>rollback_contract\<close> states what a subsystem owes the coordinator.
  \<^item> \<open>Reload_Subsystems\<close> (\<open>core/controller-runtime/src/reload\<close>): the registered subsystems, which keep that
    contract; rollback, what a success changes and what it leaves, and what later reloads bring back.

  \<^bold>\<open>Updates\<close>: from a trigger to the end of an update on a host.
  \<^item> \<open>Update_Store\<close> (\<open>shared/types\<close>, \<open>shared/db/src/entity\<close>, \<open>ui/web-api-queries/src/queries\<close> and the few
    other writers): rows, the two unique indexes, and every guarded write as an action on the tables.
  \<^item> \<open>Update_Lifecycle\<close>: what each write may do to a row (relations \<open>row_step\<close>, \<open>table_step\<close>), and what
    follows for any interleaving of agents and controllers: well-formed rows, exclusive claims,
    finished updates, foreign messages and the one gap, the output cap, the reaper.
  \<^item> \<open>Update_Dispatch\<close> (\<open>update_dispatch.rs\<close>, \<open>update_triggers.rs\<close>, the loop of \<open>update_batches/dispatch.rs\<close>):
    inventory, message, protection and hook, the queue of a host (the locale \<open>state_order\<close> is its
    measure), triggers.
  \<^item> \<open>Update_Batches\<close> (\<open>update_batches\<close>): candidates, creation of a batch, its dispatches and response.
  \<^item> \<open>Update_Orchestrator\<close> (\<open>handler/updates/dispatch.rs\<close> of \<open>ui/web-api\<close>, \<open>update/controller.rs\<close> of
    \<open>ui/controller-core\<close>): the queue after an update outside a batch, and the task that protects a
    pending update and hands it over; where the queue of a free host is left waiting.

  \<^bold>\<open>Conventions.\<close> \<open>Result<T, E>\<close> is the sum type with \<open>Ok = Inr\<close>; a UUID is a natural number and an
  instant a number of seconds; a string is its UTF-8 bytes; a table is the list of its rows; a
  \<open>HashMap\<close> or \<open>BTreeMap\<close> is a map, and the order in which a \<open>HashMap\<close> is walked is a parameter.
  Whether an SQL statement fails, each reading of the clock, random numbers, and every third-party
  crate are parameters; what is assumed of a crate is a named hypothesis (\<open>rfc3339_round_trip\<close>,
  \<open>hash_iteration\<close>, the laws of \<open>authority_cache\<close>). Integers keep their width where the source can reach
  it (intervals, pool sizes, timings). Loops are structural recursions over what they walk; the two
  loops over the queue of a host (\<open>dispatch_loop\<close>, \<open>standalone_loop\<close>) have termination proofs: the queue
  gets shorter in every turn in which nobody else acts, and the list of what others do is finite. No
  definition needs fuel. A handler or a turn of a loop is one step; where others act inside a step,
  what they do is a parameter (\<open>others\<close>, \<open>seen\<close>, the views of \<open>context_access\<close>), and where steps of several
  controllers interleave, the step relations say so. The duration of a load and the number of writes
  that overlap another are the bounds \<open>limit\<close> and \<open>n\<close> of those relations. Log output is not modelled.

  \<^bold>\<open>Not modelled.\<close> Agents, the SSH agent, the MQTT bridge, plugins and the command line tool are mostly
  process, network and terminal I/O; migrations and most of the web API are SQL and HTTP plumbing;
  cryptography and messaging are wrappers of third-party crates. Bodies of scheduled tasks but
  for the restart timeout, TOML parsing, the bridge that persists reload events, the hook after an
  update, streaming to the user interface and the reset of a tenant's data are left out.
\<close>

section \<open>Properties that span components\<close>

text \<open>C1. Administration survives: whatever requests the authority endpoints serve, in a tenant that
  had an active administrator some user resolves to an authority with which the access engine
  allows \<open>access:manage\<close>, at the coarse gate and on every target.\<close>

theorem administrators_stay_effective:
  assumes "request_step\<^sup>*\<^sup>* app app'" "tenant_holder (lockout_state (app_db app)) t u"
    and "flt SelectUserRoles = None" "flt SelectGrants = None"
  shows "\<exists>v entry. load_authority flt (app_db app') (app_db app') now t v = Ok entry \<and>
    decide registry \<lparr>ctx_user_id = v, ctx_tenant_id = t, ctx_authority = entry, ctx_scope = None\<rparr>
      ACCESS_MANAGE target = Allow"
proof -
  obtain v where v: "tenant_holder (lockout_state (app_db app')) t v"
    using requests_keep_holders[OF assms(1)] assms(2) unfolding keeps_holders_def loses_tenant_def by blast
  have l: "load_authority flt (app_db app') (app_db app') now t v =
      Ok \<lparr>ca_grants = authority_grants (app_db app') t v, ca_loaded_at = now\<rparr>"
    using assms(3,4) by (simp add: load_authority_Ok_iff authority_grants_def)
  show ?thesis using l tenant_holder_allowed[OF v l] by blast
qed

theorem administrators_stay_effective_witness:
  "\<exists>v entry. load_authority no_faults (app_db sample_app) (app_db sample_app) 100 1 v = Ok entry \<and>
     decide None \<lparr>ctx_user_id = v, ctx_tenant_id = 1, ctx_authority = entry, ctx_scope = None\<rparr>
       ACCESS_MANAGE (Some (Host 3, {})) = Allow"
proof -
  have h: "tenant_holder (lockout_state (app_db sample_app)) 1 5" by code_simp
  show ?thesis
    by (rule administrators_stay_effective[OF rtranclp.rtrancl_refl h]) (simp_all add: no_faults_def)
qed

end
